(* ===== verification/Prelude.thy ===== *)
theory Prelude
  imports Main "HOL-Library.Word" "HOL-Library.Char_ord" "HOL-Library.List_Lexorder"
begin

text \<open>
  Shared vocabulary of the development: the machine types, the faults that stand for
  undefined behaviour and for exceptions of the C++ code, decimal printing as done by
  the formatting library for unsigned numbers, and the collections of facts that the
  component theories extend.
\<close>

section \<open>Collections\<close>

named_theorems actor_defs "the definitions of the message handlers, unfolded in step proofs"

named_theorems spec_defs "the definitions of the abstract specifications"

section \<open>Machine types\<close>

type_synonym byte = "8 word"
type_synonym u32 = "32 word"
type_synonym u64 = "64 word"

text \<open>A byte of a socket buffer read as a character of a C++ string.\<close>

definition char_of_byte :: "byte \<Rightarrow> char" where
  "char_of_byte b = char_of (unat b)"

definition byte_of_char :: "char \<Rightarrow> byte" where
  "byte_of_char c = word_of_nat (of_char c)"

lemma byte_of_char_of_byte [simp]: "byte_of_char (char_of_byte b) = b"
proof -
  have "unat b < 256" using unsigned_less [of b] by simp
  then show ?thesis by (simp add: byte_of_char_def char_of_byte_def)
qed

lemma of_char_less_256: "(of_char c :: nat) < 256"
proof -
  have "(of_char c :: nat) mod 256 = of_char c" by (metis of_char_mod_256)
  then show ?thesis by (metis mod_less_divisor zero_less_numeral)
qed

lemma char_of_byte_of_char [simp]: "char_of_byte (byte_of_char c) = c"
  by (simp add: byte_of_char_def char_of_byte_def unat_of_nat of_char_less_256 take_bit_nat_eq_self)

section \<open>Faults\<close>

text \<open>
  What the code does not define, and what it throws: a value of type \<open>fault + 'a\<close> is
  \<open>Inl\<close> where the C++ program would throw or leave defined behaviour.
\<close>

datatype fault =
    InvalidConnection int  \<comment> \<open>the \<open>runtime_error\<close> of the constructor of \<open>CommStatic\<close>\<close>
  | OutOfBounds            \<comment> \<open>a vector or an array element outside its range\<close>
  | NullPointer            \<comment> \<open>a null pointer that is dereferenced\<close>
  | NullString             \<comment> \<open>a C++ string built from a null character pointer\<close>
  | SignedOverflow         \<comment> \<open>a result that does not fit an \<open>int\<close>\<close>
  | UseAfterFree           \<comment> \<open>an element read after the memory it was in has been given back\<close>
  | Thrown string          \<comment> \<open>another exception, by its text\<close>
  | Exits int              \<comment> \<open>not a fault: the code calls \<open>exit\<close> with this status\<close>

definition bindE :: "(fault + 'a) \<Rightarrow> ('a \<Rightarrow> fault + 'b) \<Rightarrow> fault + 'b" where
  "bindE r k = (case r of Inl e \<Rightarrow> Inl e | Inr x \<Rightarrow> k x)"

lemma bindE_simps [simp]:
  "bindE (Inl e) k = Inl e"
  "bindE (Inr x) k = k x"
  by (simp_all add: bindE_def)

lemma bindE_eq_Inr: "bindE r k = Inr y \<longleftrightarrow> (\<exists>x. r = Inr x \<and> k x = Inr y)"
  by (cases r) auto

section \<open>Signed integers\<close>

text \<open>A value that the code computes in an \<open>int\<close>: C++ leaves it undefined outside the range.\<close>

definition INT_MAX :: int where "INT_MAX = 2147483647"

definition INT_MIN :: int where "INT_MIN = -2147483648"

definition int_fit :: "int \<Rightarrow> fault + int" where
  "int_fit x = (if INT_MIN \<le> x \<and> x \<le> INT_MAX then Inr x else Inl SignedOverflow)"

lemma int_fit_in [simp]: "0 \<le> x \<Longrightarrow> x \<le> INT_MAX \<Longrightarrow> int_fit x = Inr x"
  by (simp add: int_fit_def INT_MIN_def)

lemma int_fit_Inr: "int_fit x = Inr y \<longleftrightarrow> INT_MIN \<le> x \<and> x \<le> INT_MAX \<and> y = x"
  by (auto simp: int_fit_def)

section \<open>Reading a vector by index\<close>

definition vec_at :: "'a list \<Rightarrow> nat \<Rightarrow> fault + 'a" where
  "vec_at xs i = (if i < length xs then Inr (xs ! i) else Inl OutOfBounds)"

lemma vec_at_in [simp]: "i < length xs \<Longrightarrow> vec_at xs i = Inr (xs ! i)"
  by (simp add: vec_at_def)

lemma vec_at_Inr: "vec_at xs i = Inr x \<longleftrightarrow> i < length xs \<and> x = xs ! i"
  by (auto simp: vec_at_def)

text \<open>A vector indexed by a signed integer: a negative index is outside too.\<close>

definition ivec_at :: "'a list \<Rightarrow> int \<Rightarrow> fault + 'a" where
  "ivec_at xs i = (if 0 \<le> i \<and> i < int (length xs) then Inr (xs ! nat i) else Inl OutOfBounds)"

definition ivec_set :: "'a list \<Rightarrow> int \<Rightarrow> 'a \<Rightarrow> fault + 'a list" where
  "ivec_set xs i x =
     (if 0 \<le> i \<and> i < int (length xs) then Inr (xs[nat i := x]) else Inl OutOfBounds)"

lemma ivec_at_in [simp]: "0 \<le> i \<Longrightarrow> i < int (length xs) \<Longrightarrow> ivec_at xs i = Inr (xs ! nat i)"
  by (simp add: ivec_at_def)

lemma ivec_set_in [simp]: "0 \<le> i \<Longrightarrow> i < int (length xs) \<Longrightarrow> ivec_set xs i x = Inr (xs[nat i := x])"
  by (simp add: ivec_set_def)

lemma ivec_at_Inr: "ivec_at xs i = Inr x \<longleftrightarrow> 0 \<le> i \<and> i < int (length xs) \<and> x = xs ! nat i"
  by (auto simp: ivec_at_def)

lemma ivec_set_Inr: "ivec_set xs i x = Inr ys \<longleftrightarrow> 0 \<le> i \<and> i < int (length xs) \<and> ys = xs[nat i := x]"
  by (auto simp: ivec_set_def)

section \<open>Results under fuel\<close>

text \<open>\<open>None\<close> is a recursion that ran out of fuel, \<open>Some (Inl f)\<close> a fault.\<close>

type_synonym 'a result = "(fault + 'a) option"

definition bindR :: "'a result \<Rightarrow> ('a \<Rightarrow> 'b result) \<Rightarrow> 'b result" where
  "bindR r k = (case r of None \<Rightarrow> None | Some (Inl f) \<Rightarrow> Some (Inl f) | Some (Inr x) \<Rightarrow> k x)"

lemma bindR_simps [simp]:
  "bindR None k = None"
  "bindR (Some (Inl f)) k = Some (Inl f)"
  "bindR (Some (Inr x)) k = k x"
  by (simp_all add: bindR_def)

lemma bindR_cong [fundef_cong]:
  "r = r' \<Longrightarrow> (\<And>x. r' = Some (Inr x) \<Longrightarrow> k x = k' x) \<Longrightarrow> bindR r k = bindR r' k'"
  by (auto simp: bindR_def split: option.split sum.split)

section \<open>Loops that may fail\<close>

text \<open>A loop over the elements of a list whose body may throw.\<close>

fun foldE :: "('a \<Rightarrow> 's \<Rightarrow> fault + 's) \<Rightarrow> 'a list \<Rightarrow> 's \<Rightarrow> fault + 's" where
  "foldE f [] s = Inr s"
| "foldE f (x # xs) s = bindE (f x s) (foldE f xs)"

lemma foldE_append: "foldE f (xs @ ys) s = bindE (foldE f xs s) (foldE f ys)"
  by (induction xs arbitrary: s) (auto simp: bindE_def split: sum.splits)

lemma foldE_map: "foldE f (map h xs) s = foldE (\<lambda>x. f (h x)) xs s"
  by (induction xs arbitrary: s) (auto simp: bindE_def split: sum.splits)

text \<open>Two nested loops are one loop over the pairs.\<close>

lemma foldE_nested:
  "foldE (\<lambda>x s. foldE (f x) (h x) s) xs s =
   foldE (\<lambda>(x, y). f x y) (concat (map (\<lambda>x. map (Pair x) (h x)) xs)) s"
  by (induction xs arbitrary: s) (auto simp: foldE_append foldE_map bindE_def split: sum.splits)

text \<open>An invariant that every turn keeps and under which no turn fails.\<close>

lemma foldE_invariant:
  assumes "I s" "\<And>x s. x \<in> set xs \<Longrightarrow> I s \<Longrightarrow> \<exists>s'. f x s = Inr s' \<and> I s'"
  shows "\<exists>s'. foldE f xs s = Inr s' \<and> I s'"
  using assms
proof (induction xs arbitrary: s)
  case Nil
  then show ?case by simp
next
  case (Cons x xs)
  then obtain s' where "f x s = Inr s'" "I s'" by (metis list.set_intros(1))
  with Cons show ?case by simp
qed

text \<open>The same with the elements of the list that were visited so far.\<close>

lemma foldE_visited:
  assumes "I [] s"
    and "\<And>ys x zs s. xs = ys @ x # zs \<Longrightarrow> I ys s \<Longrightarrow> \<exists>s'. f x s = Inr s' \<and> I (ys @ [x]) s'"
  shows "\<exists>s'. foldE f xs s = Inr s' \<and> I xs s'"
proof -
  have "\<exists>s'. foldE f us s = Inr s' \<and> I us s'" if "xs = us @ vs" for us vs
    using that
  proof (induction us arbitrary: vs rule: rev_induct)
    case Nil
    then show ?case using assms(1) by simp
  next
    case (snoc x us)
    then obtain s1 where "foldE f us s = Inr s1" "I us s1" by (metis append.assoc)
    moreover from assms(2) [OF _ this(2), of x vs] snoc.prems obtain s2 where
      "f x s1 = Inr s2" "I (us @ [x]) s2" by auto
    ultimately show ?case by (simp add: foldE_append)
  qed
  from this [of xs "[]"] show ?thesis by simp
qed

section \<open>Decimal text\<close>

definition digit_char :: "nat \<Rightarrow> char" where
  "digit_char d = char_of (48 + d)"

fun string_of_nat :: "nat \<Rightarrow> string" where
  "string_of_nat n =
     (if n < 10 then [digit_char n] else string_of_nat (n div 10) @ [digit_char (n mod 10)])"

declare string_of_nat.simps [simp del]

definition is_digit :: "char \<Rightarrow> bool" where
  "is_digit c \<longleftrightarrow> 48 \<le> (of_char c :: nat) \<and> (of_char c :: nat) \<le> 57"

lemma is_digit_digit_char: "d < 10 \<Longrightarrow> is_digit (digit_char d)"
  by (simp add: is_digit_def digit_char_def)

lemma string_of_nat_digits: "\<forall>c \<in> set (string_of_nat n). is_digit c"
proof (induction n rule: string_of_nat.induct)
  case (1 n)
  then show ?case
    by (subst string_of_nat.simps) (auto simp: is_digit_digit_char)
qed

lemma string_of_nat_nonempty: "string_of_nat n \<noteq> []"
  by (subst string_of_nat.simps) simp

text \<open>A signed number as an output stream prints it.\<close>

definition string_of_int :: "int \<Rightarrow> string" where
  "string_of_int i = (if i < 0 then CHR ''-'' # string_of_nat (nat (- i)) else string_of_nat (nat i))"

text \<open>
  \<open>atoi\<close>: white space, a sign, digits; no digit is 0. The value is the one the digits write; C leaves
  it undefined where it does not fit an \<open>int\<close>, which the programs of the graphs and of the game check with
  \<open>int_fit\<close>.
\<close>

definition atoi :: "string \<Rightarrow> int" where
  "atoi s =
     (let s = dropWhile (\<lambda>c. c \<in> {CHR '' '', CHR 0x09, CHR 0x0A, CHR 0x0B, CHR 0x0C, CHR 0x0D}) s;
          neg = (s \<noteq> [] \<and> hd s = CHR ''-'');
          s = (if s \<noteq> [] \<and> (hd s = CHR ''-'' \<or> hd s = CHR ''+'') then tl s else s);
          n = foldl (\<lambda>n c. 10 * n + (int (of_char c) - 48)) 0 (takeWhile is_digit s)
      in if neg then - n else n)"

text \<open>The text a \<open>char*\<close> points to, up to its first NUL.\<close>

definition c_str :: "string \<Rightarrow> string" where
  "c_str s = takeWhile (\<lambda>c. c \<noteq> CHR 0x00) s"

lemma c_str_literal: "CHR 0x00 \<notin> set s \<Longrightarrow> c_str s = s"
  unfolding c_str_def takeWhile_eq_all_conv by auto

section \<open>Lists\<close>

lemma take_append_drop_split: "n \<le> length xs \<Longrightarrow> take n (xs @ ys) = take n xs"
  by simp

lemma takeWhile_replicate_false: "\<not> P x \<Longrightarrow> takeWhile P (replicate n x) = []"
  by (cases n) auto

lemma takeWhile_append_stop: "\<not> P y \<Longrightarrow> takeWhile P (xs @ y # ys) = takeWhile P xs"
  by (induction xs) auto

lemma filter_idem: "filter P (filter P xs) = filter P xs"
  by simp

end
