(* ===== verification/Block_Hash.thy ===== *)
theory Block_Hash
  imports Prelude
begin

text \<open>
  The buffering scheme that the digests of \<^verbatim>\<open>pmud/src/common/hash-library\<close> share. Each
  class keeps a byte counter, a partly filled block buffer and a chaining value; \<open>add\<close>
  tops the buffer up, compresses it when it is full, compresses whole blocks straight from
  the input and keeps the remainder; the Merkle-Damgard digests end with \<open>processBuffer\<close>,
  which pads the buffered bytes and appends the message length. The operations are written
  once here, over the block size and the compression function, and instantiated by the
  digests, as the code repeats them textually. Locale \<open>block_hash\<close> proves what buffering
  promises for any compression function, and \<open>md_hash\<close> adds the padding.
\<close>

section \<open>State and operations\<close>

record 'h hasher =
  hs_numBytes :: u64
  hs_bufferSize :: nat
  hs_buffer :: "byte list"
  hs_hash :: 'h

text \<open>\<open>m_buffer[m_bufferSize++] = *current++;\<close>\<close>

definition put_byte :: "'h hasher \<Rightarrow> byte \<Rightarrow> 'h hasher" where
  "put_byte h b = h\<lparr>hs_buffer := (hs_buffer h)[hs_bufferSize h := b],
                    hs_bufferSize := hs_bufferSize h + 1\<rparr>"

fun fill_buffer :: "nat \<Rightarrow> 'h hasher \<Rightarrow> byte list \<Rightarrow> 'h hasher \<times> byte list" where
  "fill_buffer bs h [] = (h, [])"
| "fill_buffer bs h (b # rest) =
     (if hs_bufferSize h < bs then fill_buffer bs (put_byte h b) rest else (h, b # rest))"

definition flush_buffer :: "nat \<Rightarrow> ('h \<Rightarrow> byte list \<Rightarrow> 'h) \<Rightarrow> 'h hasher \<Rightarrow> 'h hasher" where
  "flush_buffer bs pb h =
     (if hs_bufferSize h = bs
      then h\<lparr>hs_hash := pb (hs_hash h) (take bs (hs_buffer h)),
             hs_numBytes := hs_numBytes h + word_of_nat bs,
             hs_bufferSize := 0\<rparr>
      else h)"

function full_blocks ::
  "nat \<Rightarrow> ('h \<Rightarrow> byte list \<Rightarrow> 'h) \<Rightarrow> 'h hasher \<Rightarrow> byte list \<Rightarrow> 'h hasher \<times> byte list" where
  "full_blocks bs pb h dat =
     (if 0 < bs \<and> length dat \<ge> bs
      then full_blocks bs pb
             (h\<lparr>hs_hash := pb (hs_hash h) (take bs dat),
                hs_numBytes := hs_numBytes h + word_of_nat bs\<rparr>)
             (drop bs dat)
      else (h, dat))"
  by pat_completeness auto
termination
  by (relation "measure (\<lambda>(bs, pb, h, dat). length dat)") auto

declare full_blocks.simps [simp del]

fun keep_bytes :: "'h hasher \<Rightarrow> byte list \<Rightarrow> 'h hasher" where
  "keep_bytes h [] = h"
| "keep_bytes h (b # rest) = keep_bytes (put_byte h b) rest"

definition hasher_add ::
  "nat \<Rightarrow> ('h \<Rightarrow> byte list \<Rightarrow> 'h) \<Rightarrow> 'h hasher \<Rightarrow> byte list \<Rightarrow> 'h hasher" where
  "hasher_add bs pb h dat =
     (let (h1, dat1) = (if hs_bufferSize h > 0 then fill_buffer bs h dat else (h, dat));
          h2 = flush_buffer bs pb h1
      in if dat1 = [] then h2
         else let (h3, dat3) = full_blocks bs pb h2 dat1 in keep_bytes h3 dat3)"

section \<open>Lists written by index\<close>

definition write_bytes :: "byte list \<Rightarrow> nat \<Rightarrow> byte list \<Rightarrow> byte list" where
  "write_bytes xs off ys = foldl (\<lambda>b (i, y). b[i := y]) xs (zip [off..<off + length ys] ys)"

definition zero_range :: "byte list \<Rightarrow> nat \<Rightarrow> nat \<Rightarrow> byte list" where
  "zero_range xs lo hi = foldl (\<lambda>b i. b[i := 0]) xs [lo..<hi]"

lemma write_bytes_Nil [simp]: "write_bytes xs off [] = xs"
  by (simp add: write_bytes_def)

lemma write_bytes_Cons: "write_bytes xs off (y # ys) = write_bytes (xs[off := y]) (Suc off) ys"
proof -
  have "[off..<off + length (y # ys)] = off # [Suc off..<Suc off + length ys]"
    by (subst upt_conv_Cons) simp_all
  then show ?thesis by (simp add: write_bytes_def)
qed

lemma write_bytes_eq:
  "off + length ys \<le> length xs \<Longrightarrow>
   write_bytes xs off ys = take off xs @ ys @ drop (off + length ys) xs"
proof (induction ys arbitrary: xs off)
  case Nil
  then show ?case by simp
next
  case (Cons y ys)
  then have "write_bytes xs off (y # ys) =
      take (Suc off) (xs[off := y]) @ ys @ drop (Suc off + length ys) (xs[off := y])"
    by (simp add: write_bytes_Cons)
  moreover have "take (Suc off) (xs[off := y]) = take off xs @ [y]"
    using Cons.prems by (simp add: take_Suc_conv_app_nth)
  ultimately show ?case by simp
qed

lemma write_bytes_at:
  "length xs = off \<Longrightarrow> length ys \<le> length zs \<Longrightarrow>
   write_bytes (xs @ zs) off ys = xs @ ys @ drop (length ys) zs"
  by (simp add: write_bytes_eq)

lemma zero_range_write: "lo \<le> hi \<Longrightarrow> zero_range xs lo hi = write_bytes xs lo (replicate (hi - lo) 0)"
proof (induction "hi - lo" arbitrary: xs lo)
  case 0
  then show ?case by (simp add: zero_range_def)
next
  case (Suc n)
  then have "zero_range xs lo hi = zero_range (xs[lo := 0]) (Suc lo) hi"
    by (simp add: zero_range_def upt_conv_Cons)
  also have "\<dots> = write_bytes (xs[lo := 0]) (Suc lo) (replicate (hi - Suc lo) 0)"
    using Suc by (intro Suc.hyps(1)) auto
  also have "\<dots> = write_bytes xs lo (replicate (Suc (hi - Suc lo)) 0)"
    by (simp add: write_bytes_Cons)
  finally show ?case using Suc by (simp add: Suc_diff_Suc)
qed

lemma zero_range_eq:
  "lo \<le> hi \<Longrightarrow> hi \<le> length xs \<Longrightarrow>
   zero_range xs lo hi = take lo xs @ replicate (hi - lo) 0 @ drop hi xs"
  by (simp add: zero_range_write write_bytes_eq)

lemma length_write_bytes [simp]: "length (write_bytes xs off ys) = length xs"
  by (induction ys arbitrary: xs off) (simp_all add: write_bytes_Cons)

lemma length_zero_range [simp]: "length (zero_range xs lo hi) = length xs"
proof (cases "lo \<le> hi")
  case True
  then show ?thesis by (simp add: zero_range_write)
next
  case False
  then show ?thesis by (simp add: zero_range_def)
qed

section \<open>The last block of a Merkle-Damgard digest\<close>

definition BlockSize :: nat where "BlockSize = 512 div 8"

definition padded_length :: "nat \<Rightarrow> nat" where
  "padded_length bufferSize =
     (let paddedLength = bufferSize * 8;
          paddedLength = paddedLength + 1;
          lower11Bits = paddedLength mod 512;
          paddedLength = (if lower11Bits \<le> 448 then paddedLength + (448 - lower11Bits)
                          else paddedLength + (512 + 448 - lower11Bits))
      in paddedLength div 8)"

text \<open>
  \<open>junk\<close> is the uninitialised stack array \<open>extra\<close>; \<open>enc\<close> writes the message length in bits,
  most or least significant byte first.
\<close>

definition process_buffer ::
  "('h \<Rightarrow> byte list \<Rightarrow> 'h) \<Rightarrow> (u64 \<Rightarrow> byte list) \<Rightarrow> byte list \<Rightarrow> 'h hasher \<Rightarrow> 'h hasher" where
  "process_buffer pb enc junk h =
     (let size = hs_bufferSize h;
          paddedLength = padded_length size;
          buffer = (if size < BlockSize then (hs_buffer h)[size := 128] else hs_buffer h);
          extra = (if size < BlockSize then junk else junk[0 := 128]);
          buffer = zero_range buffer (size + 1) BlockSize;
          i = max (size + 1) BlockSize;
          extra = zero_range extra (i - BlockSize) (paddedLength - BlockSize);
          msgBits = 8 * (hs_numBytes h + word_of_nat size);
          (buffer, extra) =
            (if paddedLength < BlockSize then (write_bytes buffer paddedLength (enc msgBits), extra)
             else (buffer, write_bytes extra (paddedLength - BlockSize) (enc msgBits)));
          hash = pb (hs_hash h) buffer;
          hash = (if paddedLength > BlockSize then pb hash extra else hash)
      in h\<lparr>hs_buffer := buffer, hs_hash := hash\<rparr>)"

section \<open>Buffering, for any compression function\<close>

function absorb :: "nat \<Rightarrow> ('h \<Rightarrow> byte list \<Rightarrow> 'h) \<Rightarrow> 'h \<Rightarrow> byte list \<Rightarrow> 'h" where
  "absorb bs pb h m =
     (if 0 < bs \<and> length m \<ge> bs then absorb bs pb (pb h (take bs m)) (drop bs m) else h)"
  by pat_completeness auto
termination
  by (relation "measure (\<lambda>(bs, pb, h, m). length m)") auto

declare absorb.simps [simp del]

lemma absorb_short: "length m < bs \<Longrightarrow> absorb bs pb h m = h"
  by (subst absorb.simps) simp

lemma absorb_block: "0 < bs \<Longrightarrow> length b = bs \<Longrightarrow> absorb bs pb h (b @ m) = absorb bs pb (pb h b) m"
  by (subst absorb.simps) simp

lemma absorb_append:
  "0 < bs \<Longrightarrow> bs dvd length a \<Longrightarrow> absorb bs pb h (a @ b) = absorb bs pb (absorb bs pb h a) b"
proof (induction bs pb h a rule: absorb.induct)
  case (1 bs pb h m)
  show ?case
  proof (cases "length m \<ge> bs")
    case True
    have "bs dvd length (drop bs m)" using "1.prems" True by (simp add: dvd_diff_nat)
    with "1.IH" "1.prems" True
    have "absorb bs pb (pb h (take bs m)) (drop bs m @ b) =
        absorb bs pb (absorb bs pb (pb h (take bs m)) (drop bs m)) b" by simp
    moreover have "absorb bs pb h (m @ b) = absorb bs pb (pb h (take bs m)) (drop bs m @ b)"
      using True "1.prems" by (subst absorb.simps) simp
    moreover have "absorb bs pb h m = absorb bs pb (pb h (take bs m)) (drop bs m)"
      using True "1.prems" by (subst absorb.simps) simp
    ultimately show ?thesis by simp
  next
    case False
    with "1.prems" have "m = []"
      by (metis dvd_imp_le length_greater_0_conv)
    with "1.prems" show ?thesis by (simp add: absorb_short)
  qed
qed

locale block_hash =
  fixes bs :: nat
    and pb :: "'h \<Rightarrow> byte list \<Rightarrow> 'h"
  assumes bs_pos: "0 < bs"
begin

text \<open>
  \<open>holds init h c b\<close>: the blocks \<open>c\<close> have been compressed from \<open>init\<close>, the bytes \<open>b\<close> wait in the buffer.
\<close>

definition holds :: "'h \<Rightarrow> 'h hasher \<Rightarrow> byte list \<Rightarrow> byte list \<Rightarrow> bool" where
  "holds init h c b \<longleftrightarrow>
     bs dvd length c \<and> hs_hash h = absorb bs pb init c \<and> hs_numBytes h = word_of_nat (length c) \<and>
     length b \<le> bs \<and> hs_bufferSize h = length b \<and> bs \<le> length (hs_buffer h) \<and>
     take (length b) (hs_buffer h) = b"

definition fed :: "'h \<Rightarrow> 'h hasher \<Rightarrow> byte list \<Rightarrow> bool" where
  "fed init h m \<longleftrightarrow> (\<exists>c b. m = c @ b \<and> length b < bs \<and> holds init h c b)"

lemma holds_put_byte:
  assumes "holds init h c b" "length b < bs"
  shows "holds init (put_byte h x) c (b @ [x])"
proof -
  have "take (Suc (length b)) ((hs_buffer h)[length b := x]) = take (length b) (hs_buffer h) @ [x]"
    using assms by (simp add: holds_def take_Suc_conv_app_nth)
  then show ?thesis using assms by (simp add: holds_def put_byte_def)
qed

lemma holds_fill:
  "holds init h c b \<Longrightarrow> fill_buffer bs h d = (h', d') \<Longrightarrow>
   holds init h' c (b @ take (bs - length b) d) \<and> d' = drop (bs - length b) d"
proof (induction d arbitrary: h b)
  case Nil
  then show ?case by simp
next
  case (Cons x d)
  show ?case
  proof (cases "length b < bs")
    case True
    with Cons.prems have "fill_buffer bs (put_byte h x) d = (h', d')"
      by (simp add: holds_def)
    moreover have "bs - length b = Suc (bs - Suc (length b))" using True by simp
    ultimately show ?thesis
      using Cons.IH [OF holds_put_byte [OF Cons.prems(1) True]] by simp
  next
    case False
    with Cons.prems show ?thesis by (auto simp: holds_def)
  qed
qed

lemma holds_flush:
  assumes "holds init h c b" "length b = bs"
  shows "holds init (flush_buffer bs pb h) (c @ b) []"
proof -
  have "absorb bs pb init (c @ b) = pb (absorb bs pb init c) b"
    using assms bs_pos absorb_block [of bs b pb _ "[]"]
    by (simp add: holds_def absorb_append absorb_short)
  then show ?thesis using assms by (simp add: holds_def flush_buffer_def)
qed

lemma flush_id: "holds init h c b \<Longrightarrow> length b < bs \<Longrightarrow> flush_buffer bs pb h = h"
  by (simp add: holds_def flush_buffer_def)

lemma holds_full_blocks:
  "holds init h c [] \<Longrightarrow> full_blocks bs pb h d = (h', d') \<Longrightarrow>
   \<exists>e. d = e @ d' \<and> length d' < bs \<and> holds init h' (c @ e) []"
proof (induction "length d" arbitrary: h c d rule: less_induct)
  case less
  show ?case
  proof (cases "length d \<ge> bs")
    case True
    let ?h = "h\<lparr>hs_hash := pb (hs_hash h) (take bs d), hs_numBytes := hs_numBytes h + word_of_nat bs\<rparr>"
    have "holds init ?h (c @ take bs d) []"
      using less.prems True bs_pos absorb_block [of bs "take bs d" pb _ "[]"]
      by (simp add: holds_def absorb_append absorb_short)
    moreover have "full_blocks bs pb ?h (drop bs d) = (h', d')"
      using less.prems(2) True bs_pos by (subst (asm) full_blocks.simps) simp
    moreover have "length (drop bs d) < length d" using True bs_pos by simp
    ultimately obtain e where
      "drop bs d = e @ d'" "length d' < bs" "holds init h' ((c @ take bs d) @ e) []"
      using less.hyps by blast
    then show ?thesis
      by (intro exI [of _ "take bs d @ e"]) (metis append.assoc append_take_drop_id)
  next
    case False
    then have "full_blocks bs pb h d = (h, d)" by (subst full_blocks.simps) simp
    with less.prems False show ?thesis by (intro exI [of _ "[]"]) simp
  qed
qed

lemma holds_keep:
  "holds init h c b \<Longrightarrow> length b + length d < bs \<Longrightarrow> holds init (keep_bytes h d) c (b @ d)"
proof (induction d arbitrary: h b)
  case Nil
  then show ?case by simp
next
  case (Cons x d)
  then have "holds init (put_byte h x) c (b @ [x])" by (simp add: holds_put_byte)
  from Cons.IH [OF this] Cons.prems show ?case by simp
qed

lemma fedI: "holds init h c b \<Longrightarrow> length b < bs \<Longrightarrow> fed init h (c @ b)"
  by (auto simp: fed_def)

lemma fed_rest:
  assumes "holds init h c []"
  shows "fed init (if d = [] then h else let (h3, d3) = full_blocks bs pb h d in keep_bytes h3 d3) (c @ d)"
proof (cases "d = []")
  case True
  with fedI [OF assms] bs_pos show ?thesis by simp
next
  case False
  obtain h3 d3 where split: "full_blocks bs pb h d = (h3, d3)" by fastforce
  from holds_full_blocks [OF assms this] obtain e where
    e: "d = e @ d3" "length d3 < bs" "holds init h3 (c @ e) []" by blast
  then have "holds init (keep_bytes h3 d3) (c @ e) ([] @ d3)"
    by (intro holds_keep) simp_all
  then have "fed init (keep_bytes h3 d3) ((c @ e) @ d3)"
    using e(2) by (intro fedI) simp_all
  moreover have "(c @ e) @ d3 = c @ d" using e(1) by simp
  ultimately show ?thesis using False split by simp
qed

theorem fed_add:
  assumes "fed init h m"
  shows "fed init (hasher_add bs pb h d) (m @ d)"
proof -
  from assms obtain c b where m: "m = c @ b" and b: "length b < bs" and h: "holds init h c b"
    by (auto simp: fed_def)
  show ?thesis
  proof (cases "b = []")
    case True
    with h have "hs_bufferSize h = 0" "holds init h c []" by (simp_all add: holds_def)
    with True fed_rest [OF this(2), of d] flush_id [OF h b] show ?thesis
      by (simp add: hasher_add_def m)
  next
    case False
    let ?n = "bs - length b"
    obtain h1 d1 where split: "fill_buffer bs h d = (h1, d1)" by fastforce
    from holds_fill [OF h split]
    have h1: "holds init h1 c (b @ take ?n d)" and d1: "d1 = drop ?n d" by auto
    have size: "hs_bufferSize h > 0" using False h by (simp add: holds_def)
    have add: "hasher_add bs pb h d =
        (if d1 = [] then flush_buffer bs pb h1
         else let (h3, d3) = full_blocks bs pb (flush_buffer bs pb h1) d1 in keep_bytes h3 d3)"
      using split size by (simp add: hasher_add_def Let_def)
    show ?thesis
    proof (cases "?n \<le> length d")
      case True
      with h1 b have "holds init (flush_buffer bs pb h1) (c @ b @ take ?n d) []"
        using holds_flush [OF h1] by simp
      from fed_rest [OF this, of d1]
      have "fed init (hasher_add bs pb h d) ((c @ b @ take ?n d) @ d1)" by (simp only: add)
      moreover have "(c @ b @ take ?n d) @ d1 = m @ d" by (simp add: d1 m)
      ultimately show ?thesis by simp
    next
      case short: False
      with d1 have "d1 = []" by simp
      moreover have "length (b @ take ?n d) < bs" using short by simp
      moreover have "take ?n d = d" using short by simp
      ultimately show ?thesis
        using h1 flush_id [OF h1] fedI [OF h1] by (simp add: add m)
    qed
  qed
qed

text \<open>Any way of cutting the data into calls of \<open>add\<close> feeds the same message.\<close>

theorem fed_chunks:
  "fed init h m \<Longrightarrow> fed init (foldl (hasher_add bs pb) h ds) (m @ concat ds)"
  by (induction ds arbitrary: h m) (use fed_add in fastforce)+

lemma fed_unique:
  assumes "fed init h m" "fed init h' m"
  shows "hs_hash h = hs_hash h' \<and> hs_numBytes h = hs_numBytes h' \<and>
    hs_bufferSize h = hs_bufferSize h' \<and>
    take (hs_bufferSize h) (hs_buffer h) = take (hs_bufferSize h') (hs_buffer h')"
proof -
  have split: "c = take (length m - length m mod bs) m \<and> b = drop (length m - length m mod bs) m"
    if "m = c @ b" "length b < bs" "bs dvd length c" for c b
  proof -
    from that(3) obtain k where "length c = bs * k" by (elim dvdE)
    with that(1,2) have "length m mod bs = length b" by simp
    with that(1) show ?thesis by simp
  qed
  from assms(1) obtain c b where h: "m = c @ b" "length b < bs" "holds init h c b"
    unfolding fed_def by blast
  from assms(2) obtain c' b' where h': "m = c' @ b'" "length b' < bs" "holds init h' c' b'"
    unfolding fed_def by blast
  have "bs dvd length c" "bs dvd length c'" using h(3) h'(3) by (simp_all add: holds_def)
  with split [OF h(1,2)] split [OF h'(1,2)] have "c = c'" "b = b'" by simp_all
  with h(3) h'(3) show ?thesis by (simp add: holds_def)
qed

end

section \<open>The buffer keeps its size\<close>

lemma put_byte_buffer [simp]: "length (hs_buffer (put_byte h b)) = length (hs_buffer h)"
  by (simp add: put_byte_def)

lemma fill_buffer_buffer:
  "length (hs_buffer (fst (fill_buffer bs h d))) = length (hs_buffer h)"
  by (induction bs h d rule: fill_buffer.induct) simp_all

lemma flush_buffer_buffer [simp]: "hs_buffer (flush_buffer bs pb h) = hs_buffer h"
  by (simp add: flush_buffer_def)

lemma full_blocks_buffer: "hs_buffer (fst (full_blocks bs pb h d)) = hs_buffer h"
proof (induction bs pb h d rule: full_blocks.induct)
  case (1 bs pb h d)
  then show ?case by (subst full_blocks.simps) simp
qed

lemma keep_bytes_buffer: "length (hs_buffer (keep_bytes h d)) = length (hs_buffer h)"
  by (induction h d rule: keep_bytes.induct) simp_all

lemma hasher_add_buffer [simp]:
  "length (hs_buffer (hasher_add bs pb h d)) = length (hs_buffer h)"
proof -
  obtain h1 d1 where "(if hs_bufferSize h > 0 then fill_buffer bs h d else (h, d)) = (h1, d1)"
    by fastforce
  moreover from this have "length (hs_buffer h1) = length (hs_buffer h)"
    using fill_buffer_buffer [of bs h d] by (auto split: if_splits)
  moreover obtain h3 d3 where "full_blocks bs pb (flush_buffer bs pb h1) d1 = (h3, d3)"
    by fastforce
  moreover from this have "hs_buffer h3 = hs_buffer h1"
    using full_blocks_buffer [of bs pb "flush_buffer bs pb h1" d1] by simp
  ultimately show ?thesis by (simp add: hasher_add_def Let_def keep_bytes_buffer)
qed

lemma hasher_adds_buffer [simp]:
  "length (hs_buffer (foldl (hasher_add bs pb) h ds)) = length (hs_buffer h)"
  by (induction ds arbitrary: h) simp_all

section \<open>Padding and the digest\<close>

text \<open>
  What \<open>getHash\<close> does around \<open>processBuffer\<close>: the chaining value is saved, the digest is read
  off the padded state by \<open>out\<close>, and the chaining value is restored.
\<close>

definition get_hash ::
  "('h \<Rightarrow> byte list \<Rightarrow> 'h) \<Rightarrow> (u64 \<Rightarrow> byte list) \<Rightarrow> ('h \<Rightarrow> byte list) \<Rightarrow> byte list \<Rightarrow> 'h hasher \<Rightarrow>
   byte list \<times> 'h hasher" where
  "get_hash pb enc out junk h =
     (let oldHash = hs_hash h;
          h' = process_buffer pb enc junk h
      in (out (hs_hash h'), h'\<lparr>hs_hash := oldHash\<rparr>))"

text \<open>
  The padding of RFC 1321, FIPS 180-4: a one bit, zeros up to 448 modulo 512 bits, the length
  of the message in bits as a 64-bit number.
\<close>

definition md_pad :: "(u64 \<Rightarrow> byte list) \<Rightarrow> byte list \<Rightarrow> byte list" where
  "md_pad enc m =
     [128] @ replicate ((119 - length m mod 64) mod 64) 0 @ enc (8 * word_of_nat (length m))"

lemma padded_length_eq: "n < 64 \<Longrightarrow> padded_length n = (if n < 56 then 56 else 120)"
  by (simp add: padded_length_def Let_def)

text \<open>The two shapes of the final block(s), as lists.\<close>

lemma final_block_short:
  assumes "length b < 56" "length buf = 64" "take (length b) buf = b" "length e = 8"
  shows "write_bytes (zero_range (buf[length b := 128]) (length b + 1) 64) 56 e =
    b @ 128 # replicate (55 - length b) 0 @ e"
proof -
  let ?x = "b @ 128 # replicate (55 - length b) (0 :: byte)"
  have "take (length b + 1) (buf[length b := 128]) = b @ [128]"
    using assms by (simp add: take_Suc_conv_app_nth)
  then have "zero_range (buf[length b := 128]) (length b + 1) 64 = ?x @ replicate 8 0"
    using assms by (simp add: zero_range_eq flip: replicate_add)
  moreover have x: "length ?x = 56" using assms(1) by simp
  have "write_bytes (?x @ replicate 8 0) 56 e = ?x @ e @ drop (length e) (replicate 8 0)"
    by (rule write_bytes_at [OF x]) (simp add: assms(4))
  ultimately show ?thesis using assms(4) by simp
qed

lemma final_block_long:
  assumes "56 \<le> length b" "length b < 64" "length buf = 64" "take (length b) buf = b"
  shows "zero_range (buf[length b := 128]) (length b + 1) 64 = b @ 128 # replicate (63 - length b) 0"
proof -
  have "take (length b + 1) (buf[length b := 128]) = b @ [128]"
    using assms by (simp add: take_Suc_conv_app_nth)
  then show ?thesis using assms by (simp add: zero_range_eq)
qed

lemma extra_block:
  assumes "length junk = 64" "length e = 8"
  shows "write_bytes (zero_range junk 0 56) 56 e = replicate 56 0 @ e"
  using assms by (simp add: zero_range_eq write_bytes_eq)

locale md_hash = block_hash bs pb for bs :: nat and pb :: "'h \<Rightarrow> byte list \<Rightarrow> 'h" +
  fixes enc :: "u64 \<Rightarrow> byte list"
    and out :: "'h \<Rightarrow> byte list"
  assumes bs_64: "bs = 64"
    and length_enc: "length (enc n) = 8"
begin

lemma process_buffer_hash:
  assumes h: "holds init h c b" and b: "length b < bs"
    and buf: "length (hs_buffer h) = 64" and junk: "length junk = 64"
  shows "hs_hash (process_buffer pb enc junk h) = absorb bs pb init (c @ b @ md_pad enc (c @ b))"
proof -
  let ?e = "enc (8 * word_of_nat (length (c @ b)))"
  have size: "hs_bufferSize h = length b" "take (length b) (hs_buffer h) = b"
    and num: "hs_numBytes h = word_of_nat (length c)"
    using h by (simp_all add: holds_def)
  have "bs dvd length c" using h by (simp add: holds_def)
  then obtain k where k: "length c = 64 * k" unfolding bs_64 by (elim dvdE)
  have m64: "length (c @ b) mod 64 = length b" using b by (simp add: k bs_64)
  have absorb: "absorb bs pb init (c @ x) = absorb bs pb (hs_hash h) x" for x
    using h bs_pos by (simp add: holds_def absorb_append)
  show ?thesis
  proof (cases "length b < 56")
    case True
    have "hs_hash (process_buffer pb enc junk h) = pb (hs_hash h) (b @ 128 # replicate (55 - length b) 0 @ ?e)"
      using True b final_block_short [OF True buf size(2), of ?e]
      by (simp add: process_buffer_def Let_def padded_length_eq BlockSize_def size(1) num length_enc)
    moreover have "(119 - length b) mod 64 = 55 - length b"
    proof -
      have "119 - length b = (55 - length b) + 64" using True by simp
      then show ?thesis by (simp only: mod_add_self2) simp
    qed
    moreover have "absorb bs pb (hs_hash h) (b @ 128 # replicate (55 - length b) 0 @ ?e) =
        pb (hs_hash h) (b @ 128 # replicate (55 - length b) 0 @ ?e)"
      using True absorb_block [of bs "b @ 128 # replicate (55 - length b) 0 @ ?e" pb _ "[]"]
      by (simp add: bs_64 length_enc absorb_short)
    ultimately show ?thesis by (simp add: absorb md_pad_def m64 del: length_append)
  next
    case False
    let ?z = "replicate (63 - length b) 0" and ?y = "replicate 56 0 @ ?e"
    have b': "56 \<le> length b" "length b < 64" using False b by (simp_all add: bs_64)
    have "hs_hash (process_buffer pb enc junk h) = pb (pb (hs_hash h) (b @ 128 # ?z)) ?y"
      using b' final_block_long [OF b' buf size(2)] extra_block [OF junk, of ?e]
      by (simp add: process_buffer_def Let_def padded_length_eq BlockSize_def size(1) num length_enc)
    moreover have "replicate ((119 - length b) mod 64) (0 :: byte) = ?z @ replicate 56 0"
    proof -
      have "(119 - length b) mod 64 = (63 - length b) + 56" using b' by simp
      then show ?thesis by (simp only: replicate_add)
    qed
    moreover have "absorb bs pb (hs_hash h) ((b @ 128 # ?z) @ ?y) = pb (pb (hs_hash h) (b @ 128 # ?z)) ?y"
      using b' absorb_block [of bs "b @ 128 # ?z" pb _ ?y] absorb_block [of bs ?y pb _ "[]"]
      by (simp add: bs_64 length_enc absorb_short)
    ultimately show ?thesis by (simp add: absorb md_pad_def m64 del: length_append)
  qed
qed

lemma process_buffer_keeps:
  assumes h: "holds init h c b" and b: "length b < bs"
    and buf: "length (hs_buffer h) = 64" and junk: "length junk = 64"
  shows "take (length b) (hs_buffer (process_buffer pb enc junk h)) = b \<and>
    length (hs_buffer (process_buffer pb enc junk h)) = 64"
proof -
  have size: "hs_bufferSize h = length b" "take (length b) (hs_buffer h) = b"
    using h by (simp_all add: holds_def)
  show ?thesis
  proof (cases "length b < 56")
    case True
    then show ?thesis
      using final_block_short [OF True buf size(2)] b buf
      by (simp add: process_buffer_def Let_def padded_length_eq BlockSize_def size(1) length_enc)
  next
    case False
    then have b': "56 \<le> length b" "length b < 64" using b by (simp_all add: bs_64)
    show ?thesis
      using b' final_block_long [OF b' buf size(2)] buf
      by (simp add: process_buffer_def Let_def padded_length_eq BlockSize_def size(1) length_enc)
  qed
qed

lemma process_buffer_frame [simp]:
  "hs_numBytes (process_buffer pb enc junk h) = hs_numBytes h"
  "hs_bufferSize (process_buffer pb enc junk h) = hs_bufferSize h"
  by (simp_all add: process_buffer_def Let_def split: prod.splits)

text \<open>The digest depends on the message alone, and reading it leaves the hasher able to go on.\<close>

theorem get_hash_fed:
  assumes "fed init h m" and buf: "length (hs_buffer h) = 64" and junk: "length junk = 64"
    and get: "get_hash pb enc out junk h = (d, h')"
  shows "d = out (absorb bs pb init (m @ md_pad enc m))"
    and "fed init h' m" and "length (hs_buffer h') = 64"
proof -
  from assms(1) obtain c b where m: "m = c @ b" and b: "length b < bs" and h: "holds init h c b"
    unfolding fed_def by blast
  from get have d: "d = out (hs_hash (process_buffer pb enc junk h))"
    and h': "h' = (process_buffer pb enc junk h)\<lparr>hs_hash := hs_hash h\<rparr>"
    by (auto simp: get_hash_def Let_def)
  show "d = out (absorb bs pb init (m @ md_pad enc m))"
    using process_buffer_hash [OF h b buf junk] by (simp add: d m)
  show "length (hs_buffer h') = 64"
    using process_buffer_keeps [OF h b buf junk] by (simp add: h')
  have "holds init h' c b"
    using h process_buffer_keeps [OF h b buf junk] eq_refl [OF bs_64] by (simp add: holds_def h')
  then show "fed init h' m" using b m by (auto simp: fed_def)
qed

end

end
