(* ===== verification/Word_Bytes.thy ===== *)
theory Word_Bytes
  imports Prelude
begin

text \<open>
  Bytes, words and hexadecimal text as the digests of \<^verbatim>\<open>pmud/src/common/hash-library\<close> handle
  them: little-endian loads through a word pointer, the byte swap, shift-based rotation, the
  big- and little-endian encodings of the message length, and the digits of \<open>getHash\<close>. The
  host is little-endian, the configuration in which the \<^verbatim>\<open>__BYTE_ORDER\<close> switches select \<open>swap\<close>. The code
  reads words through a cast of the input pointer, which need not be aligned: the loads are those of a
  machine that, like x86, reads the bytes at any address.
\<close>

unbundle bit_operations_syntax

lemma list_as_nths: "length xs = n \<Longrightarrow> xs = map ((!) xs) [0..<n]"
  by (metis map_nth)

section \<open>Loads and swaps\<close>

text \<open>\<open>((uint32_t*) data)[i]\<close> on a little-endian host.\<close>

definition load_le32 :: "byte list \<Rightarrow> nat \<Rightarrow> u32" where
  "load_le32 dat i =
     (ucast (dat ! (4 * i)) OR push_bit 8 (ucast (dat ! (4 * i + 1)))) OR
     (push_bit 16 (ucast (dat ! (4 * i + 2))) OR push_bit 24 (ucast (dat ! (4 * i + 3))))"

definition swap32 :: "u32 \<Rightarrow> u32" where
  "swap32 x =
     drop_bit 24 x OR
     (drop_bit 8 x AND 0x0000FF00) OR
     (push_bit 8 x AND 0x00FF0000) OR
     push_bit 24 x"

text \<open>The number that a byte sequence denotes, most significant byte first.\<close>

definition be_value :: "byte list \<Rightarrow> nat" where
  "be_value bs = foldl (\<lambda>n b. 256 * n + unat b) 0 bs"

definition be_word32 :: "byte list \<Rightarrow> u32" where
  "be_word32 bs = word_of_nat (be_value bs)"

lemma not_bit_byte: "8 \<le> n \<Longrightarrow> \<not> bit (b :: byte) n"
  using bit_imp_le_length [of b n] by auto

lemma swap_masks:
  "(0x0000FF00 :: u32) = push_bit 8 (mask 8)"
  "(0x00FF0000 :: u32) = push_bit 16 (mask 8)"
  by (simp_all add: mask_eq_exp_minus_1)

lemma swap32_bytes:
  fixes b0 b1 b2 b3 :: byte
  shows "swap32 ((ucast b0 OR push_bit 8 (ucast b1)) OR (push_bit 16 (ucast b2) OR push_bit 24 (ucast b3)))
    = ((push_bit 24 (ucast b0) OR push_bit 16 (ucast b1)) OR push_bit 8 (ucast b2)) OR ucast b3"
    (is "?l = ?r")
proof (rule bit_word_eqI)
  fix n assume "n < LENGTH(32)"
  then consider "n < 8" | "8 \<le> n" "n < 16" | "16 \<le> n" "n < 24" | "24 \<le> n" "n < 32"
    by fastforce
  then show "bit ?l n = bit ?r n"
    unfolding swap32_def swap_masks
    by cases (simp_all add: bit_simps not_bit_byte less_diff_conv2)
qed

lemma or_add_byte:
  fixes w :: u32 and b :: byte
  shows "push_bit 8 w OR ucast b = 256 * w + ucast b"
proof -
  have "push_bit 8 w AND ucast b = 0"
    by (rule bit_word_eqI) (auto simp: bit_simps not_bit_byte)
  then have "push_bit 8 w + ucast b = push_bit 8 w OR ucast b"
    by (rule disjunctive_add_eq_or)
  then show ?thesis by (simp add: push_bit_eq_mult mult.commute)
qed

lemma swap32_load_le32:
  "swap32 (load_le32 dat i) =
   be_word32 [dat ! (4 * i), dat ! (4 * i + 1), dat ! (4 * i + 2), dat ! (4 * i + 3)]"
proof -
  let ?b = "\<lambda>k. ucast (dat ! (4 * i + k)) :: u32"
  have "swap32 (load_le32 dat i) = push_bit 8 (push_bit 8 (push_bit 8 (?b 0) OR ?b 1) OR ?b 2) OR ?b 3"
    by (simp add: load_le32_def swap32_bytes push_bit_or)
  then show ?thesis
    by (simp add: or_add_byte be_word32_def be_value_def unsigned_ucast_eq)
qed

section \<open>Rotation\<close>

text \<open>\<open>(a >> c) | (a << (32 - c))\<close> and its mirror image.\<close>

definition rotate_right32 :: "u32 \<Rightarrow> nat \<Rightarrow> u32" where
  "rotate_right32 a c = drop_bit c a OR push_bit (32 - c) a"

definition rotate_left32 :: "u32 \<Rightarrow> nat \<Rightarrow> u32" where
  "rotate_left32 a c = push_bit c a OR drop_bit (32 - c) a"

text \<open>Rotation by two shifts, at any width.\<close>

lemma shifts_rotr:
  fixes a :: "'a::len word"
  assumes c: "0 < c" "c < LENGTH('a)"
  shows "drop_bit c a OR push_bit (LENGTH('a) - c) a = word_rotr c a" (is "?l = _")
proof (rule bit_word_eqI)
  fix n assume n: "n < LENGTH('a)"
  show "bit ?l n = bit (word_rotr c a) n"
  proof (cases "c + n < LENGTH('a)")
    case True
    then have "\<not> LENGTH('a) - c \<le> n" "(n + c) mod LENGTH('a) = c + n"
      using c by (simp_all add: add.commute)
    with c n show ?thesis by (simp add: bit_simps add.commute [of n c])
  next
    case False
    then have "(n + c) mod LENGTH('a) = n + c - LENGTH('a)" using c n by (simp add: mod_if)
    moreover have "\<not> bit a (c + n)" using False bit_imp_le_length [of a "c + n"] by auto
    moreover have "n - (LENGTH('a) - c) = n + c - LENGTH('a)" using c by simp
    ultimately show ?thesis
      using c n False by (auto simp: bit_simps)
  qed
qed

lemma shifts_rotl:
  fixes a :: "'a::len word"
  assumes c: "0 < c" "c < LENGTH('a)"
  shows "push_bit c a OR drop_bit (LENGTH('a) - c) a = word_rotl c a"
proof -
  have "push_bit c a OR drop_bit (LENGTH('a) - c) a = word_rotr (LENGTH('a) - c) a"
    using shifts_rotr [of "LENGTH('a) - c" a] c by (simp add: or.commute)
  then show ?thesis using c by (simp add: word_rotl_eq_word_rotr)
qed

lemma rotate_right32_rotr: "0 < c \<Longrightarrow> c < 32 \<Longrightarrow> rotate_right32 a c = word_rotr c a"
  using shifts_rotr [of c a] by (simp add: rotate_right32_def)

lemma rotate_left32_rotl: "0 < c \<Longrightarrow> c < 32 \<Longrightarrow> rotate_left32 a c = word_rotl c a"
  using shifts_rotl [of c a] by (simp add: rotate_left32_def)

section \<open>Encodings of the message length\<close>

definition be_bytes64 :: "u64 \<Rightarrow> byte list" where
  "be_bytes64 n =
     [ucast (drop_bit 56 n AND 0xFF), ucast (drop_bit 48 n AND 0xFF),
      ucast (drop_bit 40 n AND 0xFF), ucast (drop_bit 32 n AND 0xFF),
      ucast (drop_bit 24 n AND 0xFF), ucast (drop_bit 16 n AND 0xFF),
      ucast (drop_bit 8 n AND 0xFF), ucast (n AND 0xFF)]"

lemma length_be_bytes64 [simp]: "length (be_bytes64 n) = 8"
  by (simp add: be_bytes64_def)

text \<open>\<open>*addLength++ = msgBits & 0xFF; msgBits >>= 8;\<close>, eight times.\<close>

primrec le_bytes :: "nat \<Rightarrow> u64 \<Rightarrow> byte list" where
  "le_bytes 0 msgBits = []"
| "le_bytes (Suc n) msgBits = ucast (msgBits AND 0xFF) # le_bytes n (drop_bit 8 msgBits)"

definition le_bytes64 :: "u64 \<Rightarrow> byte list" where
  "le_bytes64 msgBits = le_bytes 8 msgBits"

lemma length_le_bytes [simp]: "length (le_bytes n w) = n"
  by (induction n arbitrary: w) simp_all

lemma length_le_bytes64 [simp]: "length (le_bytes64 w) = 8"
  by (simp add: le_bytes64_def)

definition be_bytes32 :: "u32 \<Rightarrow> byte list" where
  "be_bytes32 w =
     [ucast (drop_bit 24 w AND 0xFF), ucast (drop_bit 16 w AND 0xFF),
      ucast (drop_bit 8 w AND 0xFF), ucast (w AND 0xFF)]"

section \<open>Hexadecimal text\<close>

definition dec2hex :: string where "dec2hex = ''0123456789abcdef''"

definition hex_byte :: "byte \<Rightarrow> string" where
  "hex_byte b = [dec2hex ! unat (drop_bit 4 b AND 15), dec2hex ! unat (b AND 15)]"

definition hex_string :: "byte list \<Rightarrow> string" where
  "hex_string bs = concat (map hex_byte bs)"

definition is_hex :: "char \<Rightarrow> bool" where
  "is_hex c \<longleftrightarrow> c \<in> set dec2hex"

lemma nibble_bound: "unat (b AND 15 :: byte) < 16"
proof -
  have "b AND 15 \<le> (15 :: byte)" by (rule word_and_le1)
  then have "unat (b AND 15) \<le> unat (15 :: byte)" by (simp only: word_le_nat_alt)
  then show ?thesis by simp
qed

lemma length_dec2hex: "length dec2hex = 16"
  by (simp add: dec2hex_def)

lemma is_hex_dec2hex: "i < 16 \<Longrightarrow> is_hex (dec2hex ! i)"
  by (simp add: is_hex_def nth_mem length_dec2hex)

lemma length_hex_string: "length (hex_string bs) = 2 * length bs"
  by (induction bs) (simp_all add: hex_string_def hex_byte_def)

lemma hex_byte_hex: "c \<in> set (hex_byte b) \<Longrightarrow> is_hex c"
  by (auto simp: hex_byte_def is_hex_dec2hex nibble_bound)

lemma hex_string_hex: "c \<in> set (hex_string bs) \<Longrightarrow> is_hex c"
  by (auto simp: hex_string_def dest: hex_byte_hex)

end
