(* ===== verification/Digest_Stream.thy ===== *)
theory Digest_Stream
  imports Block_Hash Word_Bytes
begin

text \<open>
  A digest object of \<^verbatim>\<open>pmud/src/common/hash-library\<close> as a stream of calls to \<open>add\<close> and \<open>getHash\<close>, and
  the interface \<open>digest_object\<close> under which every such object answers each \<open>getHash\<close> with the digest of
  all bytes added before. SHA-256, SHA-1, MD5, Keccak, SHA-3 and CRC-32 interpret it.
\<close>

text \<open>\<open>getHash\<close> comes with the bytes that its uninitialised stack array holds.\<close>

datatype digest_call = Add "byte list" | Get "byte list"

fun digest_calls ::
  "('s \<Rightarrow> byte list \<Rightarrow> 's) \<Rightarrow> (byte list \<Rightarrow> 's \<Rightarrow> string \<times> 's) \<Rightarrow> 's \<Rightarrow> digest_call list \<Rightarrow> string list" where
  "digest_calls add get h [] = []"
| "digest_calls add get h (Add d # cs) = digest_calls add get (add h d) cs"
| "digest_calls add get h (Get junk # cs) =
     (let (s, h') = get junk h in s # digest_calls add get h' cs)"

text \<open>What the calls promise: each \<open>getHash\<close> digests all bytes added before it.\<close>

fun digest_calls_spec :: "(byte list \<Rightarrow> string) \<Rightarrow> byte list \<Rightarrow> digest_call list \<Rightarrow> string list" where
  "digest_calls_spec digest m [] = []"
| "digest_calls_spec digest m (Add d # cs) = digest_calls_spec digest (m @ d) cs"
| "digest_calls_spec digest m (Get junk # cs) = digest m # digest_calls_spec digest m cs"

fun call_ok :: "(byte list \<Rightarrow> bool) \<Rightarrow> digest_call \<Rightarrow> bool" where
  "call_ok junk_ok (Add d) = True"
| "call_ok junk_ok (Get junk) = junk_ok junk"

lemma calls_ok_any: "list_all (call_ok (\<lambda>junk. True)) cs"
proof -
  have "call_ok (\<lambda>junk. True) c" for c by (cases c) simp_all
  then show ?thesis by (simp add: list_all_iff)
qed

abbreviation stack_ok :: "digest_call \<Rightarrow> bool" where
  "stack_ok \<equiv> call_ok (\<lambda>junk. length junk = 64)"

locale digest_object =
  fixes add :: "'s \<Rightarrow> byte list \<Rightarrow> 's"
    and get :: "byte list \<Rightarrow> 's \<Rightarrow> string \<times> 's"
    and holds_bytes :: "'s \<Rightarrow> byte list \<Rightarrow> bool"
    and digest :: "byte list \<Rightarrow> string"
    and junk_ok :: "byte list \<Rightarrow> bool"
  assumes add_bytes: "holds_bytes h m \<Longrightarrow> holds_bytes (add h d) (m @ d)"
    and get_digest: "holds_bytes h m \<Longrightarrow> junk_ok junk \<Longrightarrow> get junk h = (s, h') \<Longrightarrow>
      s = digest m \<and> holds_bytes h' m"
begin

lemma calls_eq:
  "holds_bytes h m \<Longrightarrow> list_all (call_ok junk_ok) cs \<Longrightarrow> digest_calls add get h cs = digest_calls_spec digest m cs"
proof (induction cs arbitrary: h m)
  case Nil
  then show ?case by simp
next
  case (Cons c cs)
  show ?case
  proof (cases c)
    case (Add d)
    then show ?thesis using Cons.IH [OF add_bytes [OF Cons.prems(1)]] Cons.prems(2) by simp
  next
    case (Get junk)
    obtain s h' where g: "get junk h = (s, h')" by fastforce
    from Get Cons.prems(2) have "junk_ok junk" by simp
    from get_digest [OF Cons.prems(1) this g] Cons.IH [of h' m] Cons.prems(2) Get g
    show ?thesis by simp
  qed
qed

lemma get_text: "holds_bytes h m \<Longrightarrow> junk_ok junk \<Longrightarrow> fst (get junk h) = digest m"
  using get_digest [of h m junk] by (cases "get junk h") simp

text \<open>\<open>reset(); add(data); getHash()\<close>\<close>

lemma one_shot:
  assumes "holds_bytes h []" "junk_ok junk"
  shows "fst (get junk (add h d)) = digest d"
  using get_text [OF add_bytes [OF assms(1), of d] assms(2)] by simp

end

text \<open>A Merkle-Damgard object whose chaining value becomes text byte by byte is such an object.\<close>

context md_hash
begin

lemma md_digest_object:
  assumes "\<And>h d. add h d = hasher_add bs pb h d"
    and "\<And>junk h. get junk h = (let (raw, h') = get_hash pb enc out junk h in (hex_string raw, h'))"
  shows "digest_object add get (\<lambda>h m. fed init h m \<and> length (hs_buffer h) = 64)
    (\<lambda>m. hex_string (out (absorb bs pb init (m @ md_pad enc m)))) (\<lambda>junk. length junk = 64)"
proof
  fix h m d
  assume "fed init h m \<and> length (hs_buffer h) = 64"
  then show "fed init (add h d) (m @ d) \<and> length (hs_buffer (add h d)) = 64"
    using fed_add by (simp add: assms(1))
next
  fix h m s and junk :: "byte list" and h'
  assume h: "fed init h m \<and> length (hs_buffer h) = 64" and junk: "length junk = 64"
    and get: "get junk h = (s, h')"
  from get obtain raw where raw: "get_hash pb enc out junk h = (raw, h')" "s = hex_string raw"
    unfolding assms(2) by (auto split: prod.splits)
  from get_hash_fed [OF conjunct1 [OF h] conjunct2 [OF h] junk raw(1)] raw(2)
  show "s = hex_string (out (absorb bs pb init (m @ md_pad enc m))) \<and>
      (fed init h' m \<and> length (hs_buffer h') = 64)" by simp
qed

lemma get_hash_bytes:
  assumes "fed init h m \<and> length (hs_buffer h) = 64" "length junk = 64"
  shows "fst (get_hash pb enc out junk h) = out (absorb bs pb init (m @ md_pad enc m))"
  using get_hash_fed(1) [OF conjunct1 [OF assms(1)] conjunct2 [OF assms(1)] assms(2)]
  by (cases "get_hash pb enc out junk h") simp

lemma reset_fed: "hs_numBytes h = 0 \<Longrightarrow> hs_bufferSize h = 0 \<Longrightarrow> hs_hash h = init \<Longrightarrow> length (hs_buffer h) = 64 \<Longrightarrow>
   fed init h [] \<and> length (hs_buffer h) = 64"
  unfolding fed_def holds_def by (auto simp: absorb_short bs_64)

end

text \<open>Two compression functions that agree on chaining values of the right shape digest alike.\<close>

lemma absorb_cong:
  assumes "\<And>H b. P H \<Longrightarrow> length b = bs \<Longrightarrow> pb H b = pb' H b \<and> P (pb H b)"
  shows "P H \<Longrightarrow> absorb bs pb H m = absorb bs pb' H m"
proof (induction "length m" arbitrary: H m rule: less_induct)
  case less
  show ?case
  proof (cases "0 < bs \<and> bs \<le> length m")
    case True
    have agree: "pb H (take bs m) = pb' H (take bs m) \<and> P (pb H (take bs m))"
      by (rule assms [OF less.prems]) (use True in simp)
    have "absorb bs pb H m = absorb bs pb (pb H (take bs m)) (drop bs m)"
      using True by (subst absorb.simps) simp
    also have "\<dots> = absorb bs pb' (pb H (take bs m)) (drop bs m)"
      by (rule less.hyps [OF _ conjunct2 [OF agree]]) (use True in auto)
    also have "\<dots> = absorb bs pb' H m"
      unfolding conjunct1 [OF agree] using True by (subst (2) absorb.simps) simp
    finally show ?thesis .
  next
    case False
    then show ?thesis by (subst absorb.simps, subst absorb.simps) auto
  qed
qed

lemma length_absorb:
  assumes "\<And>H b. length (pb H b) = n"
  shows "length H = n \<Longrightarrow> length (absorb bs pb H m) = n"
proof (induction "length m" arbitrary: H m rule: less_induct)
  case less
  show ?case
  proof (cases "0 < bs \<and> bs \<le> length m")
    case True
    then have "length (absorb bs pb (pb H (take bs m)) (drop bs m)) = n"
      by (intro less.hyps) (auto simp: assms)
    then show ?thesis using True by (subst absorb.simps) simp
  next
    case False
    then show ?thesis using less.prems by (subst absorb.simps) auto
  qed
qed

end
