(* ===== verification/Sha256.thy ===== *)
theory Sha256
  imports Digest_Stream
begin

text \<open>
  SHA-256 as in \<^verbatim>\<open>pmud/src/common/hash-library/sha256.cpp\<close>: the mixing functions, the eight
  unrolled lines of a round group, the compression of a block, and the streaming interface
  over the buffering scheme of \<open>Block_Hash\<close>. The digest is proved equal to the definition of
  FIPS 180-4, in which the eight working variables are shifted by one place per step and all
  64 schedule words are computed first.
\<close>

unbundle bit_operations_syntax

section \<open>Mixing\<close>

definition sha256_f1 :: "u32 \<Rightarrow> u32 \<Rightarrow> u32 \<Rightarrow> u32" where
  "sha256_f1 e f g =
     (let term1 = rotate_right32 e 6 XOR rotate_right32 e 11 XOR rotate_right32 e 25;
          term2 = (e AND f) XOR (NOT e AND g)
      in term1 + term2)"

definition sha256_f2 :: "u32 \<Rightarrow> u32 \<Rightarrow> u32 \<Rightarrow> u32" where
  "sha256_f2 a b c =
     (let term1 = rotate_right32 a 2 XOR rotate_right32 a 13 XOR rotate_right32 a 22;
          term2 = ((a OR b) AND c) OR (a AND b)
      in term1 + term2)"

text \<open>
  One line of a round, \<open>x = h + f1(e,f,g) + k + w; y = f2(a,b,c); d += x; h = x + y\<close>: the new
  values of the variables that stand in the places of \<open>d\<close> and \<open>h\<close>.
\<close>

definition sha256_line ::
  "u32 \<Rightarrow> u32 \<Rightarrow> u32 \<Rightarrow> u32 \<Rightarrow> u32 \<Rightarrow> u32 \<Rightarrow> u32 \<Rightarrow> u32 \<Rightarrow> u32 \<Rightarrow> u32 \<Rightarrow> u32 \<times> u32" where
  "sha256_line a b c d e f g h k w =
     (let x = h + sha256_f1 e f g + k + w; y = sha256_f2 a b c in (d + x, x + y))"

type_synonym sha256_regs = "u32 \<times> u32 \<times> u32 \<times> u32 \<times> u32 \<times> u32 \<times> u32 \<times> u32"

text \<open>The eight lines of a round group, with the variables rotating through their places.\<close>

definition sha256_round8 :: "u32 list \<Rightarrow> u32 list \<Rightarrow> sha256_regs \<Rightarrow> sha256_regs" where
  "sha256_round8 ks ws = (\<lambda>(a, b, c, d, e, f, g, h).
     let (d, h) = sha256_line a b c d e f g h (ks ! 0) (ws ! 0);
         (c, g) = sha256_line h a b c d e f g (ks ! 1) (ws ! 1);
         (b, f) = sha256_line g h a b c d e f (ks ! 2) (ws ! 2);
         (a, e) = sha256_line f g h a b c d e (ks ! 3) (ws ! 3);
         (h, d) = sha256_line e f g h a b c d (ks ! 4) (ws ! 4);
         (g, c) = sha256_line d e f g h a b c (ks ! 5) (ws ! 5);
         (f, b) = sha256_line c d e f g h a b (ks ! 6) (ws ! 6);
         (e, a) = sha256_line b c d e f g h a (ks ! 7) (ws ! 7)
     in (a, b, c, d, e, f, g, h))"

text \<open>The constants of the 64 lines, one group of eight lines in each row.\<close>

definition sha256_K :: "u32 list" where
  "sha256_K =
     [0x428a2f98, 0x71374491, 0xb5c0fbcf, 0xe9b5dba5, 0x3956c25b, 0x59f111f1, 0x923f82a4, 0xab1c5ed5] @
     [0xd807aa98, 0x12835b01, 0x243185be, 0x550c7dc3, 0x72be5d74, 0x80deb1fe, 0x9bdc06a7, 0xc19bf174] @
     [0xe49b69c1, 0xefbe4786, 0x0fc19dc6, 0x240ca1cc, 0x2de92c6f, 0x4a7484aa, 0x5cb0a9dc, 0x76f988da] @
     [0x983e5152, 0xa831c66d, 0xb00327c8, 0xbf597fc7, 0xc6e00bf3, 0xd5a79147, 0x06ca6351, 0x14292967] @
     [0x27b70a85, 0x2e1b2138, 0x4d2c6dfc, 0x53380d13, 0x650a7354, 0x766a0abb, 0x81c2c92e, 0x92722c85] @
     [0xa2bfe8a1, 0xa81a664b, 0xc24b8b70, 0xc76c51a3, 0xd192e819, 0xd6990624, 0xf40e3585, 0x106aa070] @
     [0x19a4c116, 0x1e376c08, 0x2748774c, 0x34b0bcb5, 0x391c0cb3, 0x4ed8aa4a, 0x5b9cca4f, 0x682e6ff3] @
     [0x748f82ee, 0x78a5636f, 0x84c87814, 0x8cc70208, 0x90befffa, 0xa4506ceb, 0xbef9a3f7, 0xc67178f2]"

text \<open>The next word of the schedule; \<open>i\<close> is the number of words so far.\<close>

definition sha256_extend :: "u32 list \<Rightarrow> u32 list" where
  "sha256_extend words =
     (let i = length words in
      words @ [words ! (i - 16) +
        (rotate_right32 (words ! (i - 15)) 7 XOR rotate_right32 (words ! (i - 15)) 18 XOR
         drop_bit 3 (words ! (i - 15))) +
        words ! (i - 7) +
        (rotate_right32 (words ! (i - 2)) 17 XOR rotate_right32 (words ! (i - 2)) 19 XOR
         drop_bit 10 (words ! (i - 2)))])"

text \<open>\<open>for (; i < n; i++)\<close> of the extension loops: eight more words.\<close>

definition sha256_extend8 :: "u32 list \<Rightarrow> u32 list" where
  "sha256_extend8 words = (sha256_extend ^^ 8) words"

definition sha256_group :: "nat \<Rightarrow> u32 list \<Rightarrow> sha256_regs \<Rightarrow> sha256_regs" where
  "sha256_group r words = sha256_round8 (take 8 (drop (8 * r) sha256_K)) (take 8 (drop (8 * r) words))"

definition sha256_processBlock :: "u32 list \<Rightarrow> byte list \<Rightarrow> u32 list" where
  "sha256_processBlock m_hash dat =
     (let regs = (m_hash ! 0, m_hash ! 1, m_hash ! 2, m_hash ! 3,
                  m_hash ! 4, m_hash ! 5, m_hash ! 6, m_hash ! 7);
          words = map (\<lambda>i. swap32 (load_le32 dat i)) [0..<16];
          regs = sha256_group 0 words regs;
          regs = sha256_group 1 words regs;
          words = sha256_extend8 words;
          regs = sha256_group 2 words regs;
          words = sha256_extend8 words;
          regs = sha256_group 3 words regs;
          words = sha256_extend8 words;
          regs = sha256_group 4 words regs;
          words = sha256_extend8 words;
          regs = sha256_group 5 words regs;
          words = sha256_extend8 words;
          regs = sha256_group 6 words regs;
          words = sha256_extend8 words;
          regs = sha256_group 7 words regs;
          (a, b, c, d, e, f, g, h) = regs
      in [m_hash ! 0 + a, m_hash ! 1 + b, m_hash ! 2 + c, m_hash ! 3 + d,
          m_hash ! 4 + e, m_hash ! 5 + f, m_hash ! 6 + g, m_hash ! 7 + h])"

section \<open>The digest object\<close>

definition sha256_init :: "u32 list" where
  "sha256_init =
     [0x6a09e667, 0xbb67ae85, 0x3c6ef372, 0xa54ff53a, 0x510e527f, 0x9b05688c, 0x1f83d9ab, 0x5be0cd19]"

definition sha256_reset :: "u32 list hasher \<Rightarrow> u32 list hasher" where
  "sha256_reset h = h\<lparr>hs_numBytes := 0, hs_bufferSize := 0, hs_hash := sha256_init\<rparr>"

text \<open>The constructor: the buffer keeps whatever bytes \<open>raw\<close> the memory held.\<close>

definition sha256_new :: "byte list \<Rightarrow> u32 list hasher" where
  "sha256_new raw =
     sha256_reset \<lparr>hs_numBytes = 0, hs_bufferSize = 0, hs_buffer = raw, hs_hash = []\<rparr>"

definition sha256_add :: "u32 list hasher \<Rightarrow> byte list \<Rightarrow> u32 list hasher" where
  "sha256_add = hasher_add 64 sha256_processBlock"

definition sha256_processBuffer :: "byte list \<Rightarrow> u32 list hasher \<Rightarrow> u32 list hasher" where
  "sha256_processBuffer = process_buffer sha256_processBlock be_bytes64"

definition sha256_raw :: "u32 list \<Rightarrow> byte list" where
  "sha256_raw m_hash = concat (map be_bytes32 m_hash)"

definition sha256_getHash_bytes ::
  "byte list \<Rightarrow> u32 list hasher \<Rightarrow> byte list \<times> u32 list hasher" where
  "sha256_getHash_bytes = get_hash sha256_processBlock be_bytes64 sha256_raw"

definition sha256_getHash :: "byte list \<Rightarrow> u32 list hasher \<Rightarrow> string \<times> u32 list hasher" where
  "sha256_getHash junk h =
     (let (rawHash, h') = sha256_getHash_bytes junk h in (hex_string rawHash, h'))"

definition sha256_call :: "byte list \<Rightarrow> u32 list hasher \<Rightarrow> string \<Rightarrow> string \<times> u32 list hasher" where
  "sha256_call junk h txt =
     sha256_getHash junk (sha256_add (sha256_reset h) (map byte_of_char txt))"

definition sha256_call_memory :: "byte list \<Rightarrow> u32 list hasher \<Rightarrow> byte list \<Rightarrow> string \<times> u32 list hasher" where
  "sha256_call_memory junk h dat = sha256_getHash junk (sha256_add (sha256_reset h) dat)"

section \<open>FIPS 180-4\<close>

definition Ch :: "u32 \<Rightarrow> u32 \<Rightarrow> u32 \<Rightarrow> u32" where
  "Ch x y z = (x AND y) XOR (NOT x AND z)"

definition Maj :: "u32 \<Rightarrow> u32 \<Rightarrow> u32 \<Rightarrow> u32" where
  "Maj x y z = (x AND y) XOR (x AND z) XOR (y AND z)"

definition Sigma0 :: "u32 \<Rightarrow> u32" where
  "Sigma0 x = word_rotr 2 x XOR word_rotr 13 x XOR word_rotr 22 x"

definition Sigma1 :: "u32 \<Rightarrow> u32" where
  "Sigma1 x = word_rotr 6 x XOR word_rotr 11 x XOR word_rotr 25 x"

definition sigma0 :: "u32 \<Rightarrow> u32" where
  "sigma0 x = word_rotr 7 x XOR word_rotr 18 x XOR drop_bit 3 x"

definition sigma1 :: "u32 \<Rightarrow> u32" where
  "sigma1 x = word_rotr 17 x XOR word_rotr 19 x XOR drop_bit 10 x"

definition fips_step :: "u32 \<times> u32 \<Rightarrow> sha256_regs \<Rightarrow> sha256_regs" where
  "fips_step = (\<lambda>(k, w) (a, b, c, d, e, f, g, h).
     let T1 = h + Sigma1 e + Ch e f g + k + w;
         T2 = Sigma0 a + Maj a b c
     in (T1 + T2, a, b, c, d + T1, e, f, g))"

text \<open>The message schedule: the sixteen words of the block and 48 more.\<close>

definition fips_next :: "u32 list \<Rightarrow> u32" where
  "fips_next W = (let t = length W in
     sigma1 (W ! (t - 2)) + W ! (t - 7) + sigma0 (W ! (t - 15)) + W ! (t - 16))"

definition fips_schedule :: "byte list \<Rightarrow> u32 list" where
  "fips_schedule block =
     ((\<lambda>W. W @ [fips_next W]) ^^ 48)
       (map (\<lambda>i. be_word32 [block ! (4 * i), block ! (4 * i + 1), block ! (4 * i + 2), block ! (4 * i + 3)])
         [0..<16])"

definition fips_compress :: "u32 list \<Rightarrow> byte list \<Rightarrow> u32 list" where
  "fips_compress H block =
     (let (a, b, c, d, e, f, g, h) =
            fold fips_step (zip sha256_K (fips_schedule block))
              (H ! 0, H ! 1, H ! 2, H ! 3, H ! 4, H ! 5, H ! 6, H ! 7)
      in map2 (+) H [a, b, c, d, e, f, g, h])"

definition fips_sha256 :: "byte list \<Rightarrow> byte list" where
  "fips_sha256 M = sha256_raw (absorb 64 fips_compress sha256_init (M @ md_pad be_bytes64 M))"

section \<open>The compression function computes FIPS 180-4\<close>

lemma sha256_f1_eq: "sha256_f1 e f g = Sigma1 e + Ch e f g"
  by (simp add: sha256_f1_def Sigma1_def Ch_def rotate_right32_rotr)

lemma sha256_f2_eq: "sha256_f2 a b c = Sigma0 a + Maj a b c"
proof -
  have "((a OR b) AND c) OR (a AND b) = Maj a b c"
    by (rule bit_word_eqI) (auto simp: Maj_def bit_simps)
  then show ?thesis by (simp add: sha256_f2_def Sigma0_def rotate_right32_rotr)
qed

lemma fips_step_line:
  "fips_step (k, w) (a, b, c, d, e, f, g, h) =
   (case sha256_line a b c d e f g h k w of (d', h') \<Rightarrow> (h', a, b, c, d', e, f, g))"
  by (simp add: fips_step_def sha256_line_def sha256_f1_eq sha256_f2_eq add.assoc)

text \<open>Eight lines with rotating places are eight steps with shifted variables.\<close>

lemma sha256_round8_steps:
  "sha256_round8 [k0, k1, k2, k3, k4, k5, k6, k7] [w0, w1, w2, w3, w4, w5, w6, w7] regs =
   fold fips_step (zip [k0, k1, k2, k3, k4, k5, k6, k7] [w0, w1, w2, w3, w4, w5, w6, w7]) regs"
  by (cases regs) (simp add: sha256_round8_def fips_step_line Let_def split: prod.split)

lemma list_of_length_8:
  assumes "length xs = 8"
  obtains x0 x1 x2 x3 x4 x5 x6 x7 where "xs = [x0, x1, x2, x3, x4, x5, x6, x7]"
  using that list_as_nths [OF assms] by (simp add: upt_rec)

lemma sha256_round8_fold:
  assumes "length ks = 8" "length ws = 8"
  shows "sha256_round8 ks ws regs = fold fips_step (zip ks ws) regs"
  by (rule list_of_length_8 [OF assms(1)], rule list_of_length_8 [OF assms(2)])
     (simp only: sha256_round8_steps)

lemma sha256_extend_eq: "sha256_extend W = W @ [fips_next W]"
  by (simp add: sha256_extend_def fips_next_def sigma0_def sigma1_def rotate_right32_rotr
      Let_def ac_simps)

abbreviation schedule_from :: "u32 list \<Rightarrow> nat \<Rightarrow> u32 list" where
  "schedule_from W n \<equiv> ((\<lambda>W. W @ [fips_next W]) ^^ n) W"

lemma length_schedule: "length (schedule_from W n) = length W + n"
  by (induction n) simp_all

lemma schedule_extends: "\<exists>X. schedule_from W (m + n) = schedule_from W m @ X"
  by (induction n) auto

lemma schedule_group:
  assumes "8 * r + 8 \<le> length W + m" "m \<le> n"
  shows "take 8 (drop (8 * r) (schedule_from W m)) = take 8 (drop (8 * r) (schedule_from W n))"
proof -
  from assms(2) obtain X where "schedule_from W n = schedule_from W m @ X"
    using schedule_extends [of m "n - m" W] by auto
  moreover have "8 * r + 8 \<le> length (schedule_from W m)"
    using assms(1) by (simp add: length_schedule)
  ultimately show ?thesis by simp
qed

lemma extend8_schedule: "sha256_extend8 (schedule_from W n) = schedule_from W (n + 8)"
proof -
  have "sha256_extend = (\<lambda>W. W @ [fips_next W])" by (rule ext) (rule sha256_extend_eq)
  then show ?thesis by (simp add: sha256_extend8_def funpow_add add.commute [of n 8])
qed

lemma fold_groups:
  "fold f xs s = fold f (drop 8 xs) (fold f (take 8 xs) s)"
  by (metis append_take_drop_id comp_apply fold_append)

lemma length_sha256_K: "length sha256_K = 64"
  by (simp add: sha256_K_def)

lemma sha256_group_fold:
  assumes "8 * r + 8 \<le> 64" "8 * r + 8 \<le> length W"
  shows "sha256_group r W regs = fold fips_step (take 8 (drop (8 * r) (zip sha256_K W))) regs"
  using assms
  by (simp add: sha256_group_def sha256_round8_fold length_sha256_K take_zip drop_zip)

lemma sha256_group_schedule:
  assumes "8 * r + 8 \<le> 64" "length W = 16" "8 * r + 8 \<le> 16 + n" "n \<le> 48"
  shows "sha256_group r (schedule_from W n) regs =
    fold fips_step (take 8 (drop (8 * r) (zip sha256_K (schedule_from W 48)))) regs"
proof -
  have "sha256_group r (schedule_from W n) regs = sha256_group r (schedule_from W 48) regs"
    using assms schedule_group [of r W n 48] by (simp add: sha256_group_def)
  then show ?thesis using assms by (simp add: sha256_group_fold length_schedule)
qed

lemma fold_64:
  assumes "length xs = 64"
  shows "fold f xs s =
    fold f (take 8 (drop 56 xs)) (fold f (take 8 (drop 48 xs)) (fold f (take 8 (drop 40 xs))
      (fold f (take 8 (drop 32 xs)) (fold f (take 8 (drop 24 xs)) (fold f (take 8 (drop 16 xs))
        (fold f (take 8 (drop 8 xs)) (fold f (take 8 xs) s)))))))"
proof -
  have step: "fold f (drop n xs) t = fold f (drop (n + 8) xs) (fold f (take 8 (drop n xs)) t)" for n t
    by (subst fold_groups) (simp add: add.commute)
  have "fold f xs s = fold f (drop 0 xs) s" by simp
  also have "\<dots> = fold f (drop 64 xs)
    (fold f (take 8 (drop 56 xs)) (fold f (take 8 (drop 48 xs)) (fold f (take 8 (drop 40 xs))
      (fold f (take 8 (drop 32 xs)) (fold f (take 8 (drop 24 xs)) (fold f (take 8 (drop 16 xs))
        (fold f (take 8 (drop 8 xs)) (fold f (take 8 (drop 0 xs)) s))))))))"
    by (subst step, subst step, subst step, subst step, subst step, subst step, subst step, subst step) simp
  finally show ?thesis using assms by simp
qed

lemma sha256_groups:
  assumes W: "length W = 16"
  shows "sha256_group 7 (schedule_from W 48) (sha256_group 6 (schedule_from W 40)
     (sha256_group 5 (schedule_from W 32) (sha256_group 4 (schedule_from W 24)
       (sha256_group 3 (schedule_from W 16) (sha256_group 2 (schedule_from W 8)
         (sha256_group 1 (schedule_from W 0) (sha256_group 0 (schedule_from W 0) s))))))) =
   fold fips_step (zip sha256_K (schedule_from W 48)) s"
proof -
  let ?S = "zip sha256_K (schedule_from W 48)"
  have g: "sha256_group r (schedule_from W n) t = fold fips_step (take 8 (drop k ?S)) t"
    if "k = 8 * r" "8 * r + 8 \<le> 64" "8 * r + 8 \<le> 16 + n" "n \<le> 48" for r n k t
    using sha256_group_schedule [OF that(2) W that(3,4)] by (simp only: that(1))
  have len: "length ?S = 64" by (simp add: length_schedule length_sha256_K W)
  have "take 8 ?S = take 8 (drop 0 ?S)" by simp
  with fold_64 [OF len, of fips_step s] show ?thesis
    using g [of 0 0 0] g [of 8 1 0] g [of 16 2 8] g [of 24 3 16] g [of 32 4 24] g [of 40 5 32]
      g [of 48 6 40] g [of 56 7 48]
    by (simp only: refl mult_0_right mult_1_right order_refl arith_simps le_numeral_simps simp_thms rel_simps)
qed

lemma sha256_processBlock_fips:
  assumes "length H = 8"
  shows "sha256_processBlock H block = fips_compress H block"
proof -
  define W where "W = map (\<lambda>i. be_word32
    [block ! (4 * i), block ! (4 * i + 1), block ! (4 * i + 2), block ! (4 * i + 3)]) [0..<16]"
  have words: "map (\<lambda>i. swap32 (load_le32 block i)) [0..<16] = schedule_from W 0"
    by (simp only: swap32_load_le32 funpow_0 W_def)
  have ext: "sha256_extend8 (schedule_from W 0) = schedule_from W 8"
    "sha256_extend8 (schedule_from W 8) = schedule_from W 16"
    "sha256_extend8 (schedule_from W 16) = schedule_from W 24"
    "sha256_extend8 (schedule_from W 24) = schedule_from W 32"
    "sha256_extend8 (schedule_from W 32) = schedule_from W 40"
    "sha256_extend8 (schedule_from W 40) = schedule_from W 48"
    by (simp_all only: extend8_schedule arith_simps add_0)
  have "length W = 16" by (simp add: W_def)
  note groups = sha256_groups [OF this]
  have "map2 (+) H [a, b, c, d, e, f, g, h] =
      [H ! 0 + a, H ! 1 + b, H ! 2 + c, H ! 3 + d, H ! 4 + e, H ! 5 + f, H ! 6 + g, H ! 7 + h]"
    for a b c d e f g h
    by (rule list_of_length_8 [OF assms]) simp
  then show ?thesis
    by (simp only: sha256_processBlock_def fips_compress_def fips_schedule_def Let_def words ext
        groups flip: W_def)
qed

section \<open>The digest object as a stream of calls\<close>

lemma length_sha256_processBlock [simp]: "length (sha256_processBlock H b) = 8"
  by (simp add: sha256_processBlock_def Let_def split: prod.split)

lemma length_sha256_init: "length sha256_init = 8"
  by (simp add: sha256_init_def)

lemma absorb_fips: "length H = 8 \<Longrightarrow> absorb 64 sha256_processBlock H m = absorb 64 fips_compress H m"
  by (rule absorb_cong [where P = "\<lambda>H. length H = 8"]) (simp_all add: sha256_processBlock_fips [symmetric])

interpretation sha256: md_hash 64 sha256_processBlock be_bytes64 sha256_raw
  by unfold_locales simp_all

abbreviation sha256_holds :: "u32 list hasher \<Rightarrow> byte list \<Rightarrow> bool" where
  "sha256_holds h m \<equiv> sha256.fed sha256_init h m \<and> length (hs_buffer h) = 64"

lemma fips_sha256_absorb:
  "hex_string (fips_sha256 m) = hex_string (sha256_raw (absorb 64 sha256_processBlock sha256_init (m @ md_pad be_bytes64 m)))"
  by (simp add: fips_sha256_def absorb_fips length_sha256_init)

interpretation sha256_object: digest_object sha256_add sha256_getHash sha256_holds "\<lambda>m. hex_string (fips_sha256 m)" "\<lambda>junk. length junk = 64"
  unfolding fips_sha256_absorb
  by (rule sha256.md_digest_object) (simp_all add: sha256_add_def sha256_getHash_def sha256_getHash_bytes_def)

lemma sha256_reset_holds: "length (hs_buffer h) = 64 \<Longrightarrow> sha256_holds (sha256_reset h) []"
  by (rule sha256.reset_fed) (simp_all add: sha256_reset_def)

lemma sha256_new_holds: "length raw = 64 \<Longrightarrow> sha256_holds (sha256_new raw) []"
  using sha256_reset_holds by (simp add: sha256_new_def)

lemma sha256_call_eq:
  assumes "length (hs_buffer h) = 64" "length junk = 64"
  shows "fst (sha256_call junk h txt) = hex_string (fips_sha256 (map byte_of_char txt))"
  unfolding sha256_call_def by (rule sha256_object.one_shot [OF sha256_reset_holds [OF assms(1)] assms(2)])

lemma sha256_call_memory_eq:
  assumes "length (hs_buffer h) = 64" "length junk = 64"
  shows "fst (sha256_call_memory junk h dat) = hex_string (fips_sha256 dat)"
  unfolding sha256_call_memory_def by (rule sha256_object.one_shot [OF sha256_reset_holds [OF assms(1)] assms(2)])

abbreviation sha256_calls :: "u32 list hasher \<Rightarrow> digest_call list \<Rightarrow> string list" where
  "sha256_calls \<equiv> digest_calls sha256_add sha256_getHash"

section \<open>Properties\<close>

text \<open>
  C21: A SHA256 object may be fed in any number of pieces and asked for its digest at any time:
  each answer is the FIPS 180-4 digest, in lower-case hexadecimal, of exactly the bytes added so
  far. Neither the uninitialised buffer of the object nor the uninitialised stack array of
  processBuffer has any influence, and getHash does not disturb later calls.
\<close>

theorem sha256_streaming:
  assumes "length raw = 64" and "list_all stack_ok cs"
  shows "sha256_calls (sha256_new raw) cs = digest_calls_spec (\<lambda>m. hex_string (fips_sha256 m)) [] cs"
  by (rule sha256_object.calls_eq [OF sha256_new_holds [OF assms(1)] assms(2)])

theorem sha256_streaming_witness:
  "sha256_calls (sha256_new (replicate 64 7))
     [Add [1, 2], Get (replicate 64 9), Add [3], Get (replicate 64 5)] =
   [hex_string (fips_sha256 [1, 2]), hex_string (fips_sha256 [1, 2, 3])]"
  using sha256_streaming [of "replicate 64 7" "[Add [1, 2], Get (replicate 64 9), Add [3], Get (replicate 64 5)]"]
  by simp

end
