(* ===== verification/Security.thy ===== *)
theory Security
  imports Sha256
begin

text \<open>
  Credentials, \<^verbatim>\<open>pmud/src/common/pmud_security.h\<close>: the random salt, the salted hash of a
  passphrase and the text \<open>iterations:salt:hash\<close> that is recorded with a new user.
\<close>

text \<open>
  What a call of \<open>hash_and_scrub_password\<close> finds outside the program's own data: the draws of the
  uniform distribution on 0..15, and the uninitialised memory of the digest object.
\<close>

record crypto_env =
  ce_dist :: "nat \<Rightarrow> nat"
  ce_raw :: "byte list"
  ce_junk :: "byte list"

definition crypto_env_ok :: "crypto_env \<Rightarrow> bool" where
  "crypto_env_ok env \<longleftrightarrow>
     (\<forall>i. ce_dist env i \<le> 15) \<and> length (ce_raw env) = 64 \<and> length (ce_junk env) = 64"

record credential_hash =
  ch_iterations :: nat
  ch_salt :: string
  ch_hash :: string

definition credential_to_string :: "credential_hash \<Rightarrow> string" where
  "credential_to_string ch =
     string_of_nat (ch_iterations ch) @ '':'' @ ch_salt ch @ '':'' @ ch_hash ch"

definition salt_hex :: string where "salt_hex = ''0123456789ABCDEF''"

definition generate_random_salt :: "crypto_env \<Rightarrow> string" where
  "generate_random_salt env = map (\<lambda>i. salt_hex ! ce_dist env i) [0..<8]"

definition hash_credentials :: "crypto_env \<Rightarrow> string \<Rightarrow> string \<Rightarrow> credential_hash" where
  "hash_credentials env passphrase salt =
     (let passphrase_salt = passphrase @ '':'' @ salt
      in \<lparr>ch_iterations = 0, ch_salt = salt,
          ch_hash = fst (sha256_call (ce_junk env) (sha256_new (ce_raw env)) passphrase_salt)\<rparr>)"

section \<open>The record text\<close>

text \<open>Cutting a text at its colons.\<close>

fun split_colon :: "string \<Rightarrow> string list" where
  "split_colon [] = [[]]"
| "split_colon (c # cs) =
     (if c = CHR '':'' then [] # split_colon cs
      else (case split_colon cs of [] \<Rightarrow> [[c]] | w # ws \<Rightarrow> (c # w) # ws))"

lemma split_colon_word: "CHR '':'' \<notin> set w \<Longrightarrow> split_colon w = [w]"
  by (induction w) auto

lemma split_colon_append:
  "CHR '':'' \<notin> set w \<Longrightarrow> split_colon (w @ CHR '':'' # rest) = w # split_colon rest"
  by (induction w) auto

lemma set_salt_hex: "set salt_hex = set ''0123456789ABCDEF''"
  by (simp add: salt_hex_def)

lemma length_salt [simp]: "length (generate_random_salt env) = 8"
  by (simp add: generate_random_salt_def)

lemma salt_chars:
  "crypto_env_ok env \<Longrightarrow> c \<in> set (generate_random_salt env) \<Longrightarrow> c \<in> set salt_hex"
proof -
  assume ok: "crypto_env_ok env" and "c \<in> set (generate_random_salt env)"
  then obtain i where "c = salt_hex ! ce_dist env i" by (auto simp: generate_random_salt_def)
  moreover have "ce_dist env i < length salt_hex"
  proof -
    have "ce_dist env i \<le> 15" using ok by (simp add: crypto_env_ok_def)
    then show ?thesis by (simp add: salt_hex_def)
  qed
  ultimately show ?thesis by (simp add: nth_mem)
qed

lemma no_colon_digits: "\<forall>c \<in> set w. is_digit c \<Longrightarrow> CHR '':'' \<notin> set w"
  by (auto simp: is_digit_def)

lemma no_colon_hex: "CHR '':'' \<notin> set (hex_string bs)"
  using hex_string_hex [of "CHR '':''" bs] by (auto simp: is_hex_def dec2hex_def)

lemma no_colon_salt: "crypto_env_ok env \<Longrightarrow> CHR '':'' \<notin> set (generate_random_salt env)"
  using salt_chars [of env "CHR '':''"] by (auto simp: salt_hex_def)

lemma hash_credentials_eq:
  "crypto_env_ok env \<Longrightarrow>
   hash_credentials env p s =
     \<lparr>ch_iterations = 0, ch_salt = s, ch_hash = hex_string (fips_sha256 (map byte_of_char (p @ '':'' @ s)))\<rparr>"
  by (simp add: hash_credentials_def crypto_env_ok_def sha256_call_eq sha256_new_def sha256_reset_def)

section \<open>Properties\<close>

text \<open>
  The text recorded for a new user reads back: cut at its colons it is the iteration count,
  the eight-character upper-case hexadecimal salt and the hash, because none of the three can
  contain a colon whatever the passphrase is.
\<close>

theorem credential_text_roundtrip:
  assumes "crypto_env_ok env"
  shows "split_colon (credential_to_string (hash_credentials env p (generate_random_salt env))) =
    [''0'', generate_random_salt env, ch_hash (hash_credentials env p (generate_random_salt env))]"
proof -
  have zero: "string_of_nat 0 = ''0''" by code_simp
  show ?thesis
    using assms no_colon_salt [OF assms] no_colon_hex
    by (simp add: hash_credentials_eq credential_to_string_def zero split_colon_append split_colon_word)
qed

theorem credential_text_roundtrip_witness:
  "let env = \<lparr>ce_dist = (\<lambda>i. i + 3 - i), ce_raw = replicate 64 1, ce_junk = replicate 64 2\<rparr>
   in crypto_env_ok env \<and>
      split_colon (credential_to_string (hash_credentials env ''pw:1'' (generate_random_salt env))) =
        [''0'', ''33333333'', ch_hash (hash_credentials env ''pw:1'' (generate_random_salt env))]"
proof -
  let ?env = "\<lparr>ce_dist = (\<lambda>i. i + 3 - i), ce_raw = replicate 64 1, ce_junk = replicate 64 2\<rparr>"
  have ok: "crypto_env_ok ?env" by (simp add: crypto_env_ok_def)
  have "generate_random_salt ?env = ''33333333''"
    by (simp add: generate_random_salt_def salt_hex_def upt_rec)
  with ok credential_text_roundtrip [OF ok, of "''pw:1''"] show ?thesis by simp
qed

text \<open>
  With generated salts, the hashed text determines both the passphrase and the salt: two
  credentials hash the same text only if the passphrases and the salts agree, although the
  separator may occur in a passphrase.
\<close>

theorem salted_text_injective:
  assumes "p @ '':'' @ generate_random_salt env = p' @ '':'' @ generate_random_salt env'"
  shows "p = p' \<and> generate_random_salt env = generate_random_salt env'"
  using assms append_eq_append_conv [of "'':'' @ generate_random_salt env" "'':'' @ generate_random_salt env'" p p']
  by simp

theorem salted_text_injective_witness:
  "let env = \<lparr>ce_dist = (\<lambda>i. 3), ce_raw = [], ce_junk = []\<rparr>
   in ''a:b'' @ '':'' @ generate_random_salt env = ''a:b'' @ '':'' @ generate_random_salt env \<and>
      ''a:b'' = ''a:b'' \<and> generate_random_salt env = generate_random_salt env"
  using salted_text_injective [OF refl, of "''a:b''" "\<lparr>ce_dist = (\<lambda>i. 3), ce_raw = [], ce_junk = []\<rparr>"]
  by simp

end
