(* ===== verification/Std_Map.thy ===== *)
theory Std_Map
  imports Prelude
begin

text \<open>
  \<open>std::map\<close> with string keys and \<open>std::set\<close> of strings, the containers of
  \<^verbatim>\<open>pmud/src/common/storage_types.h\<close>: association lists and lists kept in the order of
  \<open>std::less\<close>, which compares characters as unsigned bytes. The order is part of the model
  because the event store writes the fields of a record in iteration order. The interface
  \<open>ordered_dict\<close> states what a dictionary promises; the operations of the model interpret it.
\<close>

type_synonym 'v smap = "(string \<times> 'v) list"

definition smap_ok :: "'v smap \<Rightarrow> bool" where
  "smap_ok m \<longleftrightarrow> sorted_wrt (<) (map fst m)"

text \<open>\<open>m[key] = value\<close>\<close>

fun smap_put :: "string \<Rightarrow> 'v \<Rightarrow> 'v smap \<Rightarrow> 'v smap" where
  "smap_put k v [] = [(k, v)]"
| "smap_put k v ((k', v') # m) =
     (if k < k' then (k, v) # (k', v') # m
      else if k = k' then (k, v) # m
      else (k', v') # smap_put k v m)"

definition smap_get :: "'v smap \<Rightarrow> string \<Rightarrow> 'v option" where
  "smap_get m k = map_of m k"

definition smap_contains :: "'v smap \<Rightarrow> string \<Rightarrow> bool" where
  "smap_contains m k \<longleftrightarrow> smap_get m k \<noteq> None"

definition smap_erase :: "string \<Rightarrow> 'v smap \<Rightarrow> 'v smap" where
  "smap_erase k m = filter (\<lambda>(k', v). k' \<noteq> k) m"

definition set_insert :: "string \<Rightarrow> string list \<Rightarrow> string list" where
  "set_insert x xs = insort_insert x xs"

definition sset_ok :: "string list \<Rightarrow> bool" where
  "sset_ok xs \<longleftrightarrow> sorted_wrt (<) xs"

section \<open>The interface of a dictionary\<close>

locale ordered_dict =
  fixes empty :: 'm
    and put :: "'k \<Rightarrow> 'v \<Rightarrow> 'm \<Rightarrow> 'm"
    and erase :: "'k \<Rightarrow> 'm \<Rightarrow> 'm"
    and get :: "'m \<Rightarrow> 'k \<Rightarrow> 'v option"
    and ok :: "'m \<Rightarrow> bool"
  assumes ok_empty: "ok empty"
    and ok_put: "ok m \<Longrightarrow> ok (put k v m)"
    and ok_erase: "ok m \<Longrightarrow> ok (erase k m)"
    and get_empty: "get empty k = None"
    and get_put: "get (put k v m) k' = (if k' = k then Some v else get m k')"
    and get_erase: "get (erase k m) k' = (if k' = k then None else get m k')"
    and get_ext: "ok m \<Longrightarrow> ok m' \<Longrightarrow> (\<And>k. get m k = get m' k) \<Longrightarrow> m = m'"
begin

lemma put_put: "ok m \<Longrightarrow> put k v (put k w m) = put k v m"
  by (rule get_ext) (simp_all add: ok_put get_put)

lemma put_commute: "ok m \<Longrightarrow> k \<noteq> k' \<Longrightarrow> put k v (put k' w m) = put k' w (put k v m)"
  by (rule get_ext) (simp_all add: ok_put get_put)

lemma erase_put: "ok m \<Longrightarrow> erase k (put k v m) = erase k m"
  by (rule get_ext) (simp_all add: ok_put ok_erase get_put get_erase)

lemma put_erase: "ok m \<Longrightarrow> put k v (erase k m) = put k v m"
  by (rule get_ext) (simp_all add: ok_put ok_erase get_put get_erase)

lemma put_same: "ok m \<Longrightarrow> get m k = Some v \<Longrightarrow> put k v m = m"
  by (rule get_ext) (simp_all add: ok_put get_put)

lemma erase_absent: "ok m \<Longrightarrow> get m k = None \<Longrightarrow> erase k m = m"
  by (rule get_ext) (simp_all add: ok_erase get_erase)

end

section \<open>The model's maps are dictionaries\<close>

lemma smap_ok_Nil [simp]: "smap_ok []"
  by (simp add: smap_ok_def)

lemma smap_ok_Cons:
  "smap_ok ((k, v) # m) \<longleftrightarrow> (\<forall>k' \<in> fst ` set m. k < k') \<and> smap_ok m"
  by (simp add: smap_ok_def)

lemma smap_ok_singleton [simp]: "smap_ok [(k, v)]"
  by (simp add: smap_ok_Cons)

lemma keys_smap_put: "fst ` set (smap_put k v m) = insert k (fst ` set m)"
  by (induction k v m rule: smap_put.induct) auto

lemma smap_ok_put: "smap_ok m \<Longrightarrow> smap_ok (smap_put k v m)"
  by (induction k v m rule: smap_put.induct)
     (auto simp: smap_ok_Cons keys_smap_put not_less_iff_gr_or_eq simp del: not_less)

lemma smap_get_put: "smap_get (smap_put k v m) k' = (if k' = k then Some v else smap_get m k')"
  by (induction k v m rule: smap_put.induct) (auto simp: smap_get_def)

lemma smap_ok_erase: "smap_ok m \<Longrightarrow> smap_ok (smap_erase k m)"
  by (simp add: smap_ok_def smap_erase_def sorted_wrt_map sorted_wrt_filter)

lemma smap_get_erase: "smap_get (smap_erase k m) k' = (if k' = k then None else smap_get m k')"
  by (induction m) (auto simp: smap_get_def smap_erase_def)

lemma smap_ok_distinct: "smap_ok m \<Longrightarrow> distinct (map fst m)"
  by (simp add: smap_ok_def strict_sorted_iff)

lemma smap_ext:
  assumes "smap_ok m" "smap_ok m'" and eq: "\<And>k. smap_get m k = smap_get m' k"
  shows "m = m'"
proof -
  have map_eq: "map_of m = map_of m'" using eq by (auto simp: smap_get_def)
  then have "set (map fst m) = set (map fst m')"
    by (metis dom_map_of_conv_image_fst set_map)
  then have keys: "map fst m = map fst m'"
    using assms(1,2) by (simp add: smap_ok_def strict_sorted_equal)
  have "set m = set m'"
    using assms(1,2) map_eq by (metis smap_ok_distinct map_of_inject_set)
  have "m ! i = m' ! i" if "i < length m" for i
  proof -
    have len: "length m = length m'" using keys by (metis length_map)
    have fst_eq: "fst (m ! i) = fst (m' ! i)" using keys that len by (metis nth_map)
    have "map_of m (fst (m ! i)) = Some (snd (m ! i))"
      using assms(1) that by (intro map_of_is_SomeI smap_ok_distinct) simp_all
    moreover have "map_of m' (fst (m' ! i)) = Some (snd (m' ! i))"
      using assms(2) that len by (intro map_of_is_SomeI smap_ok_distinct) simp_all
    ultimately show ?thesis using fst_eq map_eq by (simp add: prod_eq_iff)
  qed
  then show ?thesis using keys by (metis length_map nth_equalityI)
qed

lemma smap_get_Nil [simp]: "smap_get [] k = None"
  by (simp add: smap_get_def)

interpretation smap: ordered_dict "[] :: 'v smap" smap_put smap_erase smap_get smap_ok
  by unfold_locales
     (simp_all add: smap_ok_put smap_ok_erase smap_get_put smap_get_erase smap_ext)

lemmas smap_simps = smap_get_put smap_get_erase smap_contains_def

section \<open>Ordered sets\<close>

lemma sset_ok_Nil [simp]: "sset_ok []"
  by (simp add: sset_ok_def)

lemma sset_ok_insert: "sset_ok xs \<Longrightarrow> sset_ok (set_insert x xs)"
  by (simp add: sset_ok_def set_insert_def strict_sorted_iff sorted_insort_insert distinct_insort_insert)

lemma set_set_insert [simp]: "set (set_insert x xs) = insert x (set xs)"
  by (simp add: set_insert_def set_insort_insert)

lemma sset_ext: "sset_ok xs \<Longrightarrow> sset_ok ys \<Longrightarrow> set xs = set ys \<Longrightarrow> xs = ys"
  by (simp add: sset_ok_def strict_sorted_equal)

lemma set_insert_present: "sset_ok xs \<Longrightarrow> x \<in> set xs \<Longrightarrow> set_insert x xs = xs"
  by (rule sset_ext) (auto simp: sset_ok_insert)

end
