(* ===== verification/Messages.thy ===== *)
theory Messages
  imports Std_Map
begin

text \<open>
  The messages that the actors exchange, \<^verbatim>\<open>pmud/src/common/global_type_id.h\<close>, with the payloads
  that the senders attach, the storage types of \<^verbatim>\<open>pmud/src/common/storage_types.h\<close>, and the
  effects of a message handler. A handler is a function from the actor's state and a message
  to the new state and the list of its effects in program order: the runtime delivers them.
\<close>

section \<open>Storage types\<close>

type_synonym map_t = "string smap"
type_synonym list_t = "string list"
type_synonym set_t = "string list"
type_synonym stream_record_fields = "string smap"

record stream_record =
  sr_timestamp :: string
  sr_fields :: stream_record_fields

record stream_response =
  sp_stream_name :: string
  sp_records :: "stream_record list"

section \<open>Messages\<close>

type_synonym actor_id = nat

datatype message =
    AcceptConnection
  | StartServer
  | GoodbyeServer
  | FromUserGetInput
  | GoodbyeConnection
  | ToUserPrompt string
  | ToUserEmit string
  | PerformWelcome
  | OnUserInput string
  | StorageNoop
  | StorageValueStore string string
  | StorageValueGet string
  | StorageMapStore string string string
  | StorageMapGet string
  | StorageListStore string string
  | StorageListGet string
  | StorageSetStore string string
  | StorageSetGet string
  | StorageStreamStore string stream_record_fields
  | StorageEventStore string stream_record_fields
  | EventUserCreate string string
  | EventUserLogin string
  | EventUserLogout string
  | LoginControllerStart
  | LoginControllerEnd

section \<open>Effects of a handler\<close>

text \<open>What an actor constructor is given.\<close>

datatype spawn_request =
    SpawnDefault actor_id            \<comment> \<open>\<open>DefaultController(command_actor)\<close>\<close>
  | SpawnLogin actor_id              \<comment> \<open>\<open>LoginController(mud, command_actor)\<close>\<close>
  | SpawnCommand actor_id int        \<comment> \<open>\<open>CommandActor(mud, connection_actor, connection)\<close>\<close>
  | SpawnConnection string int       \<comment> \<open>\<open>ConnectionActor(mud, welcome, connection)\<close>\<close>

datatype effect =
    Send actor_id message
  | SendNull message                   \<comment> \<open>a message through a null handle\<close>
  | SendExit "actor_id option"       \<comment> \<open>the handle may be null: the runtime decides\<close>
  | Spawn actor_id spawn_request
  | RegistryPut string actor_id
  | RegistryErase string

text \<open>The messages among the effects, with their receivers.\<close>

fun sends :: "effect list \<Rightarrow> (actor_id \<times> message) list" where
  "sends [] = []"
| "sends (Send a m # es) = (a, m) # sends es"
| "sends (SendNull m # es) = sends es"
| "sends (SendExit a # es) = sends es"
| "sends (Spawn a r # es) = sends es"
| "sends (RegistryPut k a # es) = sends es"
| "sends (RegistryErase k # es) = sends es"

definition send_via :: "actor_id option \<Rightarrow> message \<Rightarrow> effect list" where
  "send_via dest m = (case dest of None \<Rightarrow> [SendNull m] | Some a \<Rightarrow> [Send a m])"

lemma send_via_simps [simp]:
  "send_via None m = [SendNull m]"
  "send_via (Some a) m = [Send a m]"
  by (simp_all add: send_via_def)

lemma sends_append [simp]: "sends (es @ fs) = sends es @ sends fs"
  by (induction es rule: sends.induct) simp_all

end
