(* ===== verification/Storage.thy ===== *)
theory Storage
  imports Messages
begin

text \<open>
  The abstract class \<open>Storage\<close> of \<^verbatim>\<open>pmud/src/storage/storage.h\<close> as a record of operations (its
  virtual functions) over a storage state, the contract its clients rely on as the locale
  \<open>storage_contract\<close>, and the in-memory implementation \<open>MockStorage\<close> of
  \<^verbatim>\<open>pmud/test/mocks/mock_storage.h\<close>, which interprets the contract.
\<close>

section \<open>The virtual functions\<close>

record 's storage_ops =
  so_init :: "'s \<Rightarrow> bool \<times> 's"
  so_value_store :: "'s \<Rightarrow> string \<Rightarrow> string \<Rightarrow> bool \<times> 's"
  so_value_get :: "'s \<Rightarrow> string \<Rightarrow> fault + string option"
  so_map_store :: "'s \<Rightarrow> string \<Rightarrow> string \<Rightarrow> string \<Rightarrow> bool \<times> 's"
  so_map_get :: "'s \<Rightarrow> string \<Rightarrow> fault + map_t option"
  so_list_store :: "'s \<Rightarrow> string \<Rightarrow> string \<Rightarrow> bool \<times> 's"
  so_list_get :: "'s \<Rightarrow> string \<Rightarrow> fault + list_t option"
  so_set_store :: "'s \<Rightarrow> string \<Rightarrow> string \<Rightarrow> bool \<times> 's"
  so_set_get :: "'s \<Rightarrow> string \<Rightarrow> fault + set_t option"
  so_del_key :: "'s \<Rightarrow> string \<Rightarrow> bool \<times> 's"
  so_event_store :: "'s \<Rightarrow> string \<Rightarrow> stream_record_fields \<Rightarrow> bool \<times> 's"
  so_stream_store :: "'s \<Rightarrow> string \<Rightarrow> stream_record_fields \<Rightarrow> bool \<times> 's"
  so_read_stream_raw :: "'s \<Rightarrow> string \<Rightarrow> fault + stream_response list"
  so_read_stream_block :: "'s \<Rightarrow> string \<Rightarrow> string \<Rightarrow> u32 \<Rightarrow> fault + stream_response list"

section \<open>What a storage promises\<close>

text \<open>The contents of a storage as its clients see them: four dictionaries.\<close>

record store_view =
  vw_values :: "string \<Rightarrow> string option"
  vw_maps :: "string \<Rightarrow> map_t option"
  vw_lists :: "string \<Rightarrow> list_t option"
  vw_sets :: "string \<Rightarrow> set_t option"

definition spec_value_store :: "string \<Rightarrow> string \<Rightarrow> store_view \<Rightarrow> store_view" where
  "spec_value_store k v w = w\<lparr>vw_values := (vw_values w)(k := Some v)\<rparr>"

definition spec_map_store :: "string \<Rightarrow> string \<Rightarrow> string \<Rightarrow> store_view \<Rightarrow> store_view" where
  "spec_map_store n k v w =
     w\<lparr>vw_maps := (vw_maps w)(n := Some (smap_put k v (case vw_maps w n of None \<Rightarrow> [] | Some m \<Rightarrow> m)))\<rparr>"

definition spec_list_store :: "string \<Rightarrow> string \<Rightarrow> store_view \<Rightarrow> store_view" where
  "spec_list_store n v w =
     w\<lparr>vw_lists := (vw_lists w)(n := Some ((case vw_lists w n of None \<Rightarrow> [] | Some l \<Rightarrow> l) @ [v]))\<rparr>"

definition spec_set_store :: "string \<Rightarrow> string \<Rightarrow> store_view \<Rightarrow> store_view" where
  "spec_set_store n v w =
     w\<lparr>vw_sets := (vw_sets w)(n := Some (set_insert v (case vw_sets w n of None \<Rightarrow> [] | Some l \<Rightarrow> l)))\<rparr>"

definition spec_del_key :: "string \<Rightarrow> store_view \<Rightarrow> store_view" where
  "spec_del_key k w = w\<lparr>vw_values := (vw_values w)(k := None), vw_maps := (vw_maps w)(k := None),
     vw_lists := (vw_lists w)(k := None), vw_sets := (vw_sets w)(k := None)\<rparr>"

text \<open>A key that is in use by at most one of the four kinds, as in a store with one key space.\<close>

definition single_kind :: "store_view \<Rightarrow> string \<Rightarrow> bool" where
  "single_kind w k \<longleftrightarrow>
     length (filter id [vw_values w k \<noteq> None, vw_maps w k \<noteq> None,
                        vw_lists w k \<noteq> None, vw_sets w k \<noteq> None]) \<le> 1"

locale storage_contract =
  fixes ops :: "'s storage_ops"
    and view :: "'s \<Rightarrow> store_view"
    and inv :: "'s \<Rightarrow> bool"
  assumes value_store:
      "inv s \<Longrightarrow> so_value_store ops s k v = (b, s') \<Longrightarrow>
       b \<and> inv s' \<and> view s' = spec_value_store k v (view s)"
    and map_store:
      "inv s \<Longrightarrow> so_map_store ops s n k v = (b, s') \<Longrightarrow>
       b \<and> inv s' \<and> view s' = spec_map_store n k v (view s)"
    and list_store:
      "inv s \<Longrightarrow> so_list_store ops s n v = (b, s') \<Longrightarrow>
       b \<and> inv s' \<and> view s' = spec_list_store n v (view s)"
    and set_store:
      "inv s \<Longrightarrow> so_set_store ops s n v = (b, s') \<Longrightarrow>
       b \<and> inv s' \<and> view s' = spec_set_store n v (view s)"
    and del_key:
      "inv s \<Longrightarrow> single_kind (view s) k \<Longrightarrow> so_del_key ops s k = (b, s') \<Longrightarrow>
       inv s' \<and> view s' = spec_del_key k (view s)"
    and event_store:
      "inv s \<Longrightarrow> so_event_store ops s e fs = (b, s') \<Longrightarrow> inv s' \<and> view s' = view s"
    and stream_store:
      "inv s \<Longrightarrow> so_stream_store ops s n fs = (b, s') \<Longrightarrow> inv s' \<and> view s' = view s"
    and value_get: "inv s \<Longrightarrow> so_value_get ops s k = Inr (vw_values (view s) k)"
    and map_get: "inv s \<Longrightarrow> so_map_get ops s n = Inr (vw_maps (view s) n)"
    and list_get: "inv s \<Longrightarrow> so_list_get ops s n = Inr (vw_lists (view s) n)"
    and set_get: "inv s \<Longrightarrow> so_set_get ops s n = Inr (vw_sets (view s) n)"

section \<open>Runs of storage calls\<close>

text \<open>The calls that change a storage, as data, and what they mean for the contents.\<close>

datatype store_op =
    OpValue string string
  | OpMap string string string
  | OpList string string
  | OpSet string string
  | OpDel string

fun op_key :: "store_op \<Rightarrow> string" where
  "op_key (OpValue k v) = k"
| "op_key (OpMap n k v) = n"
| "op_key (OpList n v) = n"
| "op_key (OpSet n v) = n"
| "op_key (OpDel k) = k"

fun op_texts :: "store_op \<Rightarrow> string list" where
  "op_texts (OpValue k v) = [k, v]"
| "op_texts (OpMap n k v) = [n, k, v]"
| "op_texts (OpList n v) = [n, v]"
| "op_texts (OpSet n v) = [n, v]"
| "op_texts (OpDel k) = [k]"

fun run_op :: "'s storage_ops \<Rightarrow> 's \<Rightarrow> store_op \<Rightarrow> 's" where
  "run_op ops s (OpValue k v) = snd (so_value_store ops s k v)"
| "run_op ops s (OpMap n k v) = snd (so_map_store ops s n k v)"
| "run_op ops s (OpList n v) = snd (so_list_store ops s n v)"
| "run_op ops s (OpSet n v) = snd (so_set_store ops s n v)"
| "run_op ops s (OpDel k) = snd (so_del_key ops s k)"

fun spec_op :: "store_view \<Rightarrow> store_op \<Rightarrow> store_view" where
  "spec_op w (OpValue k v) = spec_value_store k v w"
| "spec_op w (OpMap n k v) = spec_map_store n k v w"
| "spec_op w (OpList n v) = spec_list_store n v w"
| "spec_op w (OpSet n v) = spec_set_store n v w"
| "spec_op w (OpDel k) = spec_del_key k w"

text \<open>A kind for every key, and the runs and contents that respect it.\<close>

datatype store_kind = KValue | KMap | KList | KSet

fun op_typed :: "(string \<Rightarrow> store_kind) \<Rightarrow> store_op \<Rightarrow> bool" where
  "op_typed kd (OpValue k v) = (kd k = KValue)"
| "op_typed kd (OpMap n k v) = (kd n = KMap)"
| "op_typed kd (OpList n v) = (kd n = KList)"
| "op_typed kd (OpSet n v) = (kd n = KSet)"
| "op_typed kd (OpDel k) = True"

definition view_typed :: "(string \<Rightarrow> store_kind) \<Rightarrow> store_view \<Rightarrow> bool" where
  "view_typed kd w \<longleftrightarrow> (\<forall>k.
     (vw_values w k \<noteq> None \<longrightarrow> kd k = KValue) \<and> (vw_maps w k \<noteq> None \<longrightarrow> kd k = KMap) \<and>
     (vw_lists w k \<noteq> None \<longrightarrow> kd k = KList) \<and> (vw_sets w k \<noteq> None \<longrightarrow> kd k = KSet))"

text \<open>
  The weaker contract of a storage with one key space: a call is promised to work only where the
  key is not in use for another kind, and only for the texts the storage can hold; a lookup of an
  absent dictionary, list or set may answer an empty one.
\<close>

definition reads_as :: "'a list option \<Rightarrow> 'a list option \<Rightarrow> bool" where
  "reads_as r w \<longleftrightarrow> (case w of Some x \<Rightarrow> r = Some x | None \<Rightarrow> r = None \<or> r = Some [])"

locale typed_storage =
  fixes ops :: "'s storage_ops"
    and view :: "'s \<Rightarrow> store_view"
    and inv :: "'s \<Rightarrow> bool"
    and holds_text :: "string \<Rightarrow> bool"
  assumes typed_run_op:
      "inv s \<Longrightarrow> view_typed kd (view s) \<Longrightarrow> op_typed kd op \<Longrightarrow> list_all holds_text (op_texts op) \<Longrightarrow>
       inv (run_op ops s op) \<and> view (run_op ops s op) = spec_op (view s) op"
    and typed_value_get: "inv s \<Longrightarrow> holds_text k \<Longrightarrow> so_value_get ops s k = Inr (vw_values (view s) k)"
    and typed_map_get:
      "inv s \<Longrightarrow> holds_text n \<Longrightarrow> view_typed kd (view s) \<Longrightarrow> kd n = KMap \<Longrightarrow>
       \<exists>r. so_map_get ops s n = Inr r \<and> reads_as r (vw_maps (view s) n)"
    and typed_list_get:
      "inv s \<Longrightarrow> holds_text n \<Longrightarrow> view_typed kd (view s) \<Longrightarrow> kd n = KList \<Longrightarrow>
       \<exists>r. so_list_get ops s n = Inr r \<and> reads_as r (vw_lists (view s) n)"
    and typed_set_get:
      "inv s \<Longrightarrow> holds_text n \<Longrightarrow> view_typed kd (view s) \<Longrightarrow> kd n = KSet \<Longrightarrow>
       \<exists>r. so_set_get ops s n = Inr r \<and> reads_as r (vw_sets (view s) n)"

lemma view_typed_op: "view_typed kd w \<Longrightarrow> op_typed kd op \<Longrightarrow> view_typed kd (spec_op w op)"
  by (cases op)
     (auto simp: view_typed_def spec_value_store_def spec_map_store_def spec_list_store_def
       spec_set_store_def spec_del_key_def)

lemma view_typed_single: "view_typed kd w \<Longrightarrow> single_kind w k"
  unfolding view_typed_def single_kind_def by (cases "kd k") (auto dest!: spec [where x = k])

context typed_storage
begin

text \<open>A run that uses every key for its kind only has the effect the calls promise.\<close>

lemma typed_run:
  "inv s \<Longrightarrow> view_typed kd (view s) \<Longrightarrow> list_all (op_typed kd) tr \<Longrightarrow>
   list_all (\<lambda>op. list_all holds_text (op_texts op)) tr \<Longrightarrow>
   inv (foldl (run_op ops) s tr) \<and> view (foldl (run_op ops) s tr) = foldl spec_op (view s) tr \<and>
   view_typed kd (foldl spec_op (view s) tr)"
proof (induction tr arbitrary: s)
  case Nil
  then show ?case by simp
next
  case (Cons op tr)
  then have "inv (run_op ops s op)" "view (run_op ops s op) = spec_op (view s) op"
    using typed_run_op by simp_all
  moreover have "view_typed kd (spec_op (view s) op)" using Cons.prems view_typed_op by simp
  ultimately show ?case using Cons.IH [of "run_op ops s op"] Cons.prems by simp
qed

end

sublocale storage_contract \<subseteq> typed: typed_storage ops view inv "\<lambda>_. True"
proof
  fix s kd op
  assume a: "inv s" "view_typed kd (view s)" "op_typed kd op"
  show "inv (run_op ops s op) \<and> view (run_op ops s op) = spec_op (view s) op"
  proof (cases op)
    case (OpDel k)
    have "single_kind (view s) k" using view_typed_single [OF a(2)] .
    then show ?thesis
      using del_key [OF a(1)] OpDel by (metis prod.collapse run_op.simps(5) spec_op.simps(5))
  qed (use value_store map_store list_store set_store a(1) in \<open>metis prod.collapse run_op.simps spec_op.simps\<close>)+
qed (auto simp: value_get map_get list_get set_get reads_as_def split: option.split)

section \<open>The in-memory storage\<close>

record mock_storage =
  m_kv :: map_t
  m_map :: "map_t smap"
  m_list :: "list_t smap"
  m_set :: "set_t smap"

definition mock_empty :: mock_storage where
  "mock_empty = \<lparr>m_kv = [], m_map = [], m_list = [], m_set = []\<rparr>"

definition mock_init :: "mock_storage \<Rightarrow> bool \<times> mock_storage" where
  "mock_init s = (True, s)"

definition mock_value_store :: "mock_storage \<Rightarrow> string \<Rightarrow> string \<Rightarrow> bool \<times> mock_storage" where
  "mock_value_store s key v = (True, s\<lparr>m_kv := smap_put key v (m_kv s)\<rparr>)"

definition mock_value_get :: "mock_storage \<Rightarrow> string \<Rightarrow> fault + string option" where
  "mock_value_get s key =
     (if \<not> smap_contains (m_kv s) key then Inr None else Inr (smap_get (m_kv s) key))"

text \<open>\<open>m[name]\<close> on a name known to be present; an absent name is the default value.\<close>

definition smap_at :: "'v list smap \<Rightarrow> string \<Rightarrow> 'v list" where
  "smap_at m name = (case smap_get m name of None \<Rightarrow> [] | Some x \<Rightarrow> x)"

definition mock_map_store ::
  "mock_storage \<Rightarrow> string \<Rightarrow> string \<Rightarrow> string \<Rightarrow> bool \<times> mock_storage" where
  "mock_map_store s map_name key v =
     (let s = (if \<not> smap_contains (m_map s) map_name then s\<lparr>m_map := smap_put map_name [] (m_map s)\<rparr> else s)
      in (True, s\<lparr>m_map := smap_put map_name (smap_put key v (smap_at (m_map s) map_name)) (m_map s)\<rparr>))"

definition mock_map_get :: "mock_storage \<Rightarrow> string \<Rightarrow> fault + map_t option" where
  "mock_map_get s map_name =
     (if \<not> smap_contains (m_map s) map_name then Inr None else Inr (smap_get (m_map s) map_name))"

definition mock_list_store :: "mock_storage \<Rightarrow> string \<Rightarrow> string \<Rightarrow> bool \<times> mock_storage" where
  "mock_list_store s list_name v =
     (let s = (if \<not> smap_contains (m_list s) list_name then s\<lparr>m_list := smap_put list_name [] (m_list s)\<rparr> else s)
      in (True, s\<lparr>m_list := smap_put list_name (smap_at (m_list s) list_name @ [v]) (m_list s)\<rparr>))"

definition mock_list_get :: "mock_storage \<Rightarrow> string \<Rightarrow> fault + list_t option" where
  "mock_list_get s list_name =
     (if \<not> smap_contains (m_list s) list_name then Inr None else Inr (smap_get (m_list s) list_name))"

definition mock_set_store :: "mock_storage \<Rightarrow> string \<Rightarrow> string \<Rightarrow> bool \<times> mock_storage" where
  "mock_set_store s set_name v =
     (let s = (if \<not> smap_contains (m_set s) set_name then s\<lparr>m_set := smap_put set_name [] (m_set s)\<rparr> else s)
      in (True, s\<lparr>m_set := smap_put set_name (set_insert v (smap_at (m_set s) set_name)) (m_set s)\<rparr>))"

definition mock_set_get :: "mock_storage \<Rightarrow> string \<Rightarrow> fault + set_t option" where
  "mock_set_get s set_name =
     (if \<not> smap_contains (m_set s) set_name then Inr None else Inr (smap_get (m_set s) set_name))"

definition mock_del_key :: "mock_storage \<Rightarrow> string \<Rightarrow> bool \<times> mock_storage" where
  "mock_del_key s key =
     (if smap_contains (m_kv s) key then (True, s\<lparr>m_kv := smap_erase key (m_kv s)\<rparr>)
      else if smap_contains (m_map s) key then (True, s\<lparr>m_map := smap_erase key (m_map s)\<rparr>)
      else if smap_contains (m_list s) key then (True, s\<lparr>m_list := smap_erase key (m_list s)\<rparr>)
      else if smap_contains (m_set s) key then (True, s\<lparr>m_set := smap_erase key (m_set s)\<rparr>)
      else (False, s))"

definition mock_ops :: "mock_storage storage_ops" where
  "mock_ops = \<lparr>
     so_init = mock_init,
     so_value_store = mock_value_store, so_value_get = mock_value_get,
     so_map_store = mock_map_store, so_map_get = mock_map_get,
     so_list_store = mock_list_store, so_list_get = mock_list_get,
     so_set_store = mock_set_store, so_set_get = mock_set_get,
     so_del_key = mock_del_key,
     so_event_store = (\<lambda>s event_name fields. (True, s)),
     so_stream_store = (\<lambda>s map_name fields. (True, s)),
     so_read_stream_raw = (\<lambda>s command. Inr []),
     so_read_stream_block = (\<lambda>s stream_name pos timeout. Inr [])\<rparr>"

lemma mock_ops_simps [simp]:
  "so_init mock_ops = mock_init"
  "so_value_store mock_ops = mock_value_store" "so_value_get mock_ops = mock_value_get"
  "so_map_store mock_ops = mock_map_store" "so_map_get mock_ops = mock_map_get"
  "so_list_store mock_ops = mock_list_store" "so_list_get mock_ops = mock_list_get"
  "so_set_store mock_ops = mock_set_store" "so_set_get mock_ops = mock_set_get"
  "so_del_key mock_ops = mock_del_key"
  "so_event_store mock_ops s e fs = (True, s)" "so_stream_store mock_ops s n fs = (True, s)"
  by (simp_all add: mock_ops_def)

section \<open>The in-memory storage keeps the contract\<close>

definition mock_view :: "mock_storage \<Rightarrow> store_view" where
  "mock_view s = \<lparr>vw_values = smap_get (m_kv s), vw_maps = smap_get (m_map s),
                  vw_lists = smap_get (m_list s), vw_sets = smap_get (m_set s)\<rparr>"

definition mock_inv :: "mock_storage \<Rightarrow> bool" where
  "mock_inv s \<longleftrightarrow>
     smap_ok (m_kv s) \<and> smap_ok (m_map s) \<and> smap_ok (m_list s) \<and> smap_ok (m_set s) \<and>
     (\<forall>k m. smap_get (m_map s) k = Some m \<longrightarrow> smap_ok m) \<and>
     (\<forall>k xs. smap_get (m_set s) k = Some xs \<longrightarrow> sset_ok xs)"

lemma smap_get_fun_put: "smap_get (smap_put k v m) = (smap_get m)(k := Some v)"
  by (rule ext) (simp add: smap_get_put)

lemma smap_get_fun_erase: "smap_get (smap_erase k m) = (smap_get m)(k := None)"
  by (rule ext) (simp add: smap_get_erase)

lemmas smap_fun_simps = smap_get_fun_put smap_get_fun_erase smap_contains_def smap_at_def

lemma mock_value_store_eq:
  "mock_inv s \<Longrightarrow> mock_value_store s k v = (b, s') \<Longrightarrow>
   b \<and> mock_inv s' \<and> mock_view s' = spec_value_store k v (mock_view s)"
  by (auto simp: mock_value_store_def mock_inv_def mock_view_def spec_value_store_def
      smap_ok_put smap_fun_simps)

lemma mock_map_store_eq:
  "mock_inv s \<Longrightarrow> mock_map_store s n k v = (b, s') \<Longrightarrow>
   b \<and> mock_inv s' \<and> mock_view s' = spec_map_store n k v (mock_view s)"
  by (auto simp: mock_map_store_def mock_inv_def mock_view_def spec_map_store_def
      smap_ok_put smap_fun_simps Let_def split: if_splits option.splits)

lemma mock_list_store_eq:
  "mock_inv s \<Longrightarrow> mock_list_store s n v = (b, s') \<Longrightarrow>
   b \<and> mock_inv s' \<and> mock_view s' = spec_list_store n v (mock_view s)"
  by (auto simp: mock_list_store_def mock_inv_def mock_view_def spec_list_store_def
      smap_ok_put smap_fun_simps Let_def split: if_splits option.splits)

lemma mock_set_store_eq:
  "mock_inv s \<Longrightarrow> mock_set_store s n v = (b, s') \<Longrightarrow>
   b \<and> mock_inv s' \<and> mock_view s' = spec_set_store n v (mock_view s)"
  by (auto simp: mock_set_store_def mock_inv_def mock_view_def spec_set_store_def
      smap_ok_put sset_ok_insert smap_fun_simps Let_def split: if_splits option.splits)

lemma mock_inv_del_key:
  "mock_inv s \<Longrightarrow> mock_del_key s k = (b, s') \<Longrightarrow> mock_inv s'"
  by (auto simp: mock_del_key_def mock_inv_def smap_ok_erase smap_fun_simps split: if_splits)

lemma mock_del_key_eq:
  "single_kind (mock_view s) k \<Longrightarrow> mock_del_key s k = (b, s') \<Longrightarrow>
   mock_view s' = spec_del_key k (mock_view s)"
  by (auto simp: mock_del_key_def mock_view_def spec_del_key_def single_kind_def
      smap_fun_simps fun_upd_idem split: if_splits)

interpretation mock: storage_contract mock_ops mock_view mock_inv
proof (unfold_locales, goal_cases)
  case (1 s k v b s') then show ?case by (metis mock_value_store_eq mock_ops_simps)
next
  case (2 s n k v b s') then show ?case by (metis mock_map_store_eq mock_ops_simps)
next
  case (3 s n v b s') then show ?case by (metis mock_list_store_eq mock_ops_simps)
next
  case (4 s n v b s') then show ?case by (metis mock_set_store_eq mock_ops_simps)
next
  case (5 s k b s') then show ?case by (metis mock_inv_del_key mock_del_key_eq mock_ops_simps)
qed (auto simp: mock_value_get_def mock_map_get_def mock_list_get_def mock_set_get_def
       mock_view_def smap_contains_def)

lemma mock_empty_inv [simp]: "mock_inv mock_empty"
  by (simp add: mock_inv_def mock_empty_def)

lemma mock_empty_view [simp]:
  "mock_view mock_empty = \<lparr>vw_values = (\<lambda>_. None), vw_maps = (\<lambda>_. None),
     vw_lists = (\<lambda>_. None), vw_sets = (\<lambda>_. None)\<rparr>"
  by (rule store_view.equality) (auto simp: mock_view_def mock_empty_def fun_eq_iff)

end
