(* ===== verification/Storage_Actor.thy ===== *)
theory Storage_Actor
  imports Storage
begin

text \<open>
  \<open>StorageActor\<close>, \<^verbatim>\<open>pmud/src/storage/storage_actor.h\<close>: one handler per storage message, over any
  implementation of the storage interface; and \<open>EventRecorderActor\<close> with its client mixin,
  \<^verbatim>\<open>pmud/src/event\<close>. The actor's pointer to its storage may be null.
\<close>

section \<open>The storage actor\<close>

datatype storage_reply =
    NoReply
  | ReplyString "string option"
  | ReplyMap "map_t option"
  | ReplyList "list_t option"
  | ReplySet "set_t option"

definition with_storage ::
  "'s option \<Rightarrow> ('s \<Rightarrow> bool \<times> 's) \<Rightarrow> fault + 's option \<times> storage_reply" where
  "with_storage st f = (case st of None \<Rightarrow> Inr (None, NoReply) | Some s \<Rightarrow> Inr (Some (snd (f s)), NoReply))"

definition ask_storage ::
  "'s option \<Rightarrow> ('a option \<Rightarrow> storage_reply) \<Rightarrow> ('s \<Rightarrow> fault + 'a option) \<Rightarrow>
   fault + 's option \<times> storage_reply" where
  "ask_storage st reply f =
     (case st of None \<Rightarrow> Inr (None, reply None)
      | Some s \<Rightarrow> bindE (f s) (\<lambda>x. Inr (Some s, reply x)))"

definition storage_actor_handle ::
  "'s storage_ops \<Rightarrow> 's option \<Rightarrow> message \<Rightarrow> fault + 's option \<times> storage_reply" where
  "storage_actor_handle ops m_storage msg =
     (case msg of
        StorageNoop \<Rightarrow> Inr (m_storage, NoReply)
      | StorageValueStore key v \<Rightarrow> with_storage m_storage (\<lambda>s. so_value_store ops s key v)
      | StorageValueGet key \<Rightarrow> ask_storage m_storage ReplyString (\<lambda>s. so_value_get ops s key)
      | StorageMapStore map_name key v \<Rightarrow> with_storage m_storage (\<lambda>s. so_map_store ops s map_name key v)
      | StorageMapGet map_name \<Rightarrow> ask_storage m_storage ReplyMap (\<lambda>s. so_map_get ops s map_name)
      | StorageListStore list_name v \<Rightarrow> with_storage m_storage (\<lambda>s. so_list_store ops s list_name v)
      | StorageListGet list_name \<Rightarrow> ask_storage m_storage ReplyList (\<lambda>s. so_list_get ops s list_name)
      | StorageSetStore set_name v \<Rightarrow> with_storage m_storage (\<lambda>s. so_set_store ops s set_name v)
      | StorageSetGet set_name \<Rightarrow> ask_storage m_storage ReplySet (\<lambda>s. so_set_get ops s set_name)
      | StorageStreamStore stream_name flds \<Rightarrow>
          with_storage m_storage (\<lambda>s. so_stream_store ops s stream_name flds)
      | StorageEventStore event_name flds \<Rightarrow>
          with_storage m_storage (\<lambda>s. so_event_store ops s event_name flds)
      | _ \<Rightarrow> Inr (m_storage, NoReply))"

text \<open>The actor's mailbox, one message after the other.\<close>

fun storage_actor_run ::
  "'s storage_ops \<Rightarrow> 's option \<Rightarrow> message list \<Rightarrow> fault + 's option \<times> storage_reply list" where
  "storage_actor_run ops st [] = Inr (st, [])"
| "storage_actor_run ops st (m # ms) =
     bindE (storage_actor_handle ops st m) (\<lambda>(st', r).
       bindE (storage_actor_run ops st' ms) (\<lambda>(st'', rs). Inr (st'', r # rs)))"

section \<open>What the actor promises over a storage that keeps its contract\<close>

fun spec_message :: "store_view \<Rightarrow> message \<Rightarrow> store_view" where
  "spec_message w (StorageValueStore k v) = spec_value_store k v w"
| "spec_message w (StorageMapStore n k v) = spec_map_store n k v w"
| "spec_message w (StorageListStore n v) = spec_list_store n v w"
| "spec_message w (StorageSetStore n v) = spec_set_store n v w"
| "spec_message w m = w"

fun spec_reply :: "store_view \<Rightarrow> message \<Rightarrow> storage_reply" where
  "spec_reply w (StorageValueGet k) = ReplyString (vw_values w k)"
| "spec_reply w (StorageMapGet n) = ReplyMap (vw_maps w n)"
| "spec_reply w (StorageListGet n) = ReplyList (vw_lists w n)"
| "spec_reply w (StorageSetGet n) = ReplySet (vw_sets w n)"
| "spec_reply w m = NoReply"

fun spec_replies :: "store_view \<Rightarrow> message list \<Rightarrow> storage_reply list" where
  "spec_replies w [] = []"
| "spec_replies w (m # ms) = spec_reply w m # spec_replies (spec_message w m) ms"

lemma spec_replies_append:
  "spec_replies w (ms @ ns) = spec_replies w ms @ spec_replies (foldl spec_message w ms) ns"
  by (induction ms arbitrary: w) simp_all

context storage_contract
begin

lemma handle_refines:
  "inv s \<Longrightarrow> \<exists>s'. storage_actor_handle ops (Some s) m = Inr (Some s', spec_reply (view s) m) \<and>
     inv s' \<and> view s' = spec_message (view s) m"
proof (cases m)
  case (StorageValueStore k v)
  moreover assume "inv s"
  ultimately show ?thesis
    using value_store [of s k v] by (cases "so_value_store ops s k v")
      (simp add: storage_actor_handle_def with_storage_def)
next
  case (StorageMapStore n k v)
  moreover assume "inv s"
  ultimately show ?thesis
    using map_store [of s n k v] by (cases "so_map_store ops s n k v")
      (simp add: storage_actor_handle_def with_storage_def)
next
  case (StorageListStore n v)
  moreover assume "inv s"
  ultimately show ?thesis
    using list_store [of s n v] by (cases "so_list_store ops s n v")
      (simp add: storage_actor_handle_def with_storage_def)
next
  case (StorageSetStore n v)
  moreover assume "inv s"
  ultimately show ?thesis
    using set_store [of s n v] by (cases "so_set_store ops s n v")
      (simp add: storage_actor_handle_def with_storage_def)
next
  case (StorageStreamStore n fs)
  moreover assume "inv s"
  ultimately show ?thesis
    using stream_store [of s n fs] by (cases "so_stream_store ops s n fs")
      (simp add: storage_actor_handle_def with_storage_def)
next
  case (StorageEventStore n fs)
  moreover assume "inv s"
  ultimately show ?thesis
    using event_store [of s n fs] by (cases "so_event_store ops s n fs")
      (simp add: storage_actor_handle_def with_storage_def)
qed (simp_all add: storage_actor_handle_def ask_storage_def value_get map_get list_get set_get)

theorem run_refines:
  "inv s \<Longrightarrow> \<exists>s'. storage_actor_run ops (Some s) ms = Inr (Some s', spec_replies (view s) ms) \<and>
     inv s' \<and> view s' = foldl spec_message (view s) ms"
proof (induction ms arbitrary: s)
  case Nil
  then show ?case by simp
next
  case (Cons m ms)
  from handle_refines [OF Cons.prems] obtain s1 where
    "storage_actor_handle ops (Some s) m = Inr (Some s1, spec_reply (view s) m)"
    and s1: "inv s1" "view s1 = spec_message (view s) m"
    by blast
  moreover from Cons.IH [OF s1(1)] s1(2) obtain s' where
    "storage_actor_run ops (Some s1) ms = Inr (Some s', spec_replies (spec_message (view s) m) ms)"
    "inv s' \<and> view s' = foldl spec_message (spec_message (view s) m) ms"
    by auto
  ultimately show ?case by auto
qed

end

section \<open>The contents after a sequence of messages\<close>

fun list_values :: "string \<Rightarrow> message list \<Rightarrow> string list" where
  "list_values n [] = []"
| "list_values n (StorageListStore n' v # ms) = (if n' = n then v # list_values n ms else list_values n ms)"
| "list_values n (m # ms) = list_values n ms"

fun set_values :: "string \<Rightarrow> message list \<Rightarrow> string list" where
  "set_values n [] = []"
| "set_values n (StorageSetStore n' v # ms) = (if n' = n then v # set_values n ms else set_values n ms)"
| "set_values n (m # ms) = set_values n ms"

fun map_entries :: "string \<Rightarrow> message list \<Rightarrow> (string \<times> string) list" where
  "map_entries n [] = []"
| "map_entries n (StorageMapStore n' k v # ms) =
     (if n' = n then (k, v) # map_entries n ms else map_entries n ms)"
| "map_entries n (m # ms) = map_entries n ms"

fun key_values :: "string \<Rightarrow> message list \<Rightarrow> string list" where
  "key_values k [] = []"
| "key_values k (StorageValueStore k' v # ms) = (if k' = k then v # key_values k ms else key_values k ms)"
| "key_values k (m # ms) = key_values k ms"

lemma foldl_lists:
  "vw_lists (foldl spec_message w ms) n =
   (if list_values n ms = [] then vw_lists w n
    else Some ((case vw_lists w n of None \<Rightarrow> [] | Some l \<Rightarrow> l) @ list_values n ms))"
proof (induction ms arbitrary: w)
  case Nil
  then show ?case by simp
next
  case (Cons m ms)
  then show ?case
    by (cases m) (auto simp: spec_value_store_def spec_map_store_def spec_list_store_def spec_set_store_def)
qed

lemma foldl_sets:
  "vw_sets (foldl spec_message w ms) n =
   (if set_values n ms = [] then vw_sets w n
    else Some (foldl (\<lambda>l v. set_insert v l) (case vw_sets w n of None \<Rightarrow> [] | Some l \<Rightarrow> l) (set_values n ms)))"
proof (induction ms arbitrary: w)
  case Nil
  then show ?case by simp
next
  case (Cons m ms)
  then show ?case
    by (cases m) (auto simp: spec_value_store_def spec_map_store_def spec_list_store_def spec_set_store_def)
qed

lemma foldl_maps:
  "vw_maps (foldl spec_message w ms) n =
   (if map_entries n ms = [] then vw_maps w n
    else Some (foldl (\<lambda>m (k, v). smap_put k v m) (case vw_maps w n of None \<Rightarrow> [] | Some l \<Rightarrow> l) (map_entries n ms)))"
proof (induction ms arbitrary: w)
  case Nil
  then show ?case by simp
next
  case (Cons m ms)
  then show ?case
    by (cases m) (auto simp: spec_value_store_def spec_map_store_def spec_list_store_def spec_set_store_def)
qed

lemma foldl_values:
  "vw_values (foldl spec_message w ms) k =
   (if key_values k ms = [] then vw_values w k else Some (last (key_values k ms)))"
proof (induction ms arbitrary: w)
  case Nil
  then show ?case by simp
next
  case (Cons m ms)
  then show ?case
    by (cases m) (auto simp: spec_value_store_def spec_map_store_def spec_list_store_def spec_set_store_def)
qed

lemma mock_actor_asks:
  "\<exists>s rs. storage_actor_run mock_ops (Some mock_empty) (ms @ [q]) =
     Inr (Some s, rs @ [spec_reply (foldl spec_message (mock_view mock_empty) ms) q])"
proof -
  obtain s where
    "storage_actor_run mock_ops (Some mock_empty) (ms @ [q]) =
       Inr (Some s, spec_replies (mock_view mock_empty) (ms @ [q]))"
    using mock.run_refines [OF mock_empty_inv, of "ms @ [q]"] by blast
  then show ?thesis by (auto simp del: mock_empty_view simp: spec_replies_append)
qed

lemma null_actor_run: "\<exists>rs. storage_actor_run ops None ms = Inr (None, rs) \<and>
   list_all (\<lambda>r. r \<in> {NoReply, ReplyString None, ReplyMap None, ReplyList None, ReplySet None}) rs"
proof (induction ms)
  case Nil
  then show ?case by simp
next
  case (Cons m ms)
  then obtain rs where "storage_actor_run ops None ms = Inr (None, rs)"
    "list_all (\<lambda>r. r \<in> {NoReply, ReplyString None, ReplyMap None, ReplyList None, ReplySet None}) rs"
    by blast
  then show ?case
    by (cases m) (simp_all add: storage_actor_handle_def with_storage_def ask_storage_def)
qed

section \<open>The event recorder\<close>

definition EVENT_STREAM_NAME :: string where "EVENT_STREAM_NAME = ''events''"

definition event_recorder_handle :: "actor_id \<Rightarrow> message \<Rightarrow> effect list" where
  "event_recorder_handle m_storage_actor msg =
     (case msg of
        EventUserCreate username passphrase \<Rightarrow>
          (let flds = smap_put ''passphrase'' passphrase (smap_put ''username'' username [])
           in [Send m_storage_actor (StorageEventStore ''EventUserCreate'' flds)])
      | EventUserLogin username \<Rightarrow>
          (let flds = smap_put ''username'' username []
           in [Send m_storage_actor (StorageEventStore ''EventUserLogin'' flds)])
      | EventUserLogout username \<Rightarrow>
          (let flds = smap_put ''username'' username []
           in [Send m_storage_actor (StorageEventStore ''EventUserLogout'' flds)])
      | _ \<Rightarrow> [])"

text \<open>The client mixin sends to the recorder without a sender.\<close>

definition record_event_user_create :: "actor_id \<Rightarrow> string \<Rightarrow> string \<Rightarrow> effect" where
  "record_event_user_create m_event_actor username passphrase =
     Send m_event_actor (EventUserCreate username passphrase)"

definition record_event_user_login :: "actor_id \<Rightarrow> string \<Rightarrow> effect" where
  "record_event_user_login m_event_actor username = Send m_event_actor (EventUserLogin username)"

definition record_event_user_logout :: "actor_id \<Rightarrow> string \<Rightarrow> effect" where
  "record_event_user_logout m_event_actor username = Send m_event_actor (EventUserLogout username)"

section \<open>Properties\<close>

text \<open>
  On the in-memory storage, a StorageListGet that follows any sequence of messages is answered
  with exactly the values that the StorageListStore messages for that list carried, in the order
  in which they were sent, and with nothing when there was none; no message makes the actor fail.
\<close>

theorem storage_actor_list_get:
  "\<exists>s rs. storage_actor_run mock_ops (Some mock_empty) (ms @ [StorageListGet n]) =
     Inr (Some s, rs @ [ReplyList (if list_values n ms = [] then None else Some (list_values n ms))])"
  using mock_actor_asks [of ms "StorageListGet n"] by (cases "list_values n ms = []") (simp_all add: foldl_lists)

text \<open>
  On the in-memory storage, a StorageValueGet that follows any sequence of messages is answered
  with the value of the last StorageValueStore for that key, and with nothing when there was none.
\<close>

theorem storage_actor_value_get:
  "\<exists>s rs. storage_actor_run mock_ops (Some mock_empty) (ms @ [StorageValueGet k]) =
     Inr (Some s, rs @ [ReplyString (if key_values k ms = [] then None else Some (last (key_values k ms)))])"
  using mock_actor_asks [of ms "StorageValueGet k"] by (cases "key_values k ms = []") (simp_all add: foldl_values)

text \<open>
  On the in-memory storage, a StorageMapGet that follows any sequence of messages is answered
  with the dictionary built by the StorageMapStore messages for that map in order, a later value
  replacing an earlier one under the same key, and with nothing when there was none.
\<close>

theorem storage_actor_map_get:
  "\<exists>s rs. storage_actor_run mock_ops (Some mock_empty) (ms @ [StorageMapGet n]) =
     Inr (Some s, rs @ [ReplyMap (if map_entries n ms = [] then None
       else Some (foldl (\<lambda>m (k, v). smap_put k v m) [] (map_entries n ms)))])"
  using mock_actor_asks [of ms "StorageMapGet n"] by (cases "map_entries n ms = []") (simp_all add: foldl_maps)

text \<open>
  A StorageActor whose storage pointer is null never fails: it stays null, ignores every store
  and answers every question with an empty optional.
\<close>

theorem storage_actor_null:
  "\<exists>rs. storage_actor_run ops None ms = Inr (None, rs) \<and>
     list_all (\<lambda>r. r \<in> {NoReply, ReplyString None, ReplyMap None, ReplyList None, ReplySet None}) rs"
  by (rule null_actor_run)

end
