(* ===== verification/Controllers.thy ===== *)
theory Controllers
  imports Security Storage_Actor
begin

text \<open>
  The actors behind a connection, \<^verbatim>\<open>pmud/src/controllers\<close>: \<open>UserClient\<close> (the operations shared by
  all of them), \<open>LoginController\<close>, \<open>DefaultController\<close> and \<open>CommandActor\<close>. A handler takes the
  actor's members and a message and returns the members afterwards and the effects in program
  order; a message without a handler changes nothing.
\<close>

section \<open>User clients\<close>

definition DEFAULT_PROMPT :: string where "DEFAULT_PROMPT = ''pmud''"

definition prompt_user :: "actor_id \<Rightarrow> string \<Rightarrow> effect list" where
  "prompt_user m_connection_actor prompt = [Send m_connection_actor (ToUserPrompt prompt)]"

definition emit_user :: "actor_id \<Rightarrow> string \<Rightarrow> effect list" where
  "emit_user m_connection_actor emission = [Send m_connection_actor (ToUserEmit emission)]"

definition end_controller :: "actor_id \<Rightarrow> effect list" where
  "end_controller m_connection_actor = [Send m_connection_actor LoginControllerEnd]"

definition funky_banner :: "actor_id \<Rightarrow> effect list" where
  "funky_banner c = emit_user c ''-=-=-=-=-=-=--=--==-==-=---=--=-==-==-=-=-=-===--=''"

lemmas user_client_defs [actor_defs] =
  DEFAULT_PROMPT_def prompt_user_def emit_user_def end_controller_def funky_banner_def

section \<open>The default controller\<close>

definition emit_help :: "actor_id \<Rightarrow> effect list" where
  "emit_help c =
     funky_banner c @
     emit_user c (''Primordia MUD Help'' @ [CHR 0x0A]) @
     emit_user c ''exit or quit             quits the MUD'' @
     emit_user c ''help                     this message'' @
     funky_banner c @
     emit_user c [CHR 0x0A]"

definition default_handle :: "actor_id \<Rightarrow> message \<Rightarrow> effect list" where
  "default_handle c msg =
     (case msg of
        OnUserInput input \<Rightarrow>
          (if input = ''help'' then emit_help c @ prompt_user c DEFAULT_PROMPT
           else if input \<noteq> [] then
             emit_user c (''Unknown command: '' @ input) @ prompt_user c DEFAULT_PROMPT
           else prompt_user c DEFAULT_PROMPT)
      | _ \<Rightarrow> [])"

section \<open>The login controller\<close>

definition SUPPRESS_ECHO_SEQUENCE :: string where
  "SUPPRESS_ECHO_SEQUENCE = [CHR 0xFF, CHR 0xFB, CHR 0x01]"

definition ENABLE_ECHO_SEQUENCE :: string where
  "ENABLE_ECHO_SEQUENCE = [CHR 0xFF, CHR 0xFC, CHR 0x01]"

record login_controller =
  lc_connection_actor :: actor_id
  lc_event_actor :: actor_id
  lc_username :: string
  lc_password :: string

definition login_new :: "actor_id \<Rightarrow> actor_id \<Rightarrow> login_controller" where
  "login_new event_recorder command_actor =
     \<lparr>lc_connection_actor = command_actor, lc_event_actor = event_recorder,
      lc_username = [], lc_password = []\<rparr>"

text \<open>The loop that overwrites the password, from index \<open>i\<close> on.\<close>

function scrub_from :: "string \<Rightarrow> nat \<Rightarrow> string" where
  "scrub_from pw i = (if i < length pw then scrub_from (pw[i := CHR '' '']) (Suc i) else pw)"
  by pat_completeness auto
termination
  by (relation "measure (\<lambda>(pw, i). length pw - i)") auto

declare scrub_from.simps [simp del]

definition hash_and_scrub_password ::
  "crypto_env \<Rightarrow> login_controller \<Rightarrow> credential_hash \<times> login_controller" where
  "hash_and_scrub_password env lc =
     (let salt = generate_random_salt env;
          hash = hash_credentials env (lc_password lc) salt
      in (hash, lc\<lparr>lc_password := scrub_from (lc_password lc) 0\<rparr>))"

definition login_handle ::
  "crypto_env \<Rightarrow> login_controller \<Rightarrow> message \<Rightarrow> login_controller \<times> effect list" where
  "login_handle env lc msg =
     (let c = lc_connection_actor lc in
      case msg of
        LoginControllerStart \<Rightarrow> (lc, prompt_user c ''enter username'')
      | OnUserInput input \<Rightarrow>
          (if lc_username lc = [] then
             (lc\<lparr>lc_username := input\<rparr>,
              emit_user c SUPPRESS_ECHO_SEQUENCE @ prompt_user c ''enter password'')
           else if lc_password lc = [] then
             (lc\<lparr>lc_password := input\<rparr>,
              emit_user c [] @ prompt_user c ''confirm password'')
           else if lc_password lc = input then
             (let (hash, lc') = hash_and_scrub_password env lc in
              (lc',
               emit_user c ENABLE_ECHO_SEQUENCE @
               emit_user c [] @
               emit_user c (''Welcome to Primordia '' @ lc_username lc @ ''!'') @
               emit_user c [] @
               [record_event_user_create (lc_event_actor lc) (lc_username lc) (credential_to_string hash)] @
               end_controller c))
           else
             (lc,
              emit_user c [] @
              emit_user c (''Passwords don'' @ [CHR 0x27] @ ''t match, please try again.'') @
              emit_user c SUPPRESS_ECHO_SEQUENCE @
              prompt_user c ''enter password''))
      | _ \<Rightarrow> (lc, []))"

fun login_run ::
  "login_controller \<Rightarrow> (crypto_env \<times> message) list \<Rightarrow> login_controller \<times> effect list" where
  "login_run lc [] = (lc, [])"
| "login_run lc ((env, m) # ms) =
     (let (lc1, es) = login_handle env lc m; (lc2, fs) = login_run lc1 ms in (lc2, es @ fs))"

section \<open>The command actor\<close>

record command_actor =
  ca_connection_actor :: actor_id
  ca_active_controller :: "actor_id option"
  ca_connection :: int
  ca_default_controller :: "actor_id option"

text \<open>
  The constructor; \<open>self\<close> is the actor's own id, \<open>fresh\<close> the id that the runtime gives to the
  actor it spawns.
\<close>

definition command_new ::
  "actor_id \<Rightarrow> actor_id \<Rightarrow> actor_id \<Rightarrow> int \<Rightarrow> command_actor \<times> effect list" where
  "command_new fresh self connection_actor connection =
     (\<lparr>ca_connection_actor = connection_actor, ca_active_controller = None,
       ca_connection = connection, ca_default_controller = Some fresh\<rparr>,
      [Spawn fresh (SpawnDefault self)])"

definition command_exit :: "command_actor \<Rightarrow> command_actor \<times> effect list" where
  "command_exit ca =
     (ca\<lparr>ca_active_controller := None, ca_default_controller := None\<rparr>,
      (if ca_active_controller ca \<noteq> None then [SendExit (ca_active_controller ca)] else []) @
      (if ca_default_controller ca \<noteq> None then [SendExit (ca_default_controller ca)] else []))"

definition command_handle ::
  "actor_id \<Rightarrow> actor_id \<Rightarrow> command_actor \<Rightarrow> message \<Rightarrow> command_actor \<times> effect list" where
  "command_handle fresh self ca msg =
     (let c = ca_connection_actor ca in
      case msg of
        PerformWelcome \<Rightarrow>
          (ca\<lparr>ca_active_controller := Some fresh\<rparr>,
           [Spawn fresh (SpawnLogin self), Send fresh LoginControllerStart])
      | OnUserInput input \<Rightarrow>
          (case ca_active_controller ca of
             None \<Rightarrow> (ca, prompt_user c DEFAULT_PROMPT)
           | Some a \<Rightarrow> (ca, [Send a (OnUserInput input)]))
      | ToUserPrompt prompt \<Rightarrow> (ca, prompt_user c prompt)
      | ToUserEmit emission \<Rightarrow> (ca, emit_user c emission)
      | LoginControllerEnd \<Rightarrow>
          (ca\<lparr>ca_active_controller := ca_default_controller ca\<rparr>,
           [SendExit (ca_active_controller ca)] @ prompt_user c DEFAULT_PROMPT)
      | _ \<Rightarrow> (ca, []))"

text \<open>The command actor's mailbox; the \<open>i\<close>th message finds the fresh id \<open>fresh i\<close>.\<close>

fun command_run ::
  "actor_id \<Rightarrow> command_actor \<Rightarrow> (actor_id \<times> message) list \<Rightarrow> command_actor \<times> effect list" where
  "command_run self ca [] = (ca, [])"
| "command_run self ca ((fresh, m) # ms) =
     (let (ca1, es) = command_handle fresh self ca m; (ca2, fs) = command_run self ca1 ms
      in (ca2, es @ fs))"

section \<open>The login controller as an automaton\<close>

lemma scrub_from_eq:
  "i \<le> length pw \<Longrightarrow> scrub_from pw i = take i pw @ replicate (length pw - i) (CHR '' '')"
proof (induction pw i rule: scrub_from.induct)
  case (1 pw i)
  show ?case
  proof (cases "i < length pw")
    case True
    with 1 have "scrub_from (pw[i := CHR '' '']) (Suc i) =
        take (Suc i) (pw[i := CHR '' '']) @ replicate (length pw - Suc i) (CHR '' '')"
      by simp
    moreover have "take (Suc i) (pw[i := CHR '' '']) = take i pw @ [CHR '' '']"
      using True by (simp add: take_Suc_conv_app_nth)
    moreover have "replicate (length pw - i) (CHR '' '') = CHR '' '' # replicate (length pw - Suc i) (CHR '' '')"
      using True by (metis Suc_diff_Suc replicate_Suc)
    ultimately show ?thesis using True by (subst scrub_from.simps) simp
  qed (subst scrub_from.simps, use 1 in simp)
qed

definition blanks :: "string \<Rightarrow> string" where
  "blanks p = replicate (length p) (CHR '' '')"

lemma scrub_blanks: "scrub_from p 0 = blanks p"
  by (simp add: scrub_from_eq blanks_def)

lemma blanks_empty [simp]: "blanks p = [] \<longleftrightarrow> p = []"
  by (simp add: blanks_def)

definition credential_text :: "crypto_env \<Rightarrow> string \<Rightarrow> string" where
  "credential_text env p = credential_to_string (hash_credentials env p (generate_random_salt env))"

text \<open>What the dialogue waits for.\<close>

datatype login_phase = NeedName | NeedPassword string | NeedConfirm string string

definition login_phase_of :: "login_controller \<Rightarrow> login_phase" where
  "login_phase_of lc =
     (if lc_username lc = [] then NeedName
      else if lc_password lc = [] then NeedPassword (lc_username lc)
      else NeedConfirm (lc_username lc) (lc_password lc))"

text \<open>One line of input: the next phase and the user that it creates.\<close>

fun login_line :: "crypto_env \<Rightarrow> login_phase \<Rightarrow> string \<Rightarrow> login_phase \<times> (string \<times> string) option" where
  "login_line env NeedName i = (if i = [] then NeedName else NeedPassword i, None)"
| "login_line env (NeedPassword u) i = (if i = [] then NeedPassword u else NeedConfirm u i, None)"
| "login_line env (NeedConfirm u p) i =
     (if i = p then (NeedConfirm u (blanks p), Some (u, credential_text env p))
      else (NeedConfirm u p, None))"

text \<open>The users created by the messages among some effects.\<close>

definition user_creates :: "effect list \<Rightarrow> (string \<times> string) list" where
  "user_creates es =
     concat (map (\<lambda>(a, m). case m of EventUserCreate u h \<Rightarrow> [(u, h)] | _ \<Rightarrow> []) (sends es))"

lemma user_creates_append [simp]: "user_creates (es @ fs) = user_creates es @ user_creates fs"
  by (simp add: user_creates_def)

lemma login_handle_input:
  assumes "lc_password lc \<noteq> [] \<longrightarrow> lc_username lc \<noteq> []"
    and "login_handle env lc (OnUserInput i) = (lc', es)"
  shows "(login_phase_of lc', user_creates es) =
      (let (ph, new) = login_line env (login_phase_of lc) i
       in (ph, case new of None \<Rightarrow> [] | Some c \<Rightarrow> [c]))"
    and "lc_password lc' \<noteq> [] \<longrightarrow> lc_username lc' \<noteq> []"
    and "lc_connection_actor lc' = lc_connection_actor lc"
    and "lc_event_actor lc' = lc_event_actor lc"
  using assms
  by (auto simp: Let_def login_handle_def login_phase_of_def user_creates_def actor_defs
      hash_and_scrub_password_def scrub_blanks record_event_user_create_def credential_text_def
      split: if_splits)

text \<open>The users that a run of the automaton creates.\<close>

fun login_lines :: "login_phase \<Rightarrow> (crypto_env \<times> string) list \<Rightarrow> (string \<times> string) list" where
  "login_lines ph [] = []"
| "login_lines ph ((env, i) # is) =
     (let (ph', new) = login_line env ph i
      in (case new of None \<Rightarrow> [] | Some c \<Rightarrow> [c]) @ login_lines ph' is)"

abbreviation inputs :: "(crypto_env \<times> string) list \<Rightarrow> (crypto_env \<times> message) list" where
  "inputs is \<equiv> map (\<lambda>(env, i). (env, OnUserInput i)) is"

lemma login_run_lines:
  "lc_password lc \<noteq> [] \<longrightarrow> lc_username lc \<noteq> [] \<Longrightarrow>
   user_creates (snd (login_run lc (inputs is))) = login_lines (login_phase_of lc) is"
proof (induction "is" arbitrary: lc)
  case Nil
  then show ?case by (simp add: user_creates_def)
next
  case (Cons e "is")
  obtain env i where e: "e = (env, i)" by (cases e)
  obtain lc1 es where h: "login_handle env lc (OnUserInput i) = (lc1, es)" by force
  obtain lc2 fs where r: "login_run lc1 (inputs is) = (lc2, fs)" by force
  note step = login_handle_input [OF Cons.prems h]
  show ?case
    using Cons.IH [OF step(2)] step(1) h r
    by (simp add: e split: prod.splits)
qed

lemma login_run_append:
  "login_run lc (ms @ ns) =
     (let (lc1, es) = login_run lc ms; (lc2, fs) = login_run lc1 ns in (lc2, es @ fs))"
  by (induction lc ms rule: login_run.induct) (auto split: prod.splits)

text \<open>The lines that follow the choice of a password, each compared with the current one.\<close>

fun confirmations :: "string \<Rightarrow> string \<Rightarrow> (crypto_env \<times> string) list \<Rightarrow> (string \<times> string) list" where
  "confirmations u p [] = []"
| "confirmations u p ((env, i) # is) =
     (if i = p then (u, credential_text env p) # confirmations u (blanks p) is
      else confirmations u p is)"

lemma login_lines_confirm: "login_lines (NeedConfirm u p) is = confirmations u p is"
  by (induction u p "is" rule: confirmations.induct) auto

lemma login_lines_password:
  "login_lines (NeedPassword u) is =
     (case dropWhile (\<lambda>(env, i). i = []) is of [] \<Rightarrow> [] | (_, p) # r \<Rightarrow> confirmations u p r)"
  by (induction "is") (auto simp: login_lines_confirm)

lemma login_lines_name:
  "login_lines NeedName is =
     (case dropWhile (\<lambda>(env, i). i = []) is of [] \<Rightarrow> [] | (_, u) # r \<Rightarrow> login_lines (NeedPassword u) r)"
  by (induction "is") auto

lemma login_new_phase [simp]: "login_phase_of (login_new ev c) = NeedName"
  by (simp add: login_phase_of_def login_new_def)

lemma login_new_creates:
  "user_creates (snd (login_run (login_new ev c) (inputs is))) = login_lines NeedName is"
  by (subst login_run_lines) (simp_all add: login_new_def login_phase_of_def)

section \<open>The command actor's routing\<close>

definition forwarded :: "effect list \<Rightarrow> (actor_id \<times> string) list" where
  "forwarded es = concat (map (\<lambda>(a, m). case m of OnUserInput i \<Rightarrow> [(a, i)] | _ \<Rightarrow> []) (sends es))"

lemma forwarded_append [simp]: "forwarded (es @ fs) = forwarded es @ forwarded fs"
  by (simp add: forwarded_def)

definition no_switch :: "(actor_id \<times> message) list \<Rightarrow> bool" where
  "no_switch ms \<longleftrightarrow> list_all (\<lambda>(fresh, m). m \<noteq> PerformWelcome \<and> m \<noteq> LoginControllerEnd) ms"

definition typed :: "(actor_id \<times> message) list \<Rightarrow> string list" where
  "typed ms = concat (map (\<lambda>(fresh, m). case m of OnUserInput i \<Rightarrow> [i] | _ \<Rightarrow> []) ms)"

lemma command_handle_keeps:
  "m \<noteq> PerformWelcome \<Longrightarrow> m \<noteq> LoginControllerEnd \<Longrightarrow> fst (command_handle fresh self ca m) = ca"
  by (cases m) (simp_all add: command_handle_def Let_def split: option.split)

lemma command_handle_forwards:
  assumes "m \<noteq> PerformWelcome" "m \<noteq> LoginControllerEnd"
  shows "forwarded (snd (command_handle fresh self ca m)) =
    (case ca_active_controller ca of None \<Rightarrow> [] | Some a \<Rightarrow> map (Pair a) (typed [(fresh, m)]))"
  using assms
  by (cases m)
    (simp_all add: command_handle_def forwarded_def typed_def actor_defs split: option.split)

lemma typed_Cons: "typed (m # ms) = typed [m] @ typed ms"
  by (simp add: typed_def)

lemma command_run_no_switch:
  "no_switch ms \<Longrightarrow> fst (command_run self ca ms) = ca \<and>
   forwarded (snd (command_run self ca ms)) =
     (case ca_active_controller ca of None \<Rightarrow> [] | Some a \<Rightarrow> map (Pair a) (typed ms))"
proof (induction ms)
  case Nil
  then show ?case by (simp add: forwarded_def typed_def split: option.split)
next
  case (Cons fm ms)
  obtain fresh m where fm: "fm = (fresh, m)" by (cases fm)
  obtain ca1 es where h: "command_handle fresh self ca m = (ca1, es)" by force
  obtain ca2 fs where r: "command_run self ca ms = (ca2, fs)" by force
  from Cons.prems have ms: "m \<noteq> PerformWelcome" "m \<noteq> LoginControllerEnd" "no_switch ms"
    by (simp_all add: no_switch_def fm)
  with command_handle_keeps [of m fresh self ca] command_handle_forwards [of m fresh self ca] h
  have "ca1 = ca"
    "forwarded es = (case ca_active_controller ca of None \<Rightarrow> [] | Some a \<Rightarrow> map (Pair a) (typed [(fresh, m)]))"
    by simp_all
  then show ?case
    using Cons.IH [OF ms(3)] h r typed_Cons [of "(fresh, m)" ms]
    by (simp add: fm split: option.splits)
qed

lemma command_run_append:
  "command_run self ca (ms @ ns) =
     (let (ca1, es) = command_run self ca ms; (ca2, fs) = command_run self ca1 ns in (ca2, es @ fs))"
  by (induction self ca ms rule: command_run.induct) (auto split: prod.splits)

section \<open>Properties\<close>

text \<open>
  C10: The users that a login controller records are determined by its input lines: the first
  line that is not empty is the user name, the next line that is not empty is the password, and
  every later line that equals the current password records the user with the salted hash of that
  password, after which the current password is as many blanks. Nothing else is ever recorded.
\<close>

theorem login_records_users:
  "user_creates (snd (login_run (login_new ev c) (inputs is))) =
     (case dropWhile (\<lambda>(env, i). i = []) is of
        [] \<Rightarrow> []
      | (_, u) # r \<Rightarrow>
          (case dropWhile (\<lambda>(env, i). i = []) r of
             [] \<Rightarrow> []
           | (_, p) # confirms \<Rightarrow> confirmations u p confirms))"
  by (simp add: login_new_creates login_lines_name login_lines_password split: list.split prod.split
      del: dropWhile_eq_Nil_conv)

text \<open>
  C11: The undisturbed dialogue: after the start, a user name, a password and the same password
  again, the controller has prompted for the three lines, hidden the echo from the user name on,
  shown it again before the welcome, recorded the user with the salted SHA-256 text of the
  password, and ended, in this order.
\<close>

theorem login_dialogue:
  assumes "u \<noteq> []" "p \<noteq> []" "crypto_env_ok env"
  shows "snd (login_run (login_new ev c)
      [(e0, LoginControllerStart), (e1, OnUserInput u), (e2, OnUserInput p), (env, OnUserInput p)]) =
    [Send c (ToUserPrompt ''enter username''),
     Send c (ToUserEmit SUPPRESS_ECHO_SEQUENCE),
     Send c (ToUserPrompt ''enter password''),
     Send c (ToUserEmit []),
     Send c (ToUserPrompt ''confirm password''),
     Send c (ToUserEmit ENABLE_ECHO_SEQUENCE),
     Send c (ToUserEmit []),
     Send c (ToUserEmit (''Welcome to Primordia '' @ u @ ''!'')),
     Send c (ToUserEmit []),
     Send ev (EventUserCreate u (''0:'' @ generate_random_salt env @ '':'' @
       hex_string (fips_sha256 (map byte_of_char (p @ '':'' @ generate_random_salt env))))),
     Send c LoginControllerEnd]"
proof -
  have "string_of_nat 0 = ''0''" by code_simp
  with assms show ?thesis
    by (simp add: login_handle_def login_new_def actor_defs hash_and_scrub_password_def
        record_event_user_create_def hash_credentials_eq credential_to_string_def Let_def)
qed

theorem login_dialogue_witness:
  "let env = \<lparr>ce_dist = (\<lambda>i. 7), ce_raw = replicate 64 0, ce_junk = replicate 64 9\<rparr>
   in crypto_env_ok env \<and>
      sends (snd (login_run (login_new 8 4)
        [(env, LoginControllerStart), (env, OnUserInput ''ann''), (env, OnUserInput ''pw''),
         (env, OnUserInput ''pw'')])) ! 9 =
      (8, EventUserCreate ''ann'' (''0:77777777:'' @
        hex_string (fips_sha256 (map byte_of_char ''pw:77777777''))))"
proof -
  let ?env = "\<lparr>ce_dist = (\<lambda>i. 7), ce_raw = replicate 64 0, ce_junk = replicate 64 9\<rparr>"
  have ok: "crypto_env_ok ?env" by (simp add: crypto_env_ok_def)
  have "generate_random_salt ?env = ''77777777''"
    by (simp add: generate_random_salt_def salt_hex_def upt_rec)
  with ok login_dialogue [of "''ann''" "''pw''" ?env 8 4 ?env ?env ?env] show ?thesis by simp
qed

text \<open>
  A wrong confirmation prompts for the password again but keeps the old one: typing a new
  password twice never creates the user, while the old password still does.
\<close>

theorem login_mismatch_keeps_password:
  assumes "u \<noteq> []" "p \<noteq> []" "p \<noteq> q"
  shows "user_creates (snd (login_run (login_new ev c) (inputs [(e1, u), (e2, p), (e3, q), (e4, q), (e5, q)]))) = [] \<and>
    user_creates (snd (login_run (login_new ev c) (inputs [(e1, u), (e2, p), (e3, q), (e4, p)]))) =
      [(u, credential_text e4 p)]"
  using assms by (simp_all only: login_new_creates) auto

theorem login_mismatch_keeps_password_witness:
  "user_creates (snd (login_run (login_new 8 4)
     (inputs (map (Pair \<lparr>ce_dist = (\<lambda>i. 7), ce_raw = [], ce_junk = []\<rparr>)
        [''ann'', ''old'', ''new'', ''new'', ''new''])))) = []"
  using login_mismatch_keeps_password [of "''ann''" "''old''" "''new''" 8 4] by simp

text \<open>
  The scrubbed password is still accepted: a line of as many blanks as the password has
  characters, arriving after the confirmation, records the same user a second time with the hash of
  the blanks.
\<close>

theorem login_blanks_record_again:
  assumes "u \<noteq> []" "p \<noteq> []"
  shows "user_creates (snd (login_run (login_new ev c)
      (inputs [(e1, u), (e2, p), (e3, p), (e4, blanks p)]))) =
    [(u, credential_text e3 p), (u, credential_text e4 (blanks p))]"
  using assms by (simp only: login_new_creates) simp

theorem login_blanks_record_again_witness:
  "let e = \<lparr>ce_dist = (\<lambda>i. 7), ce_raw = [], ce_junk = []\<rparr>
   in user_creates (snd (login_run (login_new 8 4)
        (inputs [(e, ''ann''), (e, ''pw''), (e, ''pw''), (e, ''  '')]))) =
      [(''ann'', credential_text e ''pw''), (''ann'', credential_text e ''  '')]"
proof -
  have "blanks ''pw'' = ''  ''" by (simp add: blanks_def)
  then show ?thesis
    using login_blanks_record_again [of "''ann''" "''pw''" 8 4] by (simp add: Let_def)
qed

text \<open>
  C19: The command actor's session: the lines typed before the welcome are answered by prompts
  only, the lines from the welcome to the end of the login go to the login controller, all later
  lines go to the default controller, each line to exactly one of them and in the order typed.
\<close>

theorem command_session:
  assumes "no_switch early" "no_switch mid" "no_switch late"
  shows "forwarded (snd (command_run self (fst (command_new d self conn n))
      (early @ (login, PerformWelcome) # mid @ (x, LoginControllerEnd) # late))) =
    map (Pair login) (typed mid) @ map (Pair d) (typed late)"
proof -
  let ?c0 = "fst (command_new d self conn n)"
  let ?c1 = "?c0\<lparr>ca_active_controller := Some login\<rparr>"
  let ?c2 = "?c1\<lparr>ca_active_controller := Some d\<rparr>"
  have "fst (command_run self ?c0 early) = ?c0 \<and> forwarded (snd (command_run self ?c0 early)) = []"
    using command_run_no_switch [OF assms(1), of self ?c0] by (simp add: command_new_def)
  moreover have "fst (command_run self ?c1 mid) = ?c1 \<and>
      forwarded (snd (command_run self ?c1 mid)) = map (Pair login) (typed mid)"
    using command_run_no_switch [OF assms(2), of self ?c1] by simp
  moreover have "forwarded (snd (command_run self ?c2 late)) = map (Pair d) (typed late)"
    using command_run_no_switch [OF assms(3), of self ?c2] by simp
  moreover have "command_handle login self ?c0 PerformWelcome =
      (?c1, [Spawn login (SpawnLogin self), Send login LoginControllerStart])"
    by (simp add: command_handle_def Let_def)
  moreover have "fst (command_handle x self ?c1 LoginControllerEnd) = ?c2 \<and>
      forwarded (snd (command_handle x self ?c1 LoginControllerEnd)) = []"
    by (simp add: command_handle_def command_new_def Let_def actor_defs forwarded_def)
  moreover have "forwarded [Spawn login (SpawnLogin self), Send login LoginControllerStart] = []"
    by (simp add: forwarded_def)
  ultimately show ?thesis
    by (auto simp: command_run_append split: prod.splits)
qed

theorem command_session_witness:
  "forwarded (snd (command_run 3 (fst (command_new 9 3 2 5))
     ([(0, OnUserInput ''early'')] @ (7, PerformWelcome) # [(0, OnUserInput ''ann'')] @
      (0, LoginControllerEnd) # [(0, OnUserInput ''help''), (0, OnUserInput ''x'')]))) =
   [(7, ''ann''), (9, ''help''), (9, ''x'')]"
proof -
  have "no_switch [(0, OnUserInput ''early'')]" "no_switch [(0, OnUserInput ''ann'')]"
    "no_switch [(0, OnUserInput ''help''), (0, OnUserInput ''x'')]"
    by (simp_all add: no_switch_def)
  from command_session [OF this, of 3 9 2 5 7 0] show ?thesis by (simp add: typed_def)
qed

text \<open>
  The default controller answers every line of input to its client only, with exactly one
  prompt, which comes last; an unknown command is echoed back by name.
\<close>

theorem default_answers:
  "\<exists>emits. default_handle c (OnUserInput i) =
     map (\<lambda>e. Send c (ToUserEmit e)) emits @ [Send c (ToUserPrompt ''pmud'')] \<and>
     (emits = [] \<longleftrightarrow> i = []) \<and>
     (emits = [''Unknown command: '' @ i] \<longleftrightarrow> i \<noteq> [] \<and> i \<noteq> ''help'')"
proof (cases "i = ''help''")
  case True
  show ?thesis
    by (rule exI [of _ "[''-=-=-=-=-=-=--=--==-==-=---=--=-==-==-=-=-=-===--='',
        ''Primordia MUD Help'' @ [CHR 0x0A], ''exit or quit             quits the MUD'',
        ''help                     this message'',
        ''-=-=-=-=-=-=--=--==-==-=---=--=-==-==-=-=-=-===--='', [CHR 0x0A]]"])
      (simp add: True default_handle_def emit_help_def actor_defs)
next
  case False
  show ?thesis
    by (rule exI [of _ "if i = [] then [] else [''Unknown command: '' @ i]"])
      (simp add: False default_handle_def actor_defs)
qed

end
