(* ===== verification/Comm_Static.thy ===== *)
theory Comm_Static
  imports Prelude
begin

text \<open>
  The terminal layer of \<^verbatim>\<open>pmud/src/pnet/comm_static.h\<close>: class \<open>CommStatic\<close> writes lines
  to a connected socket and turns the bytes it reads into text. The operating system's
  answers to \<open>send\<close> and \<open>read\<close> are arguments: a \<open>socket\<close> carries the byte counts that the
  coming calls of \<open>send\<close> return (a full write when the list is used up), and the record
  \<open>sys_input\<close> holds what \<open>recv\<close> and \<open>read\<close> return for one poll of the connection.

  The answers are those of calls that return. \<open>emit\<close> sends with flags 0 and nothing handles \<open>SIGPIPE\<close>: a
  \<open>send\<close> to a peer that has hung up does not return but ends the process. The model has runs of a process
  that lives: it says nothing of what follows such a \<open>send\<close>, and its runs end before it.
\<close>

section \<open>The socket\<close>

record socket =
  sk_fd :: int
  sk_sent :: "string list"
  sk_answers :: "int list"
  sk_closed :: bool

text \<open>
  \<open>send\<close> of POSIX: \<open>-1\<close> writes nothing, another answer is the number of bytes that were
  accepted, at most the length of the data.
\<close>

definition sys_send :: "socket \<Rightarrow> string \<Rightarrow> int \<times> socket" where
  "sys_send sk dat =
     (case sk_answers sk of
        [] \<Rightarrow> (int (length dat), sk\<lparr>sk_sent := sk_sent sk @ [dat]\<rparr>)
      | r # rs \<Rightarrow>
          (if r < 0 then (-1, sk\<lparr>sk_answers := rs\<rparr>)
           else let n = min (nat r) (length dat)
                in (int n, sk\<lparr>sk_answers := rs, sk_sent := sk_sent sk @ [take n dat]\<rparr>)))"

section \<open>Construction\<close>

definition comm_static :: "int \<Rightarrow> fault + int" where
  "comm_static conn = (if conn \<le> 0 then Inl (InvalidConnection conn) else Inr conn)"

section \<open>Writing\<close>

definition NEWLINE :: string where "NEWLINE = [CHR 0x0A]"

definition CR :: string where "CR = [CHR 0x0D]"

definition BANNER :: "string list" where
  "BANNER =
     [''                           _ '',
      ''                          | |'',
      '' _ __  _ __ ___  _   _  __| |'',
      ''| '' @ [CHR 0x27] @ ''_ '' @ [CHR 0x5C] @ ''| '' @ [CHR 0x27] @ ''_ '' @ [CHR 0x60] @
        '' _ '' @ [CHR 0x5C] @ ''| | | |/ _'' @ [CHR 0x60] @ '' |'',
      ''| |_) | | | | | | |_| | (_| |'',
      ''| .__/|_| |_| |_|'' @ [CHR 0x5C] @ ''__,_|'' @ [CHR 0x5C] @ ''__,_|'',
      ''| |'',
      ''|_|'']"

definition emit :: "socket \<Rightarrow> string \<Rightarrow> bool \<times> socket" where
  "emit sk emission =
     (if length emission > 0
      then let (bytes_sent, sk') = sys_send sk emission
           in (if bytes_sent = -1 then (False, sk') else (True, sk'))
      else (True, sk))"

definition emit_prompt :: "socket \<Rightarrow> string \<Rightarrow> bool \<times> socket" where
  "emit_prompt sk prompt = emit sk (prompt @ ''> '')"

text \<open>\<open>emit(emission) && emit(CR) && emit(NEWLINE)\<close>, from left to right.\<close>

definition emit_line :: "socket \<Rightarrow> string \<Rightarrow> bool \<times> socket" where
  "emit_line sk emission =
     (let (ok1, sk1) = emit sk emission in
      if \<not> ok1 then (False, sk1)
      else let (ok2, sk2) = emit sk1 CR in
           if \<not> ok2 then (False, sk2)
           else emit sk2 NEWLINE)"

fun emit_lines :: "socket \<Rightarrow> string list \<Rightarrow> bool \<times> socket" where
  "emit_lines sk [] = (True, sk)"
| "emit_lines sk (line # rest) =
     (let (ok, sk') = emit_line sk line in
      if \<not> ok then (False, sk') else emit_lines sk' rest)"

definition emit_banner :: "socket \<Rightarrow> bool \<times> socket" where
  "emit_banner sk = emit_lines sk BANNER"

section \<open>Reading\<close>

definition BUFFER_MAX_READ :: nat where "BUFFER_MAX_READ = 512"

definition BUFFER_PADDING :: nat where "BUFFER_PADDING = 128"

definition BUFFER_SIZE :: nat where "BUFFER_SIZE = BUFFER_MAX_READ + BUFFER_PADDING"

text \<open>What the system calls of one poll return.\<close>

record sys_input =
  in_peek :: int
  in_count :: int
  in_bytes :: "byte list"

text \<open>
  The documented contract of \<open>read(fd, buffer, 512)\<close>: it stores as many bytes as it
  reports, at most 512, and nothing when it fails.
\<close>

definition sys_input_ok :: "sys_input \<Rightarrow> bool" where
  "sys_input_ok i \<longleftrightarrow>
     length (in_bytes i) \<le> BUFFER_MAX_READ \<and>
     (if in_count i < 0 then in_bytes i = [] else in_count i = int (length (in_bytes i)))"

definition has_data :: "sys_input \<Rightarrow> bool" where
  "has_data i \<longleftrightarrow> in_peek i > 0"

text \<open>The stack buffer after \<open>memset\<close> and \<open>read\<close>.\<close>

definition read_buffer :: "sys_input \<Rightarrow> byte list" where
  "read_buffer i = in_bytes i @ replicate (BUFFER_SIZE - length (in_bytes i)) 0"

text \<open>The loop of \<open>lite_sanitize\<close> from index \<open>i\<close> on.\<close>

function lite_sanitize_from :: "byte list \<Rightarrow> nat \<Rightarrow> string" where
  "lite_sanitize_from buffer i =
     (if buffer ! i \<noteq> 0 \<and> i < BUFFER_MAX_READ
      then (let c = buffer ! i in
            (if 10 \<le> c \<and> c \<le> 127 then [char_of_byte c] else []) @
            lite_sanitize_from buffer (Suc i))
      else [])"
  by pat_completeness auto
termination
  by (relation "measure (\<lambda>(b, i). BUFFER_MAX_READ - i)") auto

declare lite_sanitize_from.simps [simp del]

definition lite_sanitize :: "byte list \<Rightarrow> string" where
  "lite_sanitize buffer = lite_sanitize_from buffer 0"

definition sanitize :: "string \<Rightarrow> string" where
  "sanitize input = filter (\<lambda>c. byte_of_char c \<ge> 32 \<and> byte_of_char c \<le> 127) input"

definition read_from_user :: "sys_input \<Rightarrow> int \<times> string" where
  "read_from_user i =
     (let buffer = read_buffer i; num_read = in_count i in
      if buffer ! 0 = 0xff \<or> (num_read = 1 \<and> buffer ! 0 = 4)
      then (0, [])
      else (num_read, lite_sanitize buffer))"


section \<open>What reading yields\<close>

text \<open>The bytes that \<open>lite_sanitize\<close> keeps.\<close>

definition keeps_byte :: "byte \<Rightarrow> bool" where
  "keeps_byte c \<longleftrightarrow> 10 \<le> c \<and> c \<le> 127"

definition printable :: "char \<Rightarrow> bool" where
  "printable c \<longleftrightarrow> byte_of_char c \<ge> 32 \<and> byte_of_char c \<le> 127"

lemma sanitize_filter: "sanitize xs = filter printable xs"
  by (simp add: sanitize_def printable_def [abs_def])

lemma sanitize_append [simp]: "sanitize (xs @ ys) = sanitize xs @ sanitize ys"
  by (simp add: sanitize_def)

lemma sanitize_NEWLINE [simp]: "sanitize NEWLINE = []"
  by (simp add: sanitize_def NEWLINE_def byte_of_char_def)

lemma sanitize_Nil [simp]: "sanitize [] = []"
  by (simp add: sanitize_def)

lemma sanitize_printable: "c \<in> set (sanitize xs) \<Longrightarrow> printable c"
  by (simp add: sanitize_filter)

lemma sanitize_id: "\<forall>c \<in> set xs. printable c \<Longrightarrow> sanitize xs = xs"
  by (simp add: sanitize_filter)

lemma not_printable_newline: "\<not> printable (CHR 0x0A)"
  by (simp add: printable_def byte_of_char_def)

lemma lite_sanitize_from_eq:
  assumes "BUFFER_MAX_READ \<le> length buffer" "i \<le> BUFFER_MAX_READ"
  shows "lite_sanitize_from buffer i =
    map char_of_byte (filter keeps_byte (takeWhile (\<lambda>c. c \<noteq> 0)
      (drop i (take BUFFER_MAX_READ buffer))))"
  using assms
proof (induction buffer i rule: lite_sanitize_from.induct)
  case (1 buffer i)
  show ?case
  proof (cases "i < BUFFER_MAX_READ")
    case True
    with "1.prems" have split:
      "drop i (take BUFFER_MAX_READ buffer) = buffer ! i # drop (Suc i) (take BUFFER_MAX_READ buffer)"
      by (subst Cons_nth_drop_Suc [symmetric]) auto
    show ?thesis
    proof (cases "buffer ! i = 0")
      case True
      then show ?thesis by (subst lite_sanitize_from.simps) (simp add: split)
    next
      case False
      with True have "lite_sanitize_from buffer (Suc i) =
          map char_of_byte (filter keeps_byte (takeWhile (\<lambda>c. c \<noteq> 0)
            (drop (Suc i) (take BUFFER_MAX_READ buffer))))"
        using "1.IH" [OF _ refl] "1.prems" by simp
      with True False show ?thesis
        by (subst lite_sanitize_from.simps) (simp add: split keeps_byte_def Let_def)
    qed
  next
    case False
    with "1.prems" show ?thesis by (subst lite_sanitize_from.simps) simp
  qed
qed

lemma lite_sanitize_eq:
  "BUFFER_MAX_READ \<le> length buffer \<Longrightarrow>
   lite_sanitize buffer =
     map char_of_byte (filter keeps_byte (takeWhile (\<lambda>c. c \<noteq> 0) (take BUFFER_MAX_READ buffer)))"
  by (simp add: lite_sanitize_def lite_sanitize_from_eq)

lemmas buffer_sizes = BUFFER_MAX_READ_def BUFFER_PADDING_def BUFFER_SIZE_def

lemma length_read_buffer:
  "sys_input_ok i \<Longrightarrow> length (read_buffer i) = BUFFER_SIZE"
  by (simp add: read_buffer_def sys_input_ok_def buffer_sizes)

lemma lite_sanitize_read_buffer:
  assumes "sys_input_ok i"
  shows "lite_sanitize (read_buffer i) =
    map char_of_byte (filter keeps_byte (takeWhile (\<lambda>c. c \<noteq> 0) (in_bytes i)))"
proof -
  let ?k = "BUFFER_MAX_READ - length (in_bytes i)"
  from assms have len: "length (in_bytes i) \<le> BUFFER_MAX_READ"
    by (simp add: sys_input_ok_def)
  then have "take BUFFER_MAX_READ (read_buffer i) = in_bytes i @ replicate ?k 0"
    by (simp add: read_buffer_def buffer_sizes)
  moreover have "takeWhile (\<lambda>c. c \<noteq> 0) (in_bytes i @ replicate ?k 0)
      = takeWhile (\<lambda>c. c \<noteq> 0) (in_bytes i)"
    by (cases ?k) (auto simp: takeWhile_append_stop)
  ultimately show ?thesis
    using assms by (simp add: lite_sanitize_eq length_read_buffer buffer_sizes)
qed

definition telnet_command :: "byte list \<Rightarrow> bool" where
  "telnet_command bytes \<longleftrightarrow> bytes \<noteq> [] \<and> hd bytes = 0xff"

lemma read_buffer_0:
  "read_buffer i ! 0 = (case in_bytes i of [] \<Rightarrow> 0 | b # _ \<Rightarrow> b)"
  by (cases "in_bytes i") (simp_all add: read_buffer_def buffer_sizes)

lemma read_from_user_eq:
  assumes "sys_input_ok i"
  shows "read_from_user i =
    (if telnet_command (in_bytes i) \<or> in_bytes i = [4] then (0, [])
     else (in_count i,
       map char_of_byte (filter keeps_byte (takeWhile (\<lambda>c. c \<noteq> 0) (in_bytes i)))))"
proof -
  have "(in_count i = 1 \<and> read_buffer i ! 0 = 4) = (in_bytes i = [4])"
  proof (cases "in_bytes i")
    case Nil
    then show ?thesis by (simp add: read_buffer_0)
  next
    case (Cons b bs)
    with assms have "in_count i = 1 + int (length bs)"
      by (simp add: sys_input_ok_def split: if_splits)
    with Cons show ?thesis by (simp add: read_buffer_0 conj_commute)
  qed
  moreover have "(read_buffer i ! 0 = 0xff) = telnet_command (in_bytes i)"
    by (cases "in_bytes i") (simp_all add: read_buffer_0 telnet_command_def)
  ultimately show ?thesis
    using assms by (simp add: read_from_user_def Let_def lite_sanitize_read_buffer)
qed

section \<open>What writing puts on the wire\<close>

definition all_writes_succeed :: "socket \<Rightarrow> bool" where
  "all_writes_succeed sk \<longleftrightarrow> sk_answers sk = []"

lemma emit_full:
  "all_writes_succeed sk \<Longrightarrow>
   emit sk e = (True, if e = [] then sk else sk\<lparr>sk_sent := sk_sent sk @ [e]\<rparr>)"
  by (simp add: emit_def sys_send_def all_writes_succeed_def)

lemma all_writes_succeed_sent [simp]:
  "all_writes_succeed (sk\<lparr>sk_sent := x\<rparr>) = all_writes_succeed sk"
  by (simp add: all_writes_succeed_def)

definition wire :: "socket \<Rightarrow> string" where
  "wire sk = concat (sk_sent sk)"

lemma emit_line_full:
  "all_writes_succeed sk \<Longrightarrow>
   emit_line sk e = (True, sk\<lparr>sk_sent := sk_sent sk @ (if e = [] then [] else [e]) @ [CR, NEWLINE]\<rparr>)"
  by (simp add: emit_line_def emit_full CR_def NEWLINE_def)

lemma emit_lines_full:
  "all_writes_succeed sk \<Longrightarrow> \<exists>sk'. emit_lines sk ls = (True, sk') \<and> all_writes_succeed sk' \<and>
     sk_fd sk' = sk_fd sk \<and> sk_closed sk' = sk_closed sk \<and>
     wire sk' = wire sk @ concat (map (\<lambda>l. l @ CR @ NEWLINE) ls)"
proof (induction ls arbitrary: sk)
  case Nil
  then show ?case by simp
next
  case (Cons l ls)
  let ?sk1 = "sk\<lparr>sk_sent := sk_sent sk @ (if l = [] then [] else [l]) @ [CR, NEWLINE]\<rparr>"
  from Cons.prems have "all_writes_succeed ?sk1" by simp
  from Cons.IH [OF this] obtain sk' where
    "emit_lines ?sk1 ls = (True, sk')" "all_writes_succeed sk'"
    "sk_fd sk' = sk_fd sk" "sk_closed sk' = sk_closed sk"
    "wire sk' = wire ?sk1 @ concat (map (\<lambda>l. l @ CR @ NEWLINE) ls)"
    by auto
  with Cons.prems show ?case by (auto simp: emit_line_full wire_def)
qed

lemma sys_send_frame:
  "sys_send sk dat = (r, sk') \<Longrightarrow> sk_fd sk' = sk_fd sk \<and> sk_closed sk' = sk_closed sk"
  by (auto simp: sys_send_def Let_def split: list.splits if_splits)

lemma emit_frame:
  "emit sk e = (ok, sk') \<Longrightarrow> sk_fd sk' = sk_fd sk \<and> sk_closed sk' = sk_closed sk"
  by (auto simp: emit_def split: if_splits prod.splits dest: sys_send_frame)

lemma emit_line_frame:
  "emit_line sk e = (ok, sk') \<Longrightarrow> sk_fd sk' = sk_fd sk \<and> sk_closed sk' = sk_closed sk"
  by (fastforce simp: emit_line_def Let_def split: if_splits prod.splits dest: emit_frame)

lemma emit_answer:
  "fst (emit sk e) = (e = [] \<or> list_all (\<lambda>r. 0 \<le> r) (take 1 (sk_answers sk)))"
  "sk_answers (snd (emit sk e)) = (if e = [] then sk_answers sk else drop 1 (sk_answers sk))"
  by (cases "sk_answers sk"; simp add: emit_def sys_send_def Let_def)+

section \<open>Properties\<close>

text \<open>
  A poll that reads anything yields the bytes 10 to 127 that stand before the first zero
  byte, in order, together with the byte count; only a telnet command (first byte 255) and a lone
  end-of-transmission byte are reported as a break, that is as zero bytes and no text. The text
  never exceeds the 512 bytes that are asked for.
\<close>

theorem read_from_user_text:
  assumes "sys_input_ok i"
  shows "read_from_user i =
    (if telnet_command (in_bytes i) \<or> in_bytes i = [4] then (0, [])
     else (in_count i, map char_of_byte (filter keeps_byte (takeWhile (\<lambda>c. c \<noteq> 0) (in_bytes i)))))
    \<and> length (snd (read_from_user i)) \<le> BUFFER_MAX_READ"
proof -
  have "length (filter keeps_byte (takeWhile (\<lambda>c. c \<noteq> 0) (in_bytes i))) \<le> length (in_bytes i)"
    by (rule order_trans [OF length_filter_le length_takeWhile_le])
  then have "length (snd (read_from_user i)) \<le> length (in_bytes i)"
    using assms by (simp add: read_from_user_eq)
  with assms show ?thesis by (auto simp: read_from_user_eq sys_input_ok_def)
qed

theorem read_from_user_text_witness:
  "let i = \<lparr>in_peek = 4, in_count = 4, in_bytes = [104, 200, 105, 10]\<rparr>
   in sys_input_ok i \<and> read_from_user i = (4, ''hi'' @ NEWLINE)"
proof -
  let ?i = "\<lparr>in_peek = 4, in_count = 4, in_bytes = [104, 200, 105, 10]\<rparr>"
  have ok: "sys_input_ok ?i" by (simp add: sys_input_ok_def BUFFER_MAX_READ_def)
  have "map char_of_byte [104, 105, 10] = ''hi'' @ NEWLINE" by code_simp
  with read_from_user_text [OF ok] have "read_from_user ?i = (4, ''hi'' @ NEWLINE)"
    by (simp add: telnet_command_def keeps_byte_def)
  with ok show ?thesis by simp
qed

text \<open>
  Writing a list of lines whose writes all succeed puts exactly these lines on the wire, each
  closed by carriage return and line feed, and reports success.
\<close>

theorem emit_lines_wire:
  assumes "all_writes_succeed sk"
  shows "fst (emit_lines sk ls) \<and>
    wire (snd (emit_lines sk ls)) = wire sk @ concat (map (\<lambda>l. l @ CR @ NEWLINE) ls)"
  using emit_lines_full [OF assms, of ls] by auto

theorem emit_lines_wire_witness:
  "let sk = \<lparr>sk_fd = 5, sk_sent = [''a''], sk_answers = [], sk_closed = False\<rparr>
   in all_writes_succeed sk \<and> fst (emit_lines sk [''hi'', '''']) \<and>
      wire (snd (emit_lines sk [''hi'', ''''])) = ''ahi'' @ CR @ NEWLINE @ CR @ NEWLINE"
proof -
  let ?sk = "\<lparr>sk_fd = 5, sk_sent = [''a''], sk_answers = [], sk_closed = False\<rparr>"
  have ok: "all_writes_succeed ?sk" by (simp add: all_writes_succeed_def)
  with emit_lines_wire [OF ok, of "[''hi'', '''']"] show ?thesis by (simp add: wire_def)
qed

text \<open>
  A line is reported as sent exactly when no \<open>send\<close> among its two or three calls failed: an
  answer that says that only a part of the data was taken is not looked at, so a truncated line
  counts as sent.
\<close>

theorem emit_line_reports:
  "fst (emit_line sk e) \<longleftrightarrow>
     list_all (\<lambda>r. 0 \<le> r) (take (if e = [] then 2 else 3) (sk_answers sk))"
proof -
  obtain ok1 sk1 where 1: "emit sk e = (ok1, sk1)" by force
  obtain ok2 sk2 where 2: "emit sk1 CR = (ok2, sk2)" by force
  have "ok1 = (e = [] \<or> list_all (\<lambda>r. 0 \<le> r) (take 1 (sk_answers sk)))"
    "sk_answers sk1 = (if e = [] then sk_answers sk else drop 1 (sk_answers sk))"
    using emit_answer [of sk e] 1 by simp_all
  moreover have "ok2 = list_all (\<lambda>r. 0 \<le> r) (take 1 (sk_answers sk1))"
    "sk_answers sk2 = drop 1 (sk_answers sk1)"
    using emit_answer [of sk1 CR] 2 by (simp_all add: CR_def)
  moreover have "fst (emit sk2 NEWLINE) = list_all (\<lambda>r. 0 \<le> r) (take 1 (sk_answers sk2))"
    using emit_answer(1) [of sk2 NEWLINE] by (simp add: NEWLINE_def)
  moreover have "fst (emit_line sk e) = (ok1 \<and> ok2 \<and> fst (emit sk2 NEWLINE))"
    by (simp add: emit_line_def 1 2)
  moreover have "list_all P (take 3 xs) = (list_all P (take 1 xs) \<and> list_all P (take 1 (drop 1 xs)) \<and>
      list_all P (take 1 (drop 1 (drop 1 xs))))"
    "list_all P (take 2 xs) = (list_all P (take 1 xs) \<and> list_all P (take 1 (drop 1 xs)))"
    for P :: "int \<Rightarrow> bool" and xs
    by (cases xs; cases "tl xs"; cases "tl (tl xs)"; simp add: numeral_3_eq_3 numeral_2_eq_2)+
  ultimately show ?thesis by auto
qed

end
