(* ===== verification/Connection_Actor.thy ===== *)
theory Connection_Actor
  imports Comm_Static Messages
begin

text \<open>
  \<open>ConnectionActor\<close>, \<^verbatim>\<open>pmud/src/pnet/connection_actor.h\<close>: the actor of one accepted socket. It writes
  what its command actor emits, polls the socket for input by a message to itself, assembles
  lines from the chunks it reads, and says goodbye on quit, exit or two breaks. A handler
  takes the members, the socket, and what the system calls of a poll return.

  The socket is the connection's own. The code keeps the number of a closed descriptor in its member; that
  the operating system may give the number to a later connection is not expressible here.
\<close>

section \<open>The actor\<close>

record connection_actor =
  cn_break_count :: int
  cn_command :: "actor_id option"
  cn_connection :: int
  cn_current_input :: string
  cn_registery_id :: string

type_synonym connection_state = "connection_actor \<times> socket"

definition registery_id :: "actor_id \<Rightarrow> string" where
  "registery_id self = ''Connection('' @ string_of_nat self @ '')''"

text \<open>
  The constructor. It spawns and registers before it creates the \<open>CommStatic\<close>, whose constructor
  may throw: the effects happen in both cases.
\<close>

definition connection_new ::
  "actor_id \<Rightarrow> actor_id \<Rightarrow> string \<Rightarrow> int \<Rightarrow> socket \<Rightarrow> effect list \<times> (fault + connection_state)" where
  "connection_new fresh self welcome connection sk =
     (let cn = \<lparr>cn_break_count = 0, cn_command = Some fresh, cn_connection = connection,
                cn_current_input = [], cn_registery_id = registery_id self\<rparr>
      in ([Spawn fresh (SpawnCommand self connection), RegistryPut (registery_id self) self],
          bindE (comm_static connection) (\<lambda>_.
            let (ok1, sk1) = emit_banner sk in
            if \<not> ok1 then Inr (cn, sk1)
            else let (ok2, sk2) = emit_line sk1 [] in
                 if \<not> ok2 then Inr (cn, sk2)
                 else let (ok3, sk3) = emit_line sk2 welcome in
                      if \<not> ok3 then Inr (cn, sk3)
                      else let (ok4, sk4) = emit_line sk3 [] in
                           if \<not> ok4 then Inr (cn, sk4)
                           else Inr (cn, snd (emit_line sk4 [])))))"

definition connection_exit :: "connection_actor \<Rightarrow> connection_actor \<times> effect list" where
  "connection_exit cn = (cn\<lparr>cn_command := None\<rparr>, [SendExit (cn_command cn)])"

section \<open>The handlers\<close>

definition from_user_get_input ::
  "actor_id \<Rightarrow> sys_input \<Rightarrow> connection_state \<Rightarrow> fault + connection_state \<times> effect list" where
  "from_user_get_input self i = (\<lambda>(cn, sk).
     bindE (comm_static (cn_connection cn)) (\<lambda>_.
       if has_data i then
         (let (bytes_read, user_read) = read_from_user i in
          if bytes_read = 0 then
            (if cn_break_count cn = 0 then
               Inr ((cn\<lparr>cn_break_count := cn_break_count cn + 1\<rparr>, sk), [Send self FromUserGetInput])
             else Inr ((cn, sk), [Send self GoodbyeConnection]))
          else
            (let cn = cn\<lparr>cn_break_count := 0\<rparr> in
             if CHR 0x0A \<notin> set user_read then
               Inr ((cn\<lparr>cn_current_input := cn_current_input cn @ user_read\<rparr>, sk),
                    [Send self FromUserGetInput])
             else
               (let final_user_read = sanitize (cn_current_input cn @ user_read);
                    cn = cn\<lparr>cn_current_input := []\<rparr> in
                if final_user_read = ''quit'' \<or> final_user_read = ''exit'' then
                  Inr ((cn, sk), [Send self GoodbyeConnection])
                else
                  Inr ((cn, sk), send_via (cn_command cn) (OnUserInput final_user_read) @
                    [Send self FromUserGetInput]))))
       else Inr ((cn, sk), [Send self FromUserGetInput])))"

definition goodbye_connection ::
  "actor_id \<Rightarrow> connection_state \<Rightarrow> fault + connection_state \<times> effect list" where
  "goodbye_connection self = (\<lambda>(cn, sk).
     let bye = [RegistryErase (cn_registery_id cn), SendExit (Some self)] in
     if cn_connection cn \<noteq> -1 then
       bindE (comm_static (cn_connection cn)) (\<lambda>_.
         let (_, sk1) = emit_line sk [];
             (_, sk2) = emit_line sk1 ''Goodbye!''
         in Inr ((cn, sk2\<lparr>sk_closed := True\<rparr>), bye))
     else Inr ((cn, sk), bye))"

definition connection_handle ::
  "actor_id \<Rightarrow> sys_input \<Rightarrow> connection_state \<Rightarrow> message \<Rightarrow> fault + connection_state \<times> effect list" where
  "connection_handle self i st msg =
     (case msg of
        PerformWelcome \<Rightarrow> Inr (st, send_via (cn_command (fst st)) PerformWelcome)
      | ToUserEmit emission \<Rightarrow>
          bindE (comm_static (cn_connection (fst st))) (\<lambda>_.
            Inr ((fst st, snd (emit_line (snd st) emission)), []))
      | ToUserPrompt prompt \<Rightarrow>
          bindE (comm_static (cn_connection (fst st))) (\<lambda>_.
            Inr ((fst st, snd (emit_prompt (snd st) prompt)), [Send self FromUserGetInput]))
      | FromUserGetInput \<Rightarrow> from_user_get_input self i st
      | GoodbyeConnection \<Rightarrow> goodbye_connection self st
      | _ \<Rightarrow> Inr (st, []))"

text \<open>A sequence of handled messages, each with what its poll would read.\<close>

fun connection_run ::
  "actor_id \<Rightarrow> connection_state \<Rightarrow> (sys_input \<times> message) list \<Rightarrow> fault + connection_state \<times> effect list" where
  "connection_run self st [] = Inr (st, [])"
| "connection_run self st ((i, m) # ms) =
     bindE (connection_handle self i st m) (\<lambda>(st1, es).
       bindE (connection_run self st1 ms) (\<lambda>(st2, fs). Inr (st2, es @ fs)))"

section \<open>What a poll means\<close>

datatype poll = Idle | Break | Chunk string

definition poll_of :: "sys_input \<Rightarrow> poll" where
  "poll_of i =
     (if \<not> has_data i then Idle
      else if fst (read_from_user i) = 0 then Break
      else Chunk (snd (read_from_user i)))"

text \<open>The input side of a connection: the pending text, whether a break was seen, and the result
  of each poll.\<close>

datatype poll_result = Again | Line string | Quit

fun poll_step :: "string \<times> bool \<Rightarrow> poll \<Rightarrow> (string \<times> bool) \<times> poll_result" where
  "poll_step (cur, brk) Idle = ((cur, brk), Again)"
| "poll_step (cur, brk) Break = ((cur, True), if brk then Quit else Again)"
| "poll_step (cur, brk) (Chunk t) =
     (if CHR 0x0A \<notin> set t then ((cur @ t, False), Again)
      else let l = sanitize (cur @ t)
           in (([], False), if l = ''quit'' \<or> l = ''exit'' then Quit else Line l))"

fun poll_effects :: "actor_id \<Rightarrow> actor_id option \<Rightarrow> poll_result \<Rightarrow> effect list" where
  "poll_effects self cmd Again = [Send self FromUserGetInput]"
| "poll_effects self cmd (Line l) = send_via cmd (OnUserInput l) @ [Send self FromUserGetInput]"
| "poll_effects self cmd Quit = [Send self GoodbyeConnection]"

definition input_of :: "connection_actor \<Rightarrow> string \<times> bool" where
  "input_of cn = (cn_current_input cn, cn_break_count cn \<noteq> 0)"

definition connection_ok :: "connection_actor \<Rightarrow> bool" where
  "connection_ok cn \<longleftrightarrow> 0 < cn_connection cn \<and> 0 \<le> cn_break_count cn \<and> cn_break_count cn \<le> 1"

lemma from_user_get_input_step:
  assumes "connection_ok cn"
  shows "\<exists>cn'. from_user_get_input self i (cn, sk) =
      Inr ((cn', sk), poll_effects self (cn_command cn) (snd (poll_step (input_of cn) (poll_of i)))) \<and>
    input_of cn' = fst (poll_step (input_of cn) (poll_of i)) \<and> connection_ok cn' \<and>
    cn_command cn' = cn_command cn \<and> cn_connection cn' = cn_connection cn \<and>
    cn_registery_id cn' = cn_registery_id cn"
  using assms
  by (cases "read_from_user i")
    (simp add: from_user_get_input_def comm_static_def poll_of_def input_of_def connection_ok_def Let_def)

section \<open>The other handlers\<close>

lemma emit_prompt_frame:
  "sk_fd (snd (emit_prompt sk p)) = sk_fd sk"
  using emit_frame [of sk "p @ ''> ''"] by (cases "emit sk (p @ ''> '')") (simp add: emit_prompt_def)

definition handler_effects :: "actor_id \<Rightarrow> actor_id option \<Rightarrow> string \<times> bool \<Rightarrow> sys_input \<Rightarrow> message \<Rightarrow> effect list" where
  "handler_effects self cmd inp i m =
     (case m of
        FromUserGetInput \<Rightarrow> poll_effects self cmd (snd (poll_step inp (poll_of i)))
      | ToUserPrompt p \<Rightarrow> [Send self FromUserGetInput]
      | PerformWelcome \<Rightarrow> send_via cmd PerformWelcome
      | _ \<Rightarrow> [])"

definition handler_input :: "string \<times> bool \<Rightarrow> sys_input \<Rightarrow> message \<Rightarrow> string \<times> bool" where
  "handler_input inp i m = (if m = FromUserGetInput then fst (poll_step inp (poll_of i)) else inp)"

text \<open>What a handler writes when all writes succeed.\<close>

definition handler_output :: "message \<Rightarrow> string" where
  "handler_output m =
     (case m of ToUserEmit e \<Rightarrow> e @ CR @ NEWLINE | ToUserPrompt p \<Rightarrow> p @ ''> '' | _ \<Rightarrow> [])"

lemma connection_handle_step:
  assumes "connection_ok cn" "m \<noteq> GoodbyeConnection"
  shows "\<exists>cn' sk'. connection_handle self i (cn, sk) m =
      Inr ((cn', sk'), handler_effects self (cn_command cn) (input_of cn) i m) \<and>
    input_of cn' = handler_input (input_of cn) i m \<and> connection_ok cn' \<and>
    cn_command cn' = cn_command cn \<and> cn_connection cn' = cn_connection cn \<and>
    cn_registery_id cn' = cn_registery_id cn \<and>
    (all_writes_succeed sk \<longrightarrow> all_writes_succeed sk' \<and> wire sk' = wire sk @ handler_output m)"
proof (cases "m = FromUserGetInput")
  case True
  with from_user_get_input_step [OF assms(1), of self i sk] show ?thesis
    by (auto simp: connection_handle_def handler_effects_def handler_input_def handler_output_def)
next
  case False
  with assms have "0 < cn_connection cn" by (simp add: connection_ok_def)
  with False assms show ?thesis
    by (cases m)
      (simp_all add: connection_handle_def handler_effects_def handler_input_def handler_output_def
        comm_static_def emit_line_full emit_prompt_def emit_full wire_def)
qed

fun session_effects ::
  "actor_id \<Rightarrow> actor_id option \<Rightarrow> string \<times> bool \<Rightarrow> (sys_input \<times> message) list \<Rightarrow> effect list" where
  "session_effects self cmd inp [] = []"
| "session_effects self cmd inp ((i, m) # ms) =
     handler_effects self cmd inp i m @ session_effects self cmd (handler_input inp i m) ms"

fun session_input :: "string \<times> bool \<Rightarrow> (sys_input \<times> message) list \<Rightarrow> string \<times> bool" where
  "session_input inp [] = inp"
| "session_input inp ((i, m) # ms) = session_input (handler_input inp i m) ms"

definition alive :: "(sys_input \<times> message) list \<Rightarrow> bool" where
  "alive ms \<longleftrightarrow> GoodbyeConnection \<notin> set (map snd ms)"

lemma connection_run_session:
  "connection_ok cn \<Longrightarrow> alive ms \<Longrightarrow>
   \<exists>cn' sk'. connection_run self (cn, sk) ms =
       Inr ((cn', sk'), session_effects self (cn_command cn) (input_of cn) ms) \<and>
     input_of cn' = session_input (input_of cn) ms \<and> connection_ok cn' \<and>
     cn_command cn' = cn_command cn \<and> cn_connection cn' = cn_connection cn \<and>
     cn_registery_id cn' = cn_registery_id cn \<and>
     (all_writes_succeed sk \<longrightarrow> all_writes_succeed sk' \<and>
        wire sk' = wire sk @ concat (map (\<lambda>im. handler_output (snd im)) ms))"
proof (induction ms arbitrary: cn sk)
  case Nil
  then show ?case by simp
next
  case (Cons im ms)
  obtain i m where im: "im = (i, m)" by (cases im)
  from Cons.prems im have m: "m \<noteq> GoodbyeConnection" and ms: "alive ms"
    by (auto simp: alive_def)
  from connection_handle_step [OF Cons.prems(1) m] obtain cn1 sk1 where step:
    "connection_handle self i (cn, sk) m =
      Inr ((cn1, sk1), handler_effects self (cn_command cn) (input_of cn) i m)"
    "input_of cn1 = handler_input (input_of cn) i m" "connection_ok cn1"
    "cn_command cn1 = cn_command cn" "cn_connection cn1 = cn_connection cn"
    "cn_registery_id cn1 = cn_registery_id cn"
    "all_writes_succeed sk \<longrightarrow> all_writes_succeed sk1 \<and> wire sk1 = wire sk @ handler_output m"
    by blast
  from Cons.IH [OF step(3) ms, of sk1] obtain cn2 sk2 where run:
    "connection_run self (cn1, sk1) ms =
       Inr ((cn2, sk2), session_effects self (cn_command cn1) (input_of cn1) ms)"
    "input_of cn2 = session_input (input_of cn1) ms" "connection_ok cn2"
    "cn_command cn2 = cn_command cn1" "cn_connection cn2 = cn_connection cn1"
    "cn_registery_id cn2 = cn_registery_id cn1"
    "all_writes_succeed sk1 \<longrightarrow> all_writes_succeed sk2 \<and>
        wire sk2 = wire sk1 @ concat (map (\<lambda>im. handler_output (snd im)) ms)"
    by blast
  from step run show ?case by (auto simp: im)
qed

section \<open>Counting polls\<close>

definition count_sends :: "actor_id \<Rightarrow> message \<Rightarrow> effect list \<Rightarrow> nat" where
  "count_sends a m es = length (filter (\<lambda>x. x = (a, m)) (sends es))"

lemma count_sends_append [simp]: "count_sends a m (es @ fs) = count_sends a m es + count_sends a m fs"
  by (simp add: count_sends_def)

definition count_handled :: "(message \<Rightarrow> bool) \<Rightarrow> (sys_input \<times> message) list \<Rightarrow> nat" where
  "count_handled P ms = length (filter (\<lambda>(i, m). P m) ms)"

definition is_prompt :: "message \<Rightarrow> bool" where
  "is_prompt m = (case m of ToUserPrompt p \<Rightarrow> True | _ \<Rightarrow> False)"

lemma handler_effects_polls:
  "m \<noteq> GoodbyeConnection \<Longrightarrow>
   count_sends self FromUserGetInput (handler_effects self cmd inp i m) +
   count_sends self GoodbyeConnection (handler_effects self cmd inp i m) =
   (if is_prompt m \<or> m = FromUserGetInput then 1 else 0)"
proof -
  have "count_sends self FromUserGetInput (poll_effects self cmd r) +
      count_sends self GoodbyeConnection (poll_effects self cmd r) = 1" for r
    by (cases r; cases cmd) (simp_all add: count_sends_def)
  then show "m \<noteq> GoodbyeConnection \<Longrightarrow> ?thesis"
    by (cases m; cases cmd) (simp_all add: handler_effects_def count_sends_def is_prompt_def)
qed

lemma session_polls:
  "alive ms \<Longrightarrow>
   count_sends self FromUserGetInput (session_effects self cmd inp ms) +
   count_sends self GoodbyeConnection (session_effects self cmd inp ms) =
   count_handled is_prompt ms + count_handled (\<lambda>m. m = FromUserGetInput) ms"
proof (induction ms arbitrary: inp)
  case Nil
  then show ?case by (simp add: count_sends_def count_handled_def)
next
  case (Cons im ms)
  obtain i m where im: "im = (i, m)" by (cases im)
  from Cons.prems im have m: "m \<noteq> GoodbyeConnection" and ms: "alive ms" by (auto simp: alive_def)
  have "\<not> (is_prompt m \<and> m = FromUserGetInput)" by (auto simp: is_prompt_def)
  then show ?case
    using handler_effects_polls [OF m, of self cmd inp i] Cons.IH [OF ms, of "handler_input inp i m"]
    by (auto simp: im count_handled_def split: if_splits)
qed

section \<open>Lines\<close>

text \<open>The polls that a run of \<open>FromUserGetInput\<close> messages makes.\<close>

abbreviation polls :: "sys_input list \<Rightarrow> (sys_input \<times> message) list" where
  "polls is \<equiv> map (\<lambda>i. (i, FromUserGetInput)) is"

lemma alive_polls [simp]: "alive (polls is)"
  by (auto simp: alive_def)

definition input_lines :: "effect list \<Rightarrow> string list" where
  "input_lines es = concat (map (\<lambda>(a, m). case m of OnUserInput i \<Rightarrow> [i] | _ \<Rightarrow> []) (sends es))"

lemma input_lines_append [simp]: "input_lines (es @ fs) = input_lines es @ input_lines fs"
  by (simp add: input_lines_def)

lemma input_lines_poll [simp]:
  "input_lines (poll_effects self (Some cmd) r) = (case r of Line l \<Rightarrow> [l] | _ \<Rightarrow> [])"
  by (cases r) (simp_all add: input_lines_def)

text \<open>The lines of a text that arrives in chunks, each chunk with a newline ending one.\<close>

fun chunk_lines :: "string \<Rightarrow> string list \<Rightarrow> string list" where
  "chunk_lines cur [] = []"
| "chunk_lines cur (t # ts) =
     (if CHR 0x0A \<notin> set t then chunk_lines (cur @ t) ts
      else sanitize (cur @ t) # chunk_lines [] ts)"

definition chunks :: "sys_input list \<Rightarrow> string list" where
  "chunks is = concat (map (\<lambda>i. case poll_of i of Chunk t \<Rightarrow> [t] | _ \<Rightarrow> []) is)"

lemma chunks_Cons: "chunks (i # is) = (case poll_of i of Chunk t \<Rightarrow> [t] | _ \<Rightarrow> []) @ chunks is"
  by (simp add: chunks_def)

lemma session_polls_lines:
  assumes "Break \<notin> set (map poll_of is)" "''quit'' \<notin> set (chunk_lines cur (chunks is))"
    "''exit'' \<notin> set (chunk_lines cur (chunks is))"
  shows "input_lines (session_effects self (Some cmd) (cur, brk) (polls is)) = chunk_lines cur (chunks is)
    \<and> count_sends self GoodbyeConnection (session_effects self (Some cmd) (cur, brk) (polls is)) = 0"
  using assms
proof (induction "is" arbitrary: cur brk)
  case Nil
  then show ?case by (simp add: input_lines_def chunks_def count_sends_def)
next
  case (Cons i "is")
  have goodbye: "count_sends self GoodbyeConnection (poll_effects self (Some cmd) r) =
      (if r = Quit then 1 else 0)" for r
    by (cases r) (simp_all add: count_sends_def)
  show ?case
  proof (cases "poll_of i")
    case Idle
    with Cons.prems Cons.IH [of cur brk] show ?thesis
      by (simp add: handler_effects_def handler_input_def chunks_Cons goodbye del: poll_effects.simps)
  next
    case Break
    with Cons.prems show ?thesis by simp
  next
    case (Chunk t)
    show ?thesis
    proof (cases "CHR 0x0A \<in> set t")
      case True
      with Chunk Cons.prems Cons.IH [of "[]" False] show ?thesis
        by (auto simp: handler_effects_def handler_input_def chunks_Cons goodbye Let_def
            simp del: poll_effects.simps)
    next
      case False
      with Chunk Cons.prems Cons.IH [of "cur @ t" False] show ?thesis
        by (simp add: handler_effects_def handler_input_def chunks_Cons goodbye del: poll_effects.simps)
    qed
  qed
qed

lemma chunk_lines_split:
  assumes "\<forall>t \<in> set ts. CHR 0x0A \<notin> set t" "CHR 0x0A \<in> set l"
  shows "chunk_lines cur (ts @ [l]) = [sanitize (cur @ concat ts @ l)]"
  using assms by (induction ts arbitrary: cur) auto

lemma idle_session:
  "list_all (\<lambda>i. \<not> has_data i) is \<Longrightarrow>
   session_effects self cmd inp (polls is) = replicate (length is) (Send self FromUserGetInput) \<and>
   session_input inp (polls is) = inp"
proof (induction "is" arbitrary: inp)
  case Nil
  then show ?case by simp
next
  case (Cons i "is")
  then have "poll_of i = Idle" by (simp add: poll_of_def)
  then have "poll_step inp (poll_of i) = (inp, Again)" by (cases inp) simp
  with Cons show ?case by (simp add: handler_effects_def handler_input_def)
qed

lemma connection_new_ok:
  "0 < conn \<Longrightarrow> connection_ok \<lparr>cn_break_count = 0, cn_command = Some fresh, cn_connection = conn,
     cn_current_input = [], cn_registery_id = r\<rparr>"
  by (simp add: connection_ok_def)

lemma connection_new_full:
  assumes "0 < conn" "all_writes_succeed sk"
  shows "\<exists>sk'. connection_new fresh self welcome conn sk =
      ([Spawn fresh (SpawnCommand self conn), RegistryPut (registery_id self) self],
       Inr (\<lparr>cn_break_count = 0, cn_command = Some fresh, cn_connection = conn,
             cn_current_input = [], cn_registery_id = registery_id self\<rparr>, sk')) \<and>
    all_writes_succeed sk' \<and>
    wire sk' = wire sk @ concat (map (\<lambda>l. l @ CR @ NEWLINE) (BANNER @ [[], welcome, [], []]))"
proof -
  obtain sk1 where 1: "emit_banner sk = (True, sk1)" "all_writes_succeed sk1"
    "wire sk1 = wire sk @ concat (map (\<lambda>l. l @ CR @ NEWLINE) BANNER)"
    using emit_lines_full [OF assms(2), of BANNER] by (auto simp: emit_banner_def)
  with assms(1) show ?thesis
    by (auto simp: connection_new_def Let_def comm_static_def emit_line_full wire_def)
qed

definition fresh_connection :: "actor_id \<Rightarrow> actor_id \<Rightarrow> int \<Rightarrow> connection_actor" where
  "fresh_connection cmd self conn =
     \<lparr>cn_break_count = 0, cn_command = Some cmd, cn_connection = conn,
      cn_current_input = [], cn_registery_id = registery_id self\<rparr>"

lemma fresh_connection_ok: "0 < conn \<Longrightarrow> connection_ok (fresh_connection cmd self conn)"
  by (simp add: fresh_connection_def connection_ok_def)

lemma fresh_connection_input [simp]:
  "input_of (fresh_connection cmd self conn) = ([], False)"
  "cn_command (fresh_connection cmd self conn) = Some cmd"
  by (simp_all add: fresh_connection_def input_of_def)

lemma newline_in: "CHR 0x0A \<in> set (l @ NEWLINE)"
  by (simp add: NEWLINE_def)

lemma polls_run:
  assumes "0 < conn"
  shows "\<exists>st. connection_run self (fresh_connection cmd self conn, sk) (polls is) =
    Inr (st, session_effects self (Some cmd) ([], False) (polls is))"
  using connection_run_session [where self = self and sk = sk,
      OF fresh_connection_ok [OF assms, of cmd self] alive_polls [of "is"]]
  by auto

section \<open>Properties\<close>

text \<open>
  C14: A connection that handles any messages but the goodbye behaves as the input automaton
  \<open>poll_step\<close>: it never fails, its effects are those of the automaton, and when the writes succeed
  the socket carries exactly what was emitted (with line ends) and prompted, in order.
\<close>

theorem connection_refines_session:
  assumes "connection_ok cn" "alive ms"
  shows "\<exists>cn' sk'. connection_run self (cn, sk) ms =
       Inr ((cn', sk'), session_effects self (cn_command cn) (input_of cn) ms) \<and>
     input_of cn' = session_input (input_of cn) ms \<and> connection_ok cn' \<and>
     (all_writes_succeed sk \<longrightarrow> wire sk' = wire sk @ concat (map (\<lambda>im. handler_output (snd im)) ms))"
  using connection_run_session [OF assms, of self sk] by blast

theorem connection_refines_session_witness:
  "let cn = fresh_connection 4 3 7; sk = \<lparr>sk_fd = 7, sk_sent = [], sk_answers = [], sk_closed = False\<rparr>;
       i = \<lparr>in_peek = -1, in_count = -1, in_bytes = []\<rparr>
   in connection_ok cn \<and> (\<exists>cn' sk'. connection_run 3 (cn, sk) [(i, ToUserPrompt ''pmud''), (i, ToUserEmit ''x'')] =
        Inr ((cn', sk'), [Send 3 FromUserGetInput]) \<and> wire sk' = ''pmud> x'' @ CR @ NEWLINE)"
proof -
  let ?cn = "fresh_connection 4 3 7"
  let ?sk = "\<lparr>sk_fd = 7, sk_sent = [], sk_answers = [], sk_closed = False\<rparr>"
  let ?i = "\<lparr>in_peek = -1, in_count = -1, in_bytes = []\<rparr>"
  have ok: "connection_ok ?cn" "alive [(?i, ToUserPrompt ''pmud''), (?i, ToUserEmit ''x'')]"
    by (simp_all add: fresh_connection_ok alive_def)
  from connection_refines_session [OF ok, of 3 ?sk] ok(1) show ?thesis
    by (auto simp: Let_def all_writes_succeed_def wire_def handler_effects_def handler_output_def
        simp del: connection_run.simps)
qed

text \<open>
  C18: Over any polls without a break, the lines that a new connection hands to its command actor
  are the chunks it read, joined up to each chunk that holds a newline and stripped of control
  characters, as long as none of them is quit or exit; the connection then does not end.
\<close>

theorem connection_assembles_lines:
  assumes "0 < conn" "Break \<notin> set (map poll_of is)"
    and "''quit'' \<notin> set (chunk_lines [] (chunks is))" "''exit'' \<notin> set (chunk_lines [] (chunks is))"
  shows "\<exists>st es. connection_run self (fresh_connection cmd self conn, sk) (polls is) = Inr (st, es) \<and>
    input_lines es = chunk_lines [] (chunks is) \<and> count_sends self GoodbyeConnection es = 0"
proof -
  from polls_run [OF assms(1), of self cmd sk "is"] obtain st where
    "connection_run self (fresh_connection cmd self conn, sk) (polls is) =
      Inr (st, session_effects self (Some cmd) ([], False) (polls is))"
    by blast
  with session_polls_lines [OF assms(2-4), of self cmd False] show ?thesis by blast
qed

theorem connection_assembles_lines_witness:
  "let rd = (\<lambda>bs. \<lparr>in_peek = 1, in_count = int (length bs), in_bytes = bs\<rparr>) in
   \<exists>st es. connection_run 3 (fresh_connection 4 3 7, \<lparr>sk_fd = 7, sk_sent = [], sk_answers = [], sk_closed = False\<rparr>)
     (polls [rd [104, 101], rd [108, 112, 13, 10]]) = Inr (st, es) \<and> input_lines es = [''help'']"
proof -
  let ?rd = "\<lambda>bs. \<lparr>in_peek = 1, in_count = int (length bs), in_bytes = bs\<rparr>"
  let ?is = "[?rd [104, 101], ?rd [108, 112, 13, 10]]"
  let ?sk = "\<lparr>sk_fd = 7, sk_sent = [], sk_answers = [], sk_closed = False\<rparr>"
  have conv: "map char_of_byte [104, 101] = ''he''" "map char_of_byte [108, 112, 13, 10] = ''lp'' @ CR @ NEWLINE"
    by code_simp+
  have "poll_of (?rd [104, 101]) = Chunk ''he''"
    "poll_of (?rd [108, 112, 13, 10]) = Chunk (''lp'' @ CR @ NEWLINE)"
    using conv
    by (simp_all add: poll_of_def has_data_def read_from_user_eq sys_input_ok_def BUFFER_MAX_READ_def
        telnet_command_def keeps_byte_def)
  then have polls: "Break \<notin> set (map poll_of ?is)" "chunks ?is = [''he'', ''lp'' @ CR @ NEWLINE]"
    by (simp_all add: chunks_def)
  have "sanitize (''help'' @ CR @ NEWLINE) = ''help''" by code_simp
  with polls(2) have lines: "chunk_lines [] (chunks ?is) = [''help'']"
    by (simp add: CR_def NEWLINE_def)
  show ?thesis
    using connection_assembles_lines [of 7 ?is, OF _ polls(1), of 3 4 ?sk] lines by auto
qed

text \<open>
  However a line is cut into reads, it arrives whole: polls whose chunks hold no newline,
  followed by one that ends with a newline, hand over the one line that is their concatenation.
\<close>

theorem connection_split_independent:
  assumes "0 < conn" "map poll_of is = map Chunk (ts @ [l @ NEWLINE])"
    and "\<forall>t \<in> set ts. CHR 0x0A \<notin> set t"
    and "sanitize (concat ts @ l) \<noteq> ''quit''" "sanitize (concat ts @ l) \<noteq> ''exit''"
  shows "\<exists>st es. connection_run self (fresh_connection cmd self conn, sk) (polls is) = Inr (st, es) \<and>
    input_lines es = [sanitize (concat ts @ l)]"
proof -
  have "chunks is = concat (map (\<lambda>p. case p of Chunk t \<Rightarrow> [t] | _ \<Rightarrow> []) (map poll_of is))"
    by (simp add: chunks_def comp_def)
  then have "chunks is = ts @ [l @ NEWLINE]" by (simp add: assms(2) comp_def)
  then have lines: "chunk_lines [] (chunks is) = [sanitize (concat ts @ l)]"
    using chunk_lines_split [OF assms(3), of "l @ NEWLINE" "[]"] newline_in by simp
  from polls_run [OF assms(1), of self cmd sk "is"] obtain st where
    "connection_run self (fresh_connection cmd self conn, sk) (polls is) =
      Inr (st, session_effects self (Some cmd) ([], False) (polls is))"
    by blast
  moreover have "Break \<notin> set (map poll_of is)" unfolding assms(2) by auto
  ultimately show ?thesis
    using session_polls_lines [of "is" "[]" self cmd False] lines assms(4,5) by auto
qed

theorem connection_split_independent_witness:
  "let rd = (\<lambda>bs. \<lparr>in_peek = 1, in_count = int (length bs), in_bytes = bs\<rparr>) in
   \<exists>st es. connection_run 3 (fresh_connection 4 3 7, \<lparr>sk_fd = 7, sk_sent = [], sk_answers = [], sk_closed = False\<rparr>)
     (polls [rd [97], rd [98, 10]]) = Inr (st, es) \<and> input_lines es = [''ab'']"
proof -
  let ?rd = "\<lambda>bs. \<lparr>in_peek = 1, in_count = int (length bs), in_bytes = bs\<rparr>"
  let ?sk = "\<lparr>sk_fd = 7, sk_sent = [], sk_answers = [], sk_closed = False\<rparr>"
  have conv: "map char_of_byte [97] = ''a''" "map char_of_byte [98, 10] = ''b'' @ NEWLINE"
    by code_simp+
  have polls: "map poll_of [?rd [97], ?rd [98, 10]] = map Chunk ([''a''] @ [''b'' @ NEWLINE])"
    using conv
    by (simp add: poll_of_def has_data_def read_from_user_eq sys_input_ok_def BUFFER_MAX_READ_def
        telnet_command_def keeps_byte_def)
  have "sanitize ''ab'' = ''ab''" by code_simp
  with connection_split_independent [OF _ polls, of 7 3 4 ?sk] show ?thesis by simp
qed

text \<open>
  Two lines that arrive in one read are handed over as one: the newlines between them
  are stripped and nothing is split.
\<close>

theorem connection_merges_lines:
  assumes "0 < conn" "poll_of i = Chunk (a @ NEWLINE @ b @ NEWLINE)"
    and "\<forall>c \<in> set a. printable c" "\<forall>c \<in> set b. printable c" "a @ b \<noteq> ''quit''" "a @ b \<noteq> ''exit''"
  shows "\<exists>st es. connection_run self (fresh_connection cmd self conn, sk) (polls [i]) = Inr (st, es) \<and>
    sends es = [(cmd, OnUserInput (a @ b)), (self, FromUserGetInput)]"
proof -
  have "sanitize (a @ NEWLINE @ b @ NEWLINE) = a @ b"
    using assms(3,4) by (simp add: sanitize_id)
  moreover have "CHR 0x0A \<in> set (a @ NEWLINE @ b @ NEWLINE)" by (simp add: NEWLINE_def)
  ultimately have "session_effects self (Some cmd) ([], False) (polls [i]) =
      [Send cmd (OnUserInput (a @ b)), Send self FromUserGetInput]"
    using assms(2,5,6) by (simp add: handler_effects_def Let_def)
  with polls_run [OF assms(1), of self cmd sk "[i]"] show ?thesis by (auto simp del: connection_run.simps)
qed

theorem connection_merges_lines_witness:
  "let i = \<lparr>in_peek = 4, in_count = 4, in_bytes = [97, 10, 98, 10]\<rparr>;
       sk = \<lparr>sk_fd = 7, sk_sent = [], sk_answers = [], sk_closed = False\<rparr>
   in \<exists>st es. connection_run 3 (fresh_connection 4 3 7, sk) (polls [i]) = Inr (st, es) \<and>
        sends es = [(4, OnUserInput ''ab''), (3, FromUserGetInput)]"
proof -
  let ?i = "\<lparr>in_peek = 4, in_count = 4, in_bytes = [97, 10, 98, 10]\<rparr>"
  have "map char_of_byte [97, 10, 98, 10] = ''a'' @ NEWLINE @ ''b'' @ NEWLINE" by code_simp
  then have "poll_of ?i = Chunk (''a'' @ NEWLINE @ ''b'' @ NEWLINE)"
    by (simp add: poll_of_def has_data_def read_from_user_eq sys_input_ok_def BUFFER_MAX_READ_def
        telnet_command_def keeps_byte_def)
  moreover have "printable (CHR ''a'')" "printable (CHR ''b'')" by code_simp+
  ultimately show ?thesis
    using connection_merges_lines [of 7 ?i "''a''" "''b''" 3 4] by (simp del: connection_run.simps)
qed

text \<open>
  Polling never stops and piles up: over any messages but the goodbye, the number of poll and
  goodbye messages that a connection sends to itself is the number of polls it handled plus the
  number of prompts it wrote, so each prompt adds one more poll that is answered for ever.
\<close>

theorem connection_polls_accumulate:
  assumes "connection_ok cn" "alive ms"
  shows "\<exists>st es. connection_run self (cn, sk) ms = Inr (st, es) \<and>
    count_sends self FromUserGetInput es + count_sends self GoodbyeConnection es =
      count_handled is_prompt ms + count_handled (\<lambda>m. m = FromUserGetInput) ms"
  using connection_run_session [OF assms, of self sk] session_polls [OF assms(2)] by blast

theorem connection_polls_accumulate_witness:
  "let sk = \<lparr>sk_fd = 7, sk_sent = [], sk_answers = [], sk_closed = False\<rparr>;
       i = \<lparr>in_peek = -1, in_count = -1, in_bytes = []\<rparr>;
       ms = [(i, ToUserPrompt ''a''), (i, FromUserGetInput), (i, ToUserPrompt ''b'')]
   in \<exists>st es. connection_run 3 (fresh_connection 4 3 7, sk) ms = Inr (st, es) \<and>
        count_sends 3 FromUserGetInput es + count_sends 3 GoodbyeConnection es = 3"
proof -
  let ?i = "\<lparr>in_peek = -1, in_count = -1, in_bytes = []\<rparr>"
  let ?sk = "\<lparr>sk_fd = 7, sk_sent = [], sk_answers = [], sk_closed = False\<rparr>"
  let ?ms = "[(?i, ToUserPrompt ''a''), (?i, FromUserGetInput), (?i, ToUserPrompt ''b'')]"
  have "connection_ok (fresh_connection 4 3 7)" "alive ?ms"
    by (simp_all add: fresh_connection_ok alive_def)
  from connection_polls_accumulate [OF this, of 3 ?sk] show ?thesis
    by (simp add: count_handled_def is_prompt_def Let_def eval_nat_numeral del: connection_run.simps)
qed

text \<open>
  Polls do not notice a peer that has gone: \<open>recv\<close> answers 0 at the end of the stream, which counts
  as no data, so any number of polls only re-arm themselves and no goodbye is sent.
\<close>

theorem connection_ignores_closed_peer:
  assumes "connection_ok cn" "list_all (\<lambda>i. in_peek i \<le> 0) is"
  shows "\<exists>cn' sk'. connection_run self (cn, sk) (polls is) =
      Inr ((cn', sk'), replicate (length is) (Send self FromUserGetInput)) \<and> input_of cn' = input_of cn"
proof -
  have "list_all (\<lambda>i. \<not> has_data i) is" using assms(2) by (simp add: has_data_def not_less)
  from idle_session [OF this, of self "cn_command cn" "input_of cn"]
    connection_run_session [OF assms(1) alive_polls, of self sk "is"]
  show ?thesis by auto
qed

theorem connection_ignores_closed_peer_witness:
  "let sk = \<lparr>sk_fd = 7, sk_sent = [], sk_answers = [], sk_closed = False\<rparr>;
       eof = \<lparr>in_peek = 0, in_count = 0, in_bytes = []\<rparr>
   in \<exists>cn' sk'. connection_run 3 (fresh_connection 4 3 7, sk) (polls [eof, eof]) =
        Inr ((cn', sk'), [Send 3 FromUserGetInput, Send 3 FromUserGetInput]) \<and> input_of cn' = ([], False)"
proof -
  let ?eof = "\<lparr>in_peek = 0, in_count = 0, in_bytes = []\<rparr>"
  let ?sk = "\<lparr>sk_fd = 7, sk_sent = [], sk_answers = [], sk_closed = False\<rparr>"
  have "connection_ok (fresh_connection 4 3 7)" "list_all (\<lambda>i. in_peek i \<le> 0) [?eof, ?eof]"
    by (simp_all add: fresh_connection_ok)
  from connection_ignores_closed_peer [OF this, of 3 ?sk] show ?thesis
    by (simp add: Let_def numeral_2_eq_2 del: connection_run.simps)
qed

text \<open>
  A new connection greets and registers: on a valid descriptor whose writes succeed, the socket
  carries the banner, an empty line, the welcome and two empty lines; a command actor is spawned
  and the actor is registered under its own name.
\<close>

theorem connection_welcomes:
  assumes "0 < conn" "all_writes_succeed sk"
  shows "\<exists>sk'. connection_new fresh self welcome conn sk =
      ([Spawn fresh (SpawnCommand self conn), RegistryPut (registery_id self) self],
       Inr (fresh_connection fresh self conn, sk')) \<and>
    wire sk' = wire sk @ concat (map (\<lambda>l. l @ CR @ NEWLINE) (BANNER @ [[], welcome, [], []]))"
  using connection_new_full [OF assms, of fresh self "welcome"] by (auto simp: fresh_connection_def)

theorem connection_welcomes_witness:
  "let sk = \<lparr>sk_fd = 7, sk_sent = [], sk_answers = [], sk_closed = False\<rparr>
   in \<exists>sk'. snd (connection_new 4 3 ''hello'' 7 sk) = Inr (fresh_connection 4 3 7, sk') \<and>
        wire sk' = concat (map (\<lambda>l. l @ CR @ NEWLINE) (BANNER @ [[], ''hello'', [], []]))"
proof -
  let ?sk = "\<lparr>sk_fd = 7, sk_sent = [], sk_answers = [], sk_closed = False\<rparr>"
  have "all_writes_succeed ?sk" "(0::int) < 7" by (simp_all add: all_writes_succeed_def)
  moreover have "wire ?sk = []" by (simp add: wire_def)
  ultimately show ?thesis
    using connection_welcomes [of 7 ?sk 4 3 "''hello''"] by (metis append_Nil snd_conv)
qed

text \<open>
  The goodbye writes its two lines, closes the socket, removes exactly the name under which
  the constructor registered the actor and asks the actor to exit; nothing else happens.
\<close>

theorem connection_says_goodbye:
  assumes "0 < conn" "all_writes_succeed sk"
  shows "\<exists>sk'. connection_handle self i (fresh_connection cmd self conn, sk) GoodbyeConnection =
      Inr ((fresh_connection cmd self conn, sk'), [RegistryErase (registery_id self), SendExit (Some self)]) \<and>
    sk_closed sk' \<and> wire sk' = wire sk @ CR @ NEWLINE @ ''Goodbye!'' @ CR @ NEWLINE"
  using assms
  by (simp add: connection_handle_def goodbye_connection_def fresh_connection_def comm_static_def
      emit_line_full wire_def)

theorem connection_says_goodbye_witness:
  "let sk = \<lparr>sk_fd = 7, sk_sent = [], sk_answers = [], sk_closed = False\<rparr>;
       i = \<lparr>in_peek = -1, in_count = -1, in_bytes = []\<rparr>
   in \<exists>sk'. connection_handle 3 i (fresh_connection 4 3 7, sk) GoodbyeConnection =
        Inr ((fresh_connection 4 3 7, sk'), [RegistryErase (registery_id 3), SendExit (Some 3)]) \<and> sk_closed sk'"
proof -
  let ?sk = "\<lparr>sk_fd = 7, sk_sent = [], sk_answers = [], sk_closed = False\<rparr>"
  have "all_writes_succeed ?sk" "(0::int) < 7" by (simp_all add: all_writes_succeed_def)
  then show ?thesis using connection_says_goodbye [of 7 ?sk 3 _ 4] by (auto simp: Let_def)
qed

end
