(* ===== verification/Server_Actor.thy ===== *)
theory Server_Actor
  imports Messages
begin

text \<open>
  \<open>ServerActor\<close>, \<^verbatim>\<open>pmud/src/pnet/server_actor.h\<close>, with the configuration record of
  \<^verbatim>\<open>pmud/src/system/mud_config.h\<close>: it opens the listening socket, accepts connections by a
  message that it sends to itself again and again, and closes the socket. What the socket calls
  return is data of the environment.
\<close>

section \<open>Configuration\<close>

record mud_config =
  mc_name :: string
  mc_address :: string
  mc_port :: "16 word"
  mc_max_queued_connections :: "16 word"
  mc_log_name :: string
  mc_log_level :: string
  mc_log_filename :: string
  mc_log_truncate :: bool

text \<open>The services of \<open>MudSystem\<close> that the actors use.\<close>

record mud_system =
  ms_config :: mud_config
  ms_storage_actor :: actor_id
  ms_event_recorder_actor :: actor_id

section \<open>The environment\<close>

text \<open>Answers of \<open>socket\<close>, \<open>bind\<close> and \<open>listen\<close>, and \<open>errno\<close> where the handler returns it.\<close>

record start_env =
  se_socket :: int
  se_bind :: int
  se_listen :: int
  se_errno :: int

definition server_welcome :: "mud_config \<Rightarrow> string" where
  "server_welcome cfg = ''Welcome to '' @ mc_name cfg @ [CHR 0x0A] @ ''Version 0.1''"

section \<open>The address of the socket\<close>

text \<open>
  \<open>sockaddr_in\<close> with its fields as the machine reads them from memory, and \<open>initialize_sockaddr\<close> of
  \<^verbatim>\<open>pmud/src/common/util.h\<close> over the conversion \<open>inet_aton\<close> of the system, which leaves the address alone when
  the text is not an address. \<open>htons\<close> swaps the bytes on a little-endian machine.
\<close>

record sockaddr_in =
  sin_family :: "16 word"
  sin_addr :: u32
  sin_port :: "16 word"
  sin_zero :: "byte list"

definition AF_INET :: "16 word" where "AF_INET = 2"

definition htons :: "16 word \<Rightarrow> 16 word" where
  "htons p = or (push_bit 8 p) (drop_bit 8 p)"

definition initialize_sockaddr ::
  "(string \<Rightarrow> u32 option) \<Rightarrow> string \<Rightarrow> 16 word \<Rightarrow> sockaddr_in \<Rightarrow> sockaddr_in" where
  "initialize_sockaddr inet_aton address port sa =
     (let sa = sa\<lparr>sin_family := AF_INET\<rparr>;
          sa = (case inet_aton (c_str address) of
                  None \<Rightarrow> sa | Some a \<Rightarrow> sa\<lparr>sin_addr := a\<rparr>);
          sa = sa\<lparr>sin_port := htons port\<rparr>
      in sa\<lparr>sin_zero := replicate 8 0\<rparr>)"

text \<open>The bytes of a port in memory, the lower one first; the network reads the higher one first.\<close>

definition port_bytes :: "16 word \<Rightarrow> byte list" where
  "port_bytes p = [ucast p, ucast (drop_bit 8 p)]"

lemma htons_htons: "htons (htons p) = p"
  by (rule bit_word_eqI) (auto simp: htons_def bit_simps)

lemma htons_bytes: "port_bytes (htons p) = [ucast (drop_bit 8 p), ucast p]"
  unfolding port_bytes_def htons_def
  by (simp, intro conjI; rule bit_word_eqI) (auto simp: bit_simps)

text \<open>
  Whatever the variable held before, the port is sent in network order and padded with zeros; the address
  is the configured one exactly when its text is an address, and otherwise what the variable held.
\<close>

lemma initialize_sockaddr_fields:
  assumes "r = initialize_sockaddr inet_aton address port sa"
  shows "sin_family r = AF_INET" "port_bytes (sin_port r) = [ucast (drop_bit 8 port), ucast port]"
    "sin_zero r = replicate 8 0"
    "sin_addr r = (case inet_aton (c_str address) of None \<Rightarrow> sin_addr sa | Some a \<Rightarrow> a)"
  by (simp_all add: assms initialize_sockaddr_def Let_def htons_bytes split: option.split)

section \<open>The handlers\<close>

text \<open>
  The actor keeps \<open>m_sockfd\<close>; \<open>sv_closed\<close> is the list of descriptors on which it has called
  \<open>close\<close>.
\<close>

record server_actor =
  sv_sockfd :: int
  sv_mud :: mud_system
  sv_closed :: "int list"

definition server_new :: "mud_system \<Rightarrow> server_actor" where
  "server_new mud = \<lparr>sv_sockfd = 0, sv_mud = mud, sv_closed = []\<rparr>"

definition start_server_handler ::
  "actor_id \<Rightarrow> start_env \<Rightarrow> server_actor \<Rightarrow> (server_actor \<times> int) \<times> effect list" where
  "start_server_handler self e sv =
     (let sv = sv\<lparr>sv_sockfd := se_socket e\<rparr> in
      if sv_sockfd sv = -1 then ((sv, se_errno e), [])
      else if se_bind e < 0 then ((sv, se_errno e), [])
      else if se_listen e < 0 then ((sv, se_errno e), [])
      else ((sv, 0), [Send self AcceptConnection]))"

definition accept_handler ::
  "actor_id \<Rightarrow> actor_id \<Rightarrow> int \<Rightarrow> server_actor \<Rightarrow> server_actor \<times> effect list" where
  "accept_handler fresh self c_id sv =
     (if sv_sockfd sv \<le> 0 then (sv, [])
      else (sv,
        (if c_id = -1 then []
         else [Spawn fresh (SpawnConnection (server_welcome (ms_config (sv_mud sv))) c_id),
               Send fresh PerformWelcome]) @
        [Send self AcceptConnection]))"

definition goodbye_server_handler :: "actor_id \<Rightarrow> server_actor \<Rightarrow> (server_actor \<times> bool) \<times> effect list" where
  "goodbye_server_handler self sv =
     ((sv\<lparr>sv_closed := sv_closed sv @ [sv_sockfd sv], sv_sockfd := 0\<rparr>, True),
      [SendExit (Some self)])"

definition server_handle ::
  "actor_id \<Rightarrow> actor_id \<Rightarrow> start_env \<Rightarrow> int \<Rightarrow> server_actor \<Rightarrow> message \<Rightarrow> server_actor \<times> effect list" where
  "server_handle fresh self e c_id sv msg =
     (case msg of
        StartServer \<Rightarrow> (case start_server_handler self e sv of ((sv', _), es) \<Rightarrow> (sv', es))
      | AcceptConnection \<Rightarrow> accept_handler fresh self c_id sv
      | GoodbyeServer \<Rightarrow> (case goodbye_server_handler self sv of ((sv', _), es) \<Rightarrow> (sv', es))
      | _ \<Rightarrow> (sv, []))"

lemmas server_defs [actor_defs] =
  server_handle_def start_server_handler_def accept_handler_def goodbye_server_handler_def

text \<open>The accept loop: the \<open>i\<close>th turn gets a fresh id and the answer of \<open>accept\<close>.\<close>

fun accept_run :: "actor_id \<Rightarrow> server_actor \<Rightarrow> (actor_id \<times> int) list \<Rightarrow> server_actor \<times> effect list" where
  "accept_run self sv [] = (sv, [])"
| "accept_run self sv ((fresh, c) # cs) =
     (let (sv1, es) = accept_handler fresh self c sv; (sv2, fs) = accept_run self sv1 cs
      in (sv2, es @ fs))"

definition spawned :: "effect list \<Rightarrow> (actor_id \<times> string \<times> int) list" where
  "spawned es =
     concat (map (\<lambda>e. case e of Spawn a (SpawnConnection w c) \<Rightarrow> [(a, w, c)] | _ \<Rightarrow> []) es)"

lemma spawned_append [simp]: "spawned (es @ fs) = spawned es @ spawned fs"
  by (simp add: spawned_def)

lemma accept_run_open:
  "0 < sv_sockfd sv \<Longrightarrow> fst (accept_run self sv cs) = sv \<and>
   spawned (snd (accept_run self sv cs)) =
     map (\<lambda>(a, c). (a, server_welcome (ms_config (sv_mud sv)), c)) (filter (\<lambda>(a, c). c \<noteq> -1) cs) \<and>
   length (filter (\<lambda>e. e = Send self AcceptConnection) (snd (accept_run self sv cs))) = length cs"
proof (induction cs)
  case Nil
  then show ?case by (simp add: spawned_def)
next
  case (Cons fc cs)
  obtain fresh c where fc: "fc = (fresh, c)" by (cases fc)
  from Cons show ?case
    by (cases "accept_run self sv cs") (auto simp: fc accept_handler_def spawned_def)
qed

lemma accept_run_closed:
  "sv_sockfd sv \<le> 0 \<Longrightarrow> accept_run self sv cs = (sv, [])"
  by (induction cs) (auto simp: accept_handler_def)

section \<open>Properties\<close>

text \<open>
  Starting the server either reports 0, opens the accept loop with exactly one message to
  itself and keeps a descriptor, or reports the error number and sends nothing; when it was \<open>bind\<close>
  or \<open>listen\<close> that failed, the opened descriptor is kept and never closed.
\<close>

theorem server_start_outcome:
  "case start_server_handler self e (server_new mud) of ((sv, status), es) \<Rightarrow>
     sv_sockfd sv = se_socket e \<and> sv_closed sv = [] \<and>
     (if se_socket e \<noteq> -1 \<and> 0 \<le> se_bind e \<and> 0 \<le> se_listen e
      then status = 0 \<and> es = [Send self AcceptConnection]
      else status = se_errno e \<and> es = [])"
  by (auto simp: start_server_handler_def server_new_def Let_def split: prod.split)

text \<open>
  While the server's socket is open, every turn of the accept loop sends exactly one next turn,
  and one connection is spawned for each descriptor that \<open>accept\<close> answers, in order, with the
  welcome of the configuration; a failed accept spawns none.
\<close>

theorem server_accepts_each:
  assumes "0 < sv_sockfd sv"
  shows "spawned (snd (accept_run self sv cs)) =
      map (\<lambda>(a, c). (a, server_welcome (ms_config (sv_mud sv)), c)) (filter (\<lambda>(a, c). c \<noteq> -1) cs) \<and>
    length (filter (\<lambda>e. e = Send self AcceptConnection) (snd (accept_run self sv cs))) = length cs"
  using accept_run_open [OF assms] by simp

definition example_config :: mud_config where
  "example_config =
     \<lparr>mc_name = ''Primordia'', mc_address = ''0.0.0.0'', mc_port = 8888, mc_max_queued_connections = 10,
      mc_log_name = ''console'', mc_log_level = ''info'', mc_log_filename = '''', mc_log_truncate = True\<rparr>"

theorem server_accepts_each_witness:
  "let sv = \<lparr>sv_sockfd = 3, sv_mud = \<lparr>ms_config = example_config, ms_storage_actor = 1,
        ms_event_recorder_actor = 2\<rparr>, sv_closed = []\<rparr>
   in map (\<lambda>(a, w, c). (a, c)) (spawned (snd (accept_run 5 sv [(6, -1), (6, 8), (9, 7)]))) = [(6, 8), (9, 7)]"
  using server_accepts_each [of "\<lparr>sv_sockfd = 3, sv_mud = \<lparr>ms_config = example_config, ms_storage_actor = 1,
        ms_event_recorder_actor = 2\<rparr>, sv_closed = []\<rparr>" 5 "[(6, -1), (6, 8), (9, 7)]"]
  by (simp add: Let_def del: accept_run.simps)

text \<open>
  The goodbye closes the listening descriptor and stops the accept loop: any accept messages
  still in the mailbox spawn nothing and send nothing, whatever \<open>accept\<close> would answer.
\<close>

theorem server_stops:
  "case goodbye_server_handler self sv of ((sv', ok), es) \<Rightarrow>
     ok \<and> es = [SendExit (Some self)] \<and> sv_closed sv' = sv_closed sv @ [sv_sockfd sv] \<and>
     accept_run self sv' cs = (sv', [])"
  by (simp add: goodbye_server_handler_def accept_run_closed)

end
