(* ===== verification/Mud_System.thy ===== *)
theory Mud_System
  imports Controllers Connection_Actor Server_Actor
begin

text \<open>
  The actors together: a world holds every actor's members and mailbox and the registry of named
  actors, and a step lets one actor take one message from its mailbox. The runtime is the actor
  framework's: mailboxes are first in first out, one message is handled at a time, an exit message
  ends the actor after the messages before it, messages to an ended actor are dropped, and an
  exception ends the actor. The main thread's shutdown (\<^verbatim>\<open>pmud/main.cpp\<close>) may happen at any time.
\<close>

section \<open>Worlds\<close>

datatype 's actor =
    Server server_actor
  | Connection connection_actor socket
  | Command command_actor
  | Login login_controller
  | Default actor_id
  | Recorder actor_id
  | Storing "'s option"

datatype kind = KServer | KConnection | KCommand | KLogin | KDefault | KRecorder | KStoring

fun kind_of :: "'s actor \<Rightarrow> kind" where
  "kind_of (Server _) = KServer"
| "kind_of (Connection _ _) = KConnection"
| "kind_of (Command _) = KCommand"
| "kind_of (Login _) = KLogin"
| "kind_of (Default _) = KDefault"
| "kind_of (Recorder _) = KRecorder"
| "kind_of (Storing _) = KStoring"

datatype mail = Msg message | ExitMsg

text \<open>
  \<open>w_kinds\<close> remembers the kind with which an id was spawned, also after the actor has ended: the
  statements about who may send what to whom use it, no handler reads it.
\<close>

record 's world =
  w_actors :: "actor_id \<Rightarrow> 's actor option"
  w_mail :: "actor_id \<Rightarrow> mail list"
  w_kinds :: "actor_id \<Rightarrow> kind option"
  w_next :: actor_id
  w_registry :: "actor_id smap"
  w_failed :: "fault list"

text \<open>What one step finds in its environment.\<close>

record step_env =
  ev_input :: sys_input
  ev_crypto :: crypto_env
  ev_start :: start_env
  ev_accept :: int
  ev_answers :: "int list"

text \<open>\<open>accept\<close> answers \<open>-1\<close> or a new descriptor, which is not the open standard input.\<close>

definition step_env_ok :: "step_env \<Rightarrow> bool" where
  "step_env_ok e \<longleftrightarrow> ev_accept e = -1 \<or> 0 < ev_accept e"

section \<open>Effects\<close>

definition post :: "actor_id \<Rightarrow> mail \<Rightarrow> 's world \<Rightarrow> 's world" where
  "post b x w =
     (if w_actors w b = None then w else w\<lparr>w_mail := (w_mail w)(b := w_mail w b @ [x])\<rparr>)"

definition birth :: "actor_id \<Rightarrow> 's actor \<Rightarrow> 's world \<Rightarrow> 's world" where
  "birth a st w =
     w\<lparr>w_actors := (w_actors w)(a := Some st), w_mail := (w_mail w)(a := []),
       w_kinds := (w_kinds w)(a := Some (kind_of st)), w_next := max (w_next w) (Suc a)\<rparr>"

definition run_effect ::
  "(actor_id \<Rightarrow> spawn_request \<Rightarrow> 's world \<Rightarrow> 's world) \<Rightarrow> 's world \<Rightarrow> effect \<Rightarrow> 's world" where
  "run_effect spawn w e =
     (case e of
        Send b m \<Rightarrow> post b (Msg m) w
      | SendNull m \<Rightarrow> w
      | SendExit None \<Rightarrow> w
      | SendExit (Some b) \<Rightarrow> post b ExitMsg w
      | Spawn a r \<Rightarrow> spawn a r w
      | RegistryPut n b \<Rightarrow> w\<lparr>w_registry := smap_put n b (w_registry w)\<rparr>
      | RegistryErase n \<Rightarrow> w\<lparr>w_registry := smap_erase n (w_registry w)\<rparr>)"

text \<open>
  The constructors. A constructor that spawns gives its child the next id: a connection is created
  with its command actor, and that one with its default controller.
\<close>

definition spawn_controller :: "mud_system \<Rightarrow> actor_id \<Rightarrow> spawn_request \<Rightarrow> 's world \<Rightarrow> 's world" where
  "spawn_controller mud a r w =
     (case r of
        SpawnDefault c \<Rightarrow> birth a (Default c) w
      | SpawnLogin c \<Rightarrow> birth a (Login (login_new (ms_event_recorder_actor mud) c)) w
      | _ \<Rightarrow> w)"

definition spawn_command :: "mud_system \<Rightarrow> actor_id \<Rightarrow> spawn_request \<Rightarrow> 's world \<Rightarrow> 's world" where
  "spawn_command mud a r w =
     (case r of
        SpawnCommand c n \<Rightarrow>
          (let (ca, es) = command_new (Suc a) a c n
           in birth a (Command ca) (foldl (run_effect (spawn_controller mud)) w es))
      | _ \<Rightarrow> spawn_controller mud a r w)"

definition new_socket :: "int \<Rightarrow> int list \<Rightarrow> socket" where
  "new_socket c answers = \<lparr>sk_fd = c, sk_sent = [], sk_answers = answers, sk_closed = False\<rparr>"

definition spawn_actor ::
  "mud_system \<Rightarrow> int list \<Rightarrow> actor_id \<Rightarrow> spawn_request \<Rightarrow> 's world \<Rightarrow> 's world" where
  "spawn_actor mud answers a r w =
     (case r of
        SpawnConnection wl c \<Rightarrow>
          (let (es, res) = connection_new (Suc a) a wl c (new_socket c answers);
               w1 = foldl (run_effect (spawn_command mud)) w es
           in (case res of
                 Inl f \<Rightarrow> w1\<lparr>w_failed := f # w_failed w1\<rparr>
               | Inr (cn, sk) \<Rightarrow> birth a (Connection cn sk) w1))
      | _ \<Rightarrow> spawn_command mud a r w)"

definition run_effects :: "mud_system \<Rightarrow> step_env \<Rightarrow> 's world \<Rightarrow> effect list \<Rightarrow> 's world" where
  "run_effects mud e w es = foldl (run_effect (spawn_actor mud (ev_answers e))) w es"

section \<open>Handling one message\<close>

definition handle_actor ::
  "'s storage_ops \<Rightarrow> step_env \<Rightarrow> actor_id \<Rightarrow> actor_id \<Rightarrow> 's actor \<Rightarrow> message \<Rightarrow>
   fault + 's actor \<times> effect list" where
  "handle_actor ops e fresh self st m =
     (case st of
        Server sv \<Rightarrow>
          (let (sv', es) = server_handle fresh self (ev_start e) (ev_accept e) sv m
           in Inr (Server sv', es))
      | Connection cn sk \<Rightarrow>
          bindE (connection_handle self (ev_input e) (cn, sk) m)
            (\<lambda>((cn', sk'), es). Inr (Connection cn' sk', es))
      | Command ca \<Rightarrow> (let (ca', es) = command_handle fresh self ca m in Inr (Command ca', es))
      | Login lc \<Rightarrow> (let (lc', es) = login_handle (ev_crypto e) lc m in Inr (Login lc', es))
      | Default c \<Rightarrow> Inr (Default c, default_handle c m)
      | Recorder s \<Rightarrow> Inr (Recorder s, event_recorder_handle s m)
      | Storing s \<Rightarrow> bindE (storage_actor_handle ops s m) (\<lambda>(s', r). Inr (Storing s', [])))"

text \<open>The attached functions that run when an actor ends.\<close>

definition exit_effects :: "'s actor \<Rightarrow> effect list" where
  "exit_effects st =
     (case st of
        Connection cn sk \<Rightarrow> snd (connection_exit cn)
      | Command ca \<Rightarrow> snd (command_exit ca)
      | _ \<Rightarrow> [])"

definition end_actor :: "mud_system \<Rightarrow> step_env \<Rightarrow> actor_id \<Rightarrow> 's actor \<Rightarrow> 's world \<Rightarrow> 's world" where
  "end_actor mud e a st w =
     run_effects mud e
       (w\<lparr>w_actors := (w_actors w)(a := None), w_mail := (w_mail w)(a := [])\<rparr>) (exit_effects st)"

text \<open>
  The members change and the effects take place while the actor holds its turn: no other actor
  sees the one without the other.
\<close>

definition deliver ::
  "'s storage_ops \<Rightarrow> mud_system \<Rightarrow> step_env \<Rightarrow> actor_id \<Rightarrow> 's actor \<Rightarrow> message \<Rightarrow> 's world \<Rightarrow> 's world" where
  "deliver ops mud e a st m w =
     (case handle_actor ops e (w_next w) a st m of
        Inl f \<Rightarrow> end_actor mud e a st (w\<lparr>w_failed := f # w_failed w\<rparr>)
      | Inr (st', es) \<Rightarrow>
          (let w' = run_effects mud e w es in w'\<lparr>w_actors := (w_actors w')(a := Some st')\<rparr>))"

section \<open>The main thread's shutdown\<close>

text \<open>\<open>regex_match\<close> with \<open>Connection\([0-9]+\)\<close>\<close>

definition connection_regex_match :: "string \<Rightarrow> bool" where
  "connection_regex_match s \<longleftrightarrow>
     take 11 s = ''Connection('' \<and> 12 < length s \<and> last s = CHR '')'' \<and>
     list_all is_digit (butlast (drop 11 s))"

definition quit_connection_actors :: "actor_id smap \<Rightarrow> effect list" where
  "quit_connection_actors registry =
     concat (map (\<lambda>(name, a). if connection_regex_match name then [Send a GoodbyeConnection] else [])
       registry)"

section \<open>Steps\<close>

text \<open>The ids that \<open>caf_main\<close> and \<open>run\<close> give out first.\<close>

definition STORAGE_ID :: actor_id where "STORAGE_ID = 1"
definition RECORDER_ID :: actor_id where "RECORDER_ID = 2"
definition SERVER_ID :: actor_id where "SERVER_ID = 3"

definition mud_of :: "mud_config \<Rightarrow> mud_system" where
  "mud_of cfg =
     \<lparr>ms_config = cfg, ms_storage_actor = STORAGE_ID, ms_event_recorder_actor = RECORDER_ID\<rparr>"

definition start_world :: "mud_config \<Rightarrow> 's option \<Rightarrow> 's world" where
  "start_world cfg s =
     post SERVER_ID (Msg StartServer)
       (birth SERVER_ID (Server (server_new (mud_of cfg)))
         (birth RECORDER_ID (Recorder STORAGE_ID)
           (birth STORAGE_ID (Storing s)
             \<lparr>w_actors = (\<lambda>_. None), w_mail = (\<lambda>_. []), w_kinds = (\<lambda>_. None), w_next = 1,
              w_registry = [], w_failed = []\<rparr>)))"

inductive step :: "'s storage_ops \<Rightarrow> mud_config \<Rightarrow> 's world \<Rightarrow> 's world \<Rightarrow> bool"
  for ops cfg where
  step_message:
    "w_actors w a = Some st \<Longrightarrow> w_mail w a = Msg m # rest \<Longrightarrow> step_env_ok e \<Longrightarrow>
     step ops cfg w (deliver ops (mud_of cfg) e a st m (w\<lparr>w_mail := (w_mail w)(a := rest)\<rparr>))"
| step_exit:
    "w_actors w a = Some st \<Longrightarrow> w_mail w a = ExitMsg # rest \<Longrightarrow>
     step ops cfg w (end_actor (mud_of cfg) e a st w)"
| step_quit:
    "step ops cfg w (run_effects (mud_of cfg) e w (quit_connection_actors (w_registry w)))"
| step_kill_server:
    "step ops cfg w (post SERVER_ID (Msg GoodbyeServer) w)"

inductive reachable :: "'s storage_ops \<Rightarrow> mud_config \<Rightarrow> 's option \<Rightarrow> 's world \<Rightarrow> bool"
  for ops cfg s where
  reachable_start: "reachable ops cfg s (start_world cfg s)"
| reachable_step: "reachable ops cfg s w \<Longrightarrow> step ops cfg w w' \<Longrightarrow> reachable ops cfg s w'"

inductive_cases step_cases: "step ops cfg w w'"

section \<open>Who may send what to whom\<close>

text \<open>The messages for which the behaviour of a kind of actor has a handler.\<close>

definition handled_by :: "kind \<Rightarrow> message \<Rightarrow> bool" where
  "handled_by k m =
     (case k of
        KServer \<Rightarrow> (case m of StartServer \<Rightarrow> True | AcceptConnection \<Rightarrow> True | GoodbyeServer \<Rightarrow> True | _ \<Rightarrow> False)
      | KConnection \<Rightarrow>
          (case m of PerformWelcome \<Rightarrow> True | ToUserEmit _ \<Rightarrow> True | ToUserPrompt _ \<Rightarrow> True
           | FromUserGetInput \<Rightarrow> True | GoodbyeConnection \<Rightarrow> True | _ \<Rightarrow> False)
      | KCommand \<Rightarrow>
          (case m of PerformWelcome \<Rightarrow> True | OnUserInput _ \<Rightarrow> True | ToUserPrompt _ \<Rightarrow> True
           | ToUserEmit _ \<Rightarrow> True | LoginControllerEnd \<Rightarrow> True | _ \<Rightarrow> False)
      | KLogin \<Rightarrow> (case m of LoginControllerStart \<Rightarrow> True | OnUserInput _ \<Rightarrow> True | _ \<Rightarrow> False)
      | KDefault \<Rightarrow> (case m of OnUserInput _ \<Rightarrow> True | _ \<Rightarrow> False)
      | KRecorder \<Rightarrow>
          (case m of EventUserCreate _ _ \<Rightarrow> True | EventUserLogin _ \<Rightarrow> True | EventUserLogout _ \<Rightarrow> True | _ \<Rightarrow> False)
      | KStoring \<Rightarrow> (case m of StorageEventStore _ _ \<Rightarrow> True | _ \<Rightarrow> False))"

text \<open>The members of an actor refer to actors of the right kinds.\<close>

definition refers :: "(actor_id \<Rightarrow> kind option) \<Rightarrow> actor_id option \<Rightarrow> kind set \<Rightarrow> bool" where
  "refers K x ks \<longleftrightarrow> (case x of None \<Rightarrow> True | Some a \<Rightarrow> K a \<in> Some ` ks)"

fun actor_ok :: "(actor_id \<Rightarrow> kind option) \<Rightarrow> actor_id \<Rightarrow> 's actor \<Rightarrow> bool" where
  "actor_ok K self (Server sv) = (K (ms_event_recorder_actor (sv_mud sv)) = Some KRecorder)"
| "actor_ok K self (Connection cn sk) =
     (connection_ok cn \<and> refers K (cn_command cn) {KCommand} \<and> cn_registery_id cn = registery_id self)"
| "actor_ok K self (Command ca) =
     (K (ca_connection_actor ca) = Some KConnection \<and>
      refers K (ca_active_controller ca) {KLogin, KDefault} \<and> refers K (ca_default_controller ca) {KDefault})"
| "actor_ok K self (Login lc) =
     (K (lc_connection_actor lc) = Some KCommand \<and> K (lc_event_actor lc) = Some KRecorder)"
| "actor_ok K self (Default c) = (K c = Some KCommand)"
| "actor_ok K self (Recorder s) = (K s = Some KStoring)"
| "actor_ok K self (Storing s) = True"

definition mails_ok :: "(actor_id \<Rightarrow> kind option) \<Rightarrow> (actor_id \<Rightarrow> mail list) \<Rightarrow> bool" where
  "mails_ok K mail \<longleftrightarrow>
     (\<forall>a m. Msg m \<in> set (mail a) \<longrightarrow> (\<exists>k. K a = Some k \<and> handled_by k m))"

definition registry_ok :: "(actor_id \<Rightarrow> kind option) \<Rightarrow> actor_id smap \<Rightarrow> bool" where
  "registry_ok K r \<longleftrightarrow> (\<forall>(n, a) \<in> set r. K a = Some KConnection \<and> n = registery_id a)"

definition actors_ok :: "(actor_id \<Rightarrow> kind option) \<Rightarrow> (actor_id \<Rightarrow> 's actor option) \<Rightarrow> bool" where
  "actors_ok K actors \<longleftrightarrow>
     (\<forall>a st. actors a = Some st \<longrightarrow> K a = Some (kind_of st) \<and> actor_ok K a st)"

definition world_ok :: "'s world \<Rightarrow> bool" where
  "world_ok w \<longleftrightarrow>
     actors_ok (w_kinds w) (w_actors w) \<and> mails_ok (w_kinds w) (w_mail w) \<and>
     registry_ok (w_kinds w) (w_registry w) \<and>
     (\<forall>a. w_kinds w a \<noteq> None \<longrightarrow> a < w_next w) \<and> w_kinds w RECORDER_ID = Some KRecorder \<and>
     w_kinds w SERVER_ID = Some KServer \<and> w_failed w = []"

lemma refers_mono: "refers K x ks \<Longrightarrow> K \<subseteq>\<^sub>m K' \<Longrightarrow> refers K' x ks"
  by (cases x) (auto simp: refers_def map_le_def dom_def)

lemma map_le_Some: "K \<subseteq>\<^sub>m K' \<Longrightarrow> K a = Some k \<Longrightarrow> K' a = Some k"
  by (metis domI map_le_def)

lemma actor_ok_mono: "actor_ok K a st \<Longrightarrow> K \<subseteq>\<^sub>m K' \<Longrightarrow> actor_ok K' a st"
  by (cases st) (auto intro: refers_mono map_le_Some)

lemma actors_ok_mono: "actors_ok K m \<Longrightarrow> K \<subseteq>\<^sub>m K' \<Longrightarrow> actors_ok K' m"
  by (auto simp: actors_ok_def intro: actor_ok_mono map_le_Some)

lemma actors_ok_upd:
  "actors_ok K m \<Longrightarrow> K a = Some (kind_of st) \<Longrightarrow> actor_ok K a st \<Longrightarrow> actors_ok K (m(a := Some st))"
  by (simp add: actors_ok_def)

lemma actors_ok_remove: "actors_ok K m \<Longrightarrow> actors_ok K (m(a := None))"
  by (simp add: actors_ok_def)

lemma mails_ok_mono: "mails_ok K m \<Longrightarrow> K \<subseteq>\<^sub>m K' \<Longrightarrow> mails_ok K' m"
  by (fastforce simp: mails_ok_def dest: map_le_Some)

lemma mails_ok_upd:
  "mails_ok K mail \<Longrightarrow> (\<And>m. Msg m \<in> set q \<Longrightarrow> \<exists>k. K a = Some k \<and> handled_by k m) \<Longrightarrow>
   mails_ok K (mail(a := q))"
  by (auto simp: mails_ok_def)

lemma registry_ok_mono: "registry_ok K r \<Longrightarrow> K \<subseteq>\<^sub>m K' \<Longrightarrow> registry_ok K' r"
  by (fastforce simp: registry_ok_def dest: map_le_Some)

section \<open>Effects keep the invariant\<close>

definition effect_ok :: "(actor_id \<Rightarrow> kind option) \<Rightarrow> effect \<Rightarrow> bool" where
  "effect_ok K e =
     (case e of
        Send b m \<Rightarrow> (\<exists>k. K b = Some k \<and> handled_by k m)
      | SendNull m \<Rightarrow> True
      | SendExit x \<Rightarrow> True
      | RegistryErase n \<Rightarrow> True
      | _ \<Rightarrow> False)"

lemma effect_ok_simps [simp]:
  "effect_ok K (Send b m) = (\<exists>k. K b = Some k \<and> handled_by k m)"
  "effect_ok K (SendNull m)" "effect_ok K (SendExit x)" "effect_ok K (RegistryErase n)"
  by (simp_all add: effect_ok_def)

lemma set_smap_erase: "set (smap_erase n r) \<subseteq> set r"
  by (auto simp: smap_erase_def)

lemma set_smap_put: "set (smap_put n b r) \<subseteq> insert (n, b) (set r)"
  by (induction n b r rule: smap_put.induct) auto

lemma registry_ok_erase: "registry_ok K r \<Longrightarrow> registry_ok K (smap_erase n r)"
  using set_smap_erase by (fastforce simp: registry_ok_def)

lemma registry_ok_put:
  "registry_ok K r \<Longrightarrow> K b = Some KConnection \<Longrightarrow> registry_ok K (smap_put (registery_id b) b r)"
  using set_smap_put by (fastforce simp: registry_ok_def)

lemma post_fields [simp]:
  "w_actors (post b x w) = w_actors w" "w_kinds (post b x w) = w_kinds w"
  "w_next (post b x w) = w_next w" "w_registry (post b x w) = w_registry w"
  "w_failed (post b x w) = w_failed w"
  by (simp_all add: post_def)

lemma world_ok_post:
  assumes "world_ok w" "\<And>m. x = Msg m \<Longrightarrow> \<exists>k. w_kinds w b = Some k \<and> handled_by k m"
  shows "world_ok (post b x w)"
  using assms by (auto simp: world_ok_def mails_ok_def post_def)

lemma run_effect_ok:
  assumes "world_ok w" "effect_ok (w_kinds w) e"
  shows "world_ok (run_effect sp w e)" and "w_kinds (run_effect sp w e) = w_kinds w"
    and "w_actors (run_effect sp w e) = w_actors w" and "w_next (run_effect sp w e) = w_next w"
proof -
  show "world_ok (run_effect sp w e)"
  proof (cases e)
    case (RegistryErase n)
    with assms(1) show ?thesis
      by (simp add: run_effect_def world_ok_def registry_ok_erase)
  qed (use assms in \<open>auto simp: run_effect_def effect_ok_def intro!: world_ok_post split: option.split\<close>)
  show "w_kinds (run_effect sp w e) = w_kinds w" "w_actors (run_effect sp w e) = w_actors w"
    "w_next (run_effect sp w e) = w_next w"
    using assms(2) by (cases e; simp add: run_effect_def effect_ok_def split: option.split)+
qed

lemma foldl_effects_ok:
  "world_ok w \<Longrightarrow> list_all (effect_ok (w_kinds w)) es \<Longrightarrow>
   world_ok (foldl (run_effect sp) w es) \<and> w_kinds (foldl (run_effect sp) w es) = w_kinds w"
proof (induction es arbitrary: w)
  case Nil
  then show ?case by simp
next
  case (Cons e es)
  then show ?case
    using run_effect_ok [of w e sp] Cons.IH [of "run_effect sp w e"] by simp
qed

lemma birth_fields [simp]:
  "w_actors (birth a st w) = (w_actors w)(a := Some st)"
  "w_kinds (birth a st w) = (w_kinds w)(a := Some (kind_of st))"
  "w_mail (birth a st w) = (w_mail w)(a := [])"
  "w_next (birth a st w) = max (w_next w) (Suc a)"
  "w_registry (birth a st w) = w_registry w" "w_failed (birth a st w) = w_failed w"
  by (simp_all add: birth_def)

lemma fresh_kinds:
  "world_ok w \<Longrightarrow> w_next w \<le> a \<Longrightarrow> w_kinds w a = None"
  by (metis linorder_not_less world_ok_def)

lemma world_ok_birth:
  assumes "world_ok w" "w_next w \<le> a"
    and "actor_ok ((w_kinds w)(a := Some (kind_of st))) a st"
  shows "world_ok (birth a st w)" and "w_kinds w \<subseteq>\<^sub>m w_kinds (birth a st w)"
proof -
  from fresh_kinds [OF assms(1,2)] have K: "w_kinds w \<subseteq>\<^sub>m (w_kinds w)(a := Some (kind_of st))"
    by (auto simp: map_le_def)
  then show "w_kinds w \<subseteq>\<^sub>m w_kinds (birth a st w)" by simp
  from assms(1) have "actors_ok ((w_kinds w)(a := Some (kind_of st))) (w_actors w)"
    "mails_ok ((w_kinds w)(a := Some (kind_of st))) (w_mail w)"
    "registry_ok ((w_kinds w)(a := Some (kind_of st))) (w_registry w)"
    unfolding world_ok_def using K actors_ok_mono mails_ok_mono registry_ok_mono by blast+
  with assms show "world_ok (birth a st w)"
    using map_le_Some [OF K]
    by (auto simp: world_ok_def actors_ok_def mails_ok_def less_max_iff_disj)
qed

section \<open>Spawning keeps the invariant\<close>

lemma emit_lines_frame:
  "emit_lines sk ls = (ok, sk') \<Longrightarrow> sk_fd sk' = sk_fd sk \<and> sk_closed sk' = sk_closed sk"
proof (induction ls arbitrary: sk)
  case Nil
  then show ?case by simp
next
  case (Cons l ls)
  obtain ok1 sk1 where l: "emit_line sk l = (ok1, sk1)" by force
  from emit_line_frame [OF this] have "sk_fd sk1 = sk_fd sk \<and> sk_closed sk1 = sk_closed sk" .
  with Cons.prems Cons.IH [of sk1] l show ?case by (auto split: if_splits)
qed

lemma connection_new_born:
  assumes "0 < n"
  shows "\<exists>sk'. connection_new fresh self wl n sk =
      ([Spawn fresh (SpawnCommand self n), RegistryPut (registery_id self) self],
       Inr (fresh_connection fresh self n, sk')) \<and> sk_closed sk' = sk_closed sk"
proof -
  obtain ok1 sk1 where 1: "emit_banner sk = (ok1, sk1)" by force
  obtain ok2 sk2 where 2: "emit_line sk1 [] = (ok2, sk2)" by force
  obtain ok3 sk3 where 3: "emit_line sk2 wl = (ok3, sk3)" by force
  obtain ok4 sk4 where 4: "emit_line sk3 [] = (ok4, sk4)" by force
  obtain ok5 sk5 where 5: "emit_line sk4 [] = (ok5, sk5)" by force
  have "sk_closed sk1 = sk_closed sk" using emit_lines_frame [of sk BANNER] 1 by (simp add: emit_banner_def)
  moreover have "sk_closed sk2 = sk_closed sk1" "sk_closed sk3 = sk_closed sk2"
    "sk_closed sk4 = sk_closed sk3" "sk_closed sk5 = sk_closed sk4"
    using emit_line_frame 2 3 4 5 by blast+
  ultimately show ?thesis
    using assms
    by (simp add: connection_new_def comm_static_def Let_def 1 2 3 4 5 fresh_connection_def)
qed

lemma spawn_login_ok:
  assumes "world_ok w" "w_kinds w c = Some KCommand"
  shows "world_ok (spawn_actor (mud_of cfg) ans (w_next w) (SpawnLogin c) w)"
    and "w_kinds (spawn_actor (mud_of cfg) ans (w_next w) (SpawnLogin c) w) =
      (w_kinds w)(w_next w := Some KLogin)"
proof -
  let ?st = "Login (login_new RECORDER_ID c)"
  have eq: "spawn_actor (mud_of cfg) ans (w_next w) (SpawnLogin c) w = birth (w_next w) ?st w"
    by (simp add: spawn_actor_def spawn_command_def spawn_controller_def mud_of_def)
  have "c \<noteq> w_next w" "RECORDER_ID \<noteq> w_next w"
    using assms fresh_kinds [OF assms(1) order_refl] by (auto simp: world_ok_def)
  then have "actor_ok ((w_kinds w)(w_next w := Some (kind_of ?st))) (w_next w) ?st"
    using assms by (simp add: login_new_def world_ok_def)
  from world_ok_birth(1) [OF assms(1) order_refl this] show
    "world_ok (spawn_actor (mud_of cfg) ans (w_next w) (SpawnLogin c) w)" by (simp add: eq)
  show "w_kinds (spawn_actor (mud_of cfg) ans (w_next w) (SpawnLogin c) w) =
      (w_kinds w)(w_next w := Some KLogin)" by (simp add: eq)
qed

definition connection_births ::
  "actor_id \<Rightarrow> int \<Rightarrow> socket \<Rightarrow> 's world \<Rightarrow> 's world" where
  "connection_births a n sk w =
     birth a (Connection (fresh_connection (Suc a) a n) sk)
       ((\<lambda>w. w\<lparr>w_registry := smap_put (registery_id a) a (w_registry w)\<rparr>)
         (birth (Suc a) (Command (fst (command_new (Suc (Suc a)) (Suc a) a n)))
           (birth (Suc (Suc a)) (Default (Suc a)) w)))"

lemma spawn_connection_eq:
  assumes "0 < n"
  shows "\<exists>sk. spawn_actor mud ans a (SpawnConnection wl n) w = connection_births a n sk w \<and> \<not> sk_closed sk"
  using connection_new_born [OF assms, of "Suc a" a wl "new_socket n ans"]
  by (auto simp: spawn_actor_def spawn_command_def spawn_controller_def run_effect_def
      command_new_def connection_births_def new_socket_def)

lemma connection_births_ok:
  assumes "world_ok w" "0 < n"
  defines "a \<equiv> w_next w"
  shows "world_ok (connection_births a n sk w)"
    and "w_kinds (connection_births a n sk w) =
      (w_kinds w)(Suc (Suc a) := Some KDefault, Suc a := Some KCommand, a := Some KConnection)"
proof -
  let ?K = "(w_kinds w)(Suc (Suc a) := Some KDefault, Suc a := Some KCommand, a := Some KConnection)"
  show kinds: "w_kinds (connection_births a n sk w) = ?K"
    by (simp add: connection_births_def fun_upd_twist)
  have none: "w_kinds w (Suc (Suc a)) = None" "w_kinds w (Suc a) = None" "w_kinds w a = None"
    using fresh_kinds [OF assms(1)] by (auto simp: a_def)
  then have le: "w_kinds w \<subseteq>\<^sub>m ?K" by (auto simp: map_le_def)
  from assms(1) have old: "actors_ok ?K (w_actors w)" "mails_ok ?K (w_mail w)" "registry_ok ?K (w_registry w)"
    unfolding world_ok_def using le actors_ok_mono mails_ok_mono registry_ok_mono by blast+
  have rec: "?K RECORDER_ID = Some KRecorder \<and> ?K SERVER_ID = Some KServer"
    using assms(1) map_le_Some [OF le] by (auto simp: world_ok_def)
  have acts: "w_actors (connection_births a n sk w) = (w_actors w)
      (Suc (Suc a) := Some (Default (Suc a)),
       Suc a := Some (Command (fst (command_new (Suc (Suc a)) (Suc a) a n))),
       a := Some (Connection (fresh_connection (Suc a) a n) sk))"
    by (simp add: connection_births_def fun_upd_twist)
  have actors: "actors_ok ?K (w_actors (connection_births a n sk w))"
    unfolding acts
    by (intro actors_ok_upd old(1))
      (simp_all add: refers_def command_new_def fresh_connection_ok assms(2), simp add: fresh_connection_def)
  have mails: "mails_ok ?K (w_mail (connection_births a n sk w))"
  proof -
    have "w_mail (connection_births a n sk w) =
        (w_mail w)(Suc (Suc a) := [], Suc a := [], a := [])"
      by (simp add: connection_births_def)
    then show ?thesis by (simp only:) (intro mails_ok_upd old(2); simp)
  qed
  have registry: "registry_ok ?K (w_registry (connection_births a n sk w))"
    using registry_ok_put [OF old(3), of a] by (simp add: connection_births_def)
  have "\<forall>x. ?K x \<noteq> None \<longrightarrow> x < w_next (connection_births a n sk w)"
    using assms(1) by (auto simp: connection_births_def world_ok_def a_def less_max_iff_disj)
  with actors mails registry rec assms(1) show "world_ok (connection_births a n sk w)"
    unfolding world_ok_def kinds by (simp add: connection_births_def world_ok_def)
qed

section \<open>Each handler keeps the invariant\<close>

definition outcome_ok ::
  "(actor_id \<Rightarrow> kind option) \<Rightarrow> actor_id \<Rightarrow> actor_id \<Rightarrow> 's actor \<Rightarrow> effect list \<Rightarrow> bool" where
  "outcome_ok K fresh self st es \<longleftrightarrow>
     (list_all (effect_ok K) es \<and> actor_ok K self st) \<or>
     (\<exists>c es'. es = Spawn fresh (SpawnLogin c) # es' \<and> K c = Some KCommand \<and>
        list_all (effect_ok (K(fresh := Some KLogin))) es' \<and> actor_ok (K(fresh := Some KLogin)) self st) \<or>
     (\<exists>wl n es'. es = Spawn fresh (SpawnConnection wl n) # es' \<and> 0 < n \<and>
        list_all (effect_ok (K(fresh := Some KConnection))) es' \<and> actor_ok K self st)"

lemma outcome_plain: "list_all (effect_ok K) es \<Longrightarrow> actor_ok K self st \<Longrightarrow> outcome_ok K fresh self st es"
  by (simp add: outcome_ok_def)

lemma server_outcome:
  assumes "actor_ok K self (Server sv)" "K self = Some KServer" "K fresh = None" "step_env_ok e"
    and "server_handle fresh self (ev_start e) (ev_accept e) sv m = (sv', es)"
  shows "outcome_ok K fresh self (Server sv') es"
proof -
  have "self \<noteq> fresh" using assms(2,3) by auto
  with assms show ?thesis
    by (cases m)
      (auto simp: actor_defs outcome_ok_def Let_def handled_by_def step_env_ok_def
        split: if_splits prod.splits)
qed

lemma send_via_ok:
  "refers K x {k} \<Longrightarrow> handled_by k m \<Longrightarrow> list_all (effect_ok K) (send_via x m)"
  by (cases x) (auto simp: refers_def)

lemma connection_outcome:
  assumes "actor_ok K self (Connection cn sk)" "K self = Some KConnection"
  shows "\<exists>cn' sk' es. connection_handle self i (cn, sk) m = Inr ((cn', sk'), es) \<and>
    list_all (effect_ok K) es \<and> actor_ok K self (Connection cn' sk')"
proof (cases "m = GoodbyeConnection")
  case True
  with assms show ?thesis
    by (auto simp: connection_handle_def goodbye_connection_def connection_ok_def comm_static_def
        Let_def split: prod.splits)
next
  case False
  from assms have ok: "connection_ok cn" and cmd: "refers K (cn_command cn) {KCommand}" by simp_all
  from connection_handle_step [OF ok False, of self i sk] obtain cn' sk' where h:
    "connection_handle self i (cn, sk) m =
      Inr ((cn', sk'), handler_effects self (cn_command cn) (input_of cn) i m)"
    "connection_ok cn'" "cn_command cn' = cn_command cn" "cn_registery_id cn' = cn_registery_id cn"
    by blast
  have poll: "list_all (effect_ok K) (poll_effects self (cn_command cn) r)" for r
    using cmd assms(2) by (cases r) (auto simp: handled_by_def intro!: send_via_ok)
  have "list_all (effect_ok K) (handler_effects self (cn_command cn) (input_of cn) i m)"
    using poll cmd assms(2)
    by (cases m) (auto simp: handler_effects_def handled_by_def intro!: send_via_ok)
  with h assms show ?thesis by auto
qed

lemma command_outcome:
  assumes "actor_ok K self (Command ca)" "K self = Some KCommand" "K fresh = None"
    and "command_handle fresh self ca m = (ca', es)"
  shows "outcome_ok K fresh self (Command ca') es"
proof (cases "m = PerformWelcome")
  case True
  have le: "K \<subseteq>\<^sub>m K(fresh := Some KLogin)" using assms(3) by (simp add: map_le_def dom_def)
  have "ca_connection_actor ca \<noteq> fresh" using assms by auto
  with True assms refers_mono [OF _ le] show ?thesis
    by (auto simp: command_handle_def outcome_ok_def refers_def handled_by_def split: option.splits)
next
  case False
  have "list_all (effect_ok K) es \<and> actor_ok K self (Command ca')"
    using False assms
    by (cases m)
      (auto simp: command_handle_def actor_defs handled_by_def refers_def Let_def split: option.splits)
  then show ?thesis by (simp add: outcome_plain)
qed

lemma login_outcome:
  assumes "actor_ok K self (Login lc)" "login_handle env lc m = (lc', es)"
  shows "list_all (effect_ok K) es \<and> actor_ok K self (Login lc')"
  using assms
  by (cases m)
    (auto simp: login_handle_def actor_defs handled_by_def Let_def hash_and_scrub_password_def
      record_event_user_create_def split: if_splits)

lemma default_outcome:
  "K c = Some KCommand \<Longrightarrow> list_all (effect_ok K) (default_handle c m)"
  by (cases m) (simp_all add: default_handle_def emit_help_def actor_defs handled_by_def)

lemma recorder_outcome:
  "K s = Some KStoring \<Longrightarrow> list_all (effect_ok K) (event_recorder_handle s m)"
  by (cases m) (simp_all add: event_recorder_handle_def handled_by_def Let_def)

lemma storing_outcome:
  assumes "handled_by KStoring m"
  shows "\<exists>s'. storage_actor_handle ops s m = Inr (s', NoReply)"
  using assms
  by (cases m; cases s) (simp_all add: handled_by_def storage_actor_handle_def with_storage_def)

lemma handle_actor_ok:
  assumes "actor_ok K self st" "K self = Some (kind_of st)" "handled_by (kind_of st) m"
    and "K fresh = None" "step_env_ok e"
  shows "\<exists>st' es. handle_actor ops e fresh self st m = Inr (st', es) \<and> kind_of st' = kind_of st \<and>
    outcome_ok K fresh self st' es"
proof (cases st)
  case (Server sv)
  obtain sv' es where h: "server_handle fresh self (ev_start e) (ev_accept e) sv m = (sv', es)" by force
  with assms Server have "outcome_ok K fresh self (Server sv') es"
    by (intro server_outcome [of K self sv fresh e m]) simp_all
  with h Server show ?thesis by (simp add: handle_actor_def)
next
  case (Connection cn sk)
  with assms connection_outcome [of K self cn sk "ev_input e" m] show ?thesis
    by (auto simp: handle_actor_def intro!: outcome_plain)
next
  case (Command ca)
  obtain ca' es where h: "command_handle fresh self ca m = (ca', es)" by force
  with assms Command have "outcome_ok K fresh self (Command ca') es"
    by (intro command_outcome [of K self ca fresh m]) simp_all
  with h Command show ?thesis by (simp add: handle_actor_def)
next
  case (Login lc)
  obtain lc' es where h: "login_handle (ev_crypto e) lc m = (lc', es)" by force
  with assms Login have "list_all (effect_ok K) es \<and> actor_ok K self (Login lc')"
    by (intro login_outcome [of K self lc "ev_crypto e" m]) simp_all
  with h Login show ?thesis by (auto simp: handle_actor_def intro!: outcome_plain)
next
  case (Default c)
  with assms show ?thesis by (auto simp: handle_actor_def intro!: outcome_plain default_outcome)
next
  case (Recorder s)
  with assms show ?thesis by (auto simp: handle_actor_def intro!: outcome_plain recorder_outcome)
next
  case (Storing s)
  with assms storing_outcome [of m ops s] show ?thesis
    by (auto simp: handle_actor_def intro!: outcome_plain)
qed

section \<open>Every step keeps the invariant\<close>

lemma effects_ok_mono:
  assumes "list_all (effect_ok K) es" "K \<subseteq>\<^sub>m K'"
  shows "list_all (effect_ok K') es"
proof -
  have "effect_ok K' e" if "effect_ok K e" for e
    using that map_le_Some [OF assms(2)] by (cases e) (auto simp: effect_ok_def)
  with assms(1) show ?thesis by (auto simp: list_all_iff)
qed

lemma run_outcome:
  assumes "world_ok w" "outcome_ok (w_kinds w) (w_next w) self st' es"
  shows "world_ok (run_effects (mud_of cfg) e w es) \<and>
    w_kinds w \<subseteq>\<^sub>m w_kinds (run_effects (mud_of cfg) e w es) \<and>
    actor_ok (w_kinds (run_effects (mud_of cfg) e w es)) self st'"
proof -
  let ?K = "w_kinds w" and ?f = "w_next w" and ?sp = "spawn_actor (mud_of cfg) (ev_answers e)"
  from assms(2) consider
    "list_all (effect_ok ?K) es" "actor_ok ?K self st'"
  | c es' where "es = Spawn ?f (SpawnLogin c) # es'" "?K c = Some KCommand"
      "list_all (effect_ok (?K(?f := Some KLogin))) es'" "actor_ok (?K(?f := Some KLogin)) self st'"
  | wl n es' where "es = Spawn ?f (SpawnConnection wl n) # es'" "0 < n"
      "list_all (effect_ok (?K(?f := Some KConnection))) es'" "actor_ok ?K self st'"
    unfolding outcome_ok_def by blast
  then show ?thesis
  proof cases
    case 1
    with foldl_effects_ok [OF assms(1) 1(1)] show ?thesis by (simp add: run_effects_def)
  next
    case 2
    let ?w = "?sp ?f (SpawnLogin c) w"
    from spawn_login_ok [OF assms(1) 2(2)] have w: "world_ok ?w" "w_kinds ?w = ?K(?f := Some KLogin)" .
    have "?K \<subseteq>\<^sub>m ?K(?f := Some KLogin)"
      using fresh_kinds [OF assms(1) order_refl] by (auto simp: map_le_def)
    with foldl_effects_ok [OF w(1), of es' ?sp] 2 w show ?thesis
      by (simp add: run_effects_def run_effect_def)
  next
    case 3
    from spawn_connection_eq [OF 3(2)] obtain sk where
      sp: "?sp ?f (SpawnConnection wl n) w = connection_births ?f n sk w" by metis
    let ?w = "connection_births ?f n sk w"
    let ?K3 = "?K(Suc (Suc ?f) := Some KDefault, Suc ?f := Some KCommand, ?f := Some KConnection)"
    from connection_births_ok [OF assms(1) 3(2), of sk] have w: "world_ok ?w" "w_kinds ?w = ?K3" .
    have none: "?K (Suc (Suc ?f)) = None" "?K (Suc ?f) = None" "?K ?f = None"
      using fresh_kinds [OF assms(1)] by simp_all
    then have le: "?K \<subseteq>\<^sub>m ?K3" and "?K(?f := Some KConnection) \<subseteq>\<^sub>m ?K3"
      by (auto simp: map_le_def)
    with 3(3) have "list_all (effect_ok ?K3) es'" using effects_ok_mono by blast
    with foldl_effects_ok [OF w(1), of es' ?sp] 3(1) w sp le actor_ok_mono [OF 3(4) le]
    show ?thesis by (simp add: run_effects_def run_effect_def)
  qed
qed

lemma world_ok_pop:
  assumes "world_ok w" "set q \<subseteq> set (w_mail w a)"
  shows "world_ok (w\<lparr>w_mail := (w_mail w)(a := q)\<rparr>)"
proof -
  have "mails_ok (w_kinds w) ((w_mail w)(a := q))"
    using assms by (intro mails_ok_upd) (auto simp: world_ok_def mails_ok_def)
  with assms(1) show ?thesis by (simp add: world_ok_def)
qed

lemma deliver_ok:
  assumes "world_ok w" "w_actors w a = Some st" "handled_by (kind_of st) m" "step_env_ok e"
  shows "world_ok (deliver ops (mud_of cfg) e a st m w)"
proof -
  from assms(1,2) have "actor_ok (w_kinds w) a st" "w_kinds w a = Some (kind_of st)"
    by (auto simp: world_ok_def actors_ok_def)
  from handle_actor_ok [OF this assms(3) fresh_kinds [OF assms(1) order_refl] assms(4), of ops]
  obtain st' es where h: "handle_actor ops e (w_next w) a st m = Inr (st', es)"
    "kind_of st' = kind_of st" "outcome_ok (w_kinds w) (w_next w) a st' es"
    by blast
  let ?w = "run_effects (mud_of cfg) e w es"
  from run_outcome [OF assms(1) h(3), of cfg e] have w: "world_ok ?w" "w_kinds w \<subseteq>\<^sub>m w_kinds ?w"
    "actor_ok (w_kinds ?w) a st'" by simp_all
  have "w_kinds ?w a = Some (kind_of st')"
    using map_le_Some [OF w(2) \<open>w_kinds w a = Some (kind_of st)\<close>] h(2) by simp
  with w have "actors_ok (w_kinds ?w) ((w_actors ?w)(a := Some st'))"
    by (intro actors_ok_upd) (simp_all add: world_ok_def)
  with w(1) h(1) show ?thesis by (simp add: deliver_def Let_def world_ok_def)
qed

lemma end_actor_ok:
  assumes "world_ok w"
  shows "world_ok (end_actor (mud_of cfg) e a st w)"
proof -
  let ?w = "w\<lparr>w_actors := (w_actors w)(a := None), w_mail := (w_mail w)(a := [])\<rparr>"
  have "actors_ok (w_kinds w) ((w_actors w)(a := None))" "mails_ok (w_kinds w) ((w_mail w)(a := []))"
    using assms by (auto simp: world_ok_def intro!: actors_ok_remove mails_ok_upd)
  with assms have "world_ok ?w" by (simp add: world_ok_def)
  moreover have "list_all (effect_ok (w_kinds ?w)) (exit_effects st)"
    by (cases st) (simp_all add: exit_effects_def connection_exit_def command_exit_def)
  ultimately show ?thesis
    using foldl_effects_ok [of ?w "exit_effects st"] by (simp add: end_actor_def run_effects_def)
qed

lemma quit_ok:
  assumes "world_ok w"
  shows "world_ok (run_effects (mud_of cfg) e w (quit_connection_actors (w_registry w)))"
proof -
  have "list_all (effect_ok (w_kinds w)) (quit_connection_actors (w_registry w))"
    using assms
    by (fastforce simp: quit_connection_actors_def list_all_iff world_ok_def registry_ok_def handled_by_def)
  from foldl_effects_ok [OF assms this] show ?thesis by (simp add: run_effects_def)
qed

lemma start_ok: "world_ok (start_world cfg s)"
proof -
  have ids: "STORAGE_ID = 1" "RECORDER_ID = 2" "SERVER_ID = 3"
    by (simp_all add: STORAGE_ID_def RECORDER_ID_def SERVER_ID_def)
  show ?thesis
    unfolding start_world_def
    by (rule world_ok_post)
      (auto simp: world_ok_def actors_ok_def mails_ok_def registry_ok_def ids server_new_def mud_of_def
        handled_by_def split: if_splits)
qed

lemma step_ok: "step ops cfg w w' \<Longrightarrow> world_ok w \<Longrightarrow> world_ok w'"
proof (induction rule: step.induct)
  case (step_message w a st m rest e)
  let ?w = "w\<lparr>w_mail := (w_mail w)(a := rest)\<rparr>"
  have "world_ok ?w" using step_message by (intro world_ok_pop) auto
  moreover have "handled_by (kind_of st) m"
    using step_message unfolding world_ok_def actors_ok_def mails_ok_def
    by (metis list.set_intros(1) option.inject)
  ultimately show ?case using step_message by (intro deliver_ok) simp_all
next
  case (step_exit w a st rest e)
  then show ?case by (intro end_actor_ok)
next
  case (step_quit w e)
  then show ?case by (rule quit_ok)
next
  case (step_kill_server w)
  then show ?case by (intro world_ok_post) (auto simp: world_ok_def handled_by_def)
qed

lemma reachable_ok: "reachable ops cfg s w \<Longrightarrow> world_ok w"
  by (induction rule: reachable.induct) (auto intro: start_ok step_ok)

section \<open>The registry names exactly the open connections\<close>

lemma string_of_nat_inj: "string_of_nat m = string_of_nat n \<Longrightarrow> m = n"
proof (induction m arbitrary: n rule: string_of_nat.induct)
  case (1 m)
  have digit: "digit_char d = digit_char d' \<Longrightarrow> d = d'" if "d < 10" "d' < 10" for d d'
  proof -
    assume "digit_char d = digit_char d'"
    then have "(of_char (digit_char d) :: nat) = of_char (digit_char d')" by simp
    with that show "d = d'" by (simp add: digit_char_def)
  qed
  have eq: "(if m < 10 then [digit_char m] else string_of_nat (m div 10) @ [digit_char (m mod 10)]) =
      (if n < 10 then [digit_char n] else string_of_nat (n div 10) @ [digit_char (n mod 10)])"
    using "1.prems" by (metis string_of_nat.simps)
  show ?case
  proof (cases "m < 10")
    case True
    with eq digit [of m n] string_of_nat_nonempty string_of_nat_nonempty [THEN not_sym] show ?thesis by (auto split: if_splits)
  next
    case False
    with eq string_of_nat_nonempty have n: "\<not> n < 10" by (auto split: if_splits)
    with eq False have "string_of_nat (m div 10) = string_of_nat (n div 10)"
      "digit_char (m mod 10) = digit_char (n mod 10)" by simp_all
    with "1.IH" [OF False] digit [of "m mod 10" "n mod 10"] have "m div 10 = n div 10" "m mod 10 = n mod 10"
      by simp_all
    then show ?thesis by (metis div_mult_mod_eq)
  qed
qed

lemma registery_id_inj: "registery_id a = registery_id b \<longleftrightarrow> a = b"
  by (auto simp: registery_id_def dest: string_of_nat_inj)

lemma registery_id_match: "connection_regex_match (registery_id a)"
proof -
  have "list_all is_digit (string_of_nat a)"
    using string_of_nat_digits by (simp add: list_all_iff)
  then show ?thesis
    using string_of_nat_nonempty [of a]
    by (simp add: connection_regex_match_def registery_id_def butlast_append)
qed

definition registry_exact :: "'s world \<Rightarrow> bool" where
  "registry_exact w \<longleftrightarrow>
     (\<forall>a cn sk. w_actors w a = Some (Connection cn sk) \<longrightarrow>
        (smap_get (w_registry w) (registery_id a) = Some a) = (\<not> sk_closed sk))"

fun names_actor :: "effect \<Rightarrow> bool" where
  "names_actor (RegistryPut _ _) = True"
| "names_actor (RegistryErase _) = True"
| "names_actor e = False"

lemma foldl_effects_quiet:
  "list_all (effect_ok K) es \<Longrightarrow> \<not> list_ex names_actor es \<Longrightarrow>
   w_registry (foldl (run_effect sp) w es) = w_registry w \<and>
   w_actors (foldl (run_effect sp) w es) = w_actors w"
proof (induction es arbitrary: w)
  case Nil
  then show ?case by simp
next
  case (Cons e es)
  then have "w_registry (run_effect sp w e) = w_registry w \<and> w_actors (run_effect sp w e) = w_actors w"
    by (cases e) (auto simp: run_effect_def effect_ok_def split: option.split)
  with Cons show ?case by simp
qed

lemma actors_below: "world_ok w \<Longrightarrow> w_actors w a = Some st \<Longrightarrow> a < w_next w"
  by (metis actors_ok_def option.distinct(1) world_ok_def)

text \<open>What the effects of a handler that names nobody leave alone, and what they may add.\<close>

lemma run_outcome_registry:
  assumes "world_ok w" "outcome_ok (w_kinds w) (w_next w) self st' es" "\<not> list_ex names_actor es"
    and w': "w' = run_effects (mud_of cfg) e w es"
  shows "b < w_next w \<Longrightarrow> w_actors w' b = w_actors w b \<and>
      smap_get (w_registry w') (registery_id b) = smap_get (w_registry w) (registery_id b)"
    and "w_next w \<le> b \<Longrightarrow> w_actors w' b = Some (Connection cn sk) \<Longrightarrow>
      \<not> sk_closed sk \<and> smap_get (w_registry w') (registery_id b) = Some b"
proof -
  let ?K = "w_kinds w" and ?f = "w_next w" and ?sp = "spawn_actor (mud_of cfg) (ev_answers e)"
  have none: "w_actors w b = None" if "?f \<le> b" for b
    using that actors_below [OF assms(1), of b] by (cases "w_actors w b") auto
  from assms(2) consider
    "list_all (effect_ok ?K) es"
  | c es' where "es = Spawn ?f (SpawnLogin c) # es'" "list_all (effect_ok (?K(?f := Some KLogin))) es'"
  | wl n es' where "es = Spawn ?f (SpawnConnection wl n) # es'" "0 < n"
      "list_all (effect_ok (?K(?f := Some KConnection))) es'"
    unfolding outcome_ok_def by blast
  then have "(b < ?f \<longrightarrow> w_actors w' b = w_actors w b \<and>
      smap_get (w_registry w') (registery_id b) = smap_get (w_registry w) (registery_id b)) \<and>
    (?f \<le> b \<longrightarrow> w_actors w' b = Some (Connection cn sk) \<longrightarrow>
      \<not> sk_closed sk \<and> smap_get (w_registry w') (registery_id b) = Some b)"
  proof cases
    case 1
    with foldl_effects_quiet [OF 1 assms(3), of ?sp w] none show ?thesis
      by (simp add: w' run_effects_def)
  next
    case 2
    let ?w = "birth ?f (Login (login_new (ms_event_recorder_actor (mud_of cfg)) c)) w"
    have "run_effect ?sp w (Spawn ?f (SpawnLogin c)) = ?w"
      by (simp add: run_effect_def spawn_actor_def spawn_command_def spawn_controller_def)
    with 2 assms(3) foldl_effects_quiet [OF 2(2), of ?sp ?w] none show ?thesis
      by (auto simp: w' run_effects_def)
  next
    case 3
    from spawn_connection_eq [OF 3(2)] obtain sk0 where
      sp: "?sp ?f (SpawnConnection wl n) w = connection_births ?f n sk0 w" and "\<not> sk_closed sk0"
      by metis
    with 3 assms(3) foldl_effects_quiet [OF 3(3), of ?sp "connection_births ?f n sk0 w"] none show ?thesis
      by (auto simp: w' run_effects_def run_effect_def connection_births_def smap_get_put registery_id_inj)
  qed
  then show "b < ?f \<Longrightarrow> w_actors w' b = w_actors w b \<and>
      smap_get (w_registry w') (registery_id b) = smap_get (w_registry w) (registery_id b)"
    and "?f \<le> b \<Longrightarrow> w_actors w' b = Some (Connection cn sk) \<Longrightarrow>
      \<not> sk_closed sk \<and> smap_get (w_registry w') (registery_id b) = Some b"
    by blast+
qed

lemma connection_handle_closed:
  assumes "connection_handle self i (cn, sk) m = Inr ((cn', sk'), es)"
  shows "if m = GoodbyeConnection \<and> cn_connection cn \<noteq> -1
    then sk_closed sk' \<and> es = [RegistryErase (cn_registery_id cn), SendExit (Some self)]
    else m \<noteq> GoodbyeConnection \<longrightarrow> sk_closed sk' = sk_closed sk \<and> \<not> list_ex names_actor es"
proof (cases "m = GoodbyeConnection")
  case True
  with assms show ?thesis
    by (auto simp: connection_handle_def goodbye_connection_def Let_def bindE_eq_Inr split: if_splits prod.splits)
next
  case False
  have via: "\<not> list_ex names_actor (send_via x k)" for x k by (cases x) simp_all
  have "sk_closed (snd (emit_line sk e)) = sk_closed sk" for e
    using emit_line_frame [of sk e] by (cases "emit_line sk e") simp
  moreover have "sk_closed (snd (emit_prompt sk p)) = sk_closed sk" for p
    using emit_frame [of sk "p @ ''> ''"] by (cases "emit sk (p @ ''> '')") (simp add: emit_prompt_def)
  ultimately show ?thesis
    using False assms via
    by (cases m)
      (auto simp: connection_handle_def from_user_get_input_def Let_def bindE_eq_Inr split: if_splits prod.splits)
qed

lemma handle_actor_closed:
  assumes "handle_actor ops e fresh self st m = Inr (st', es)" "actor_ok K self st"
  shows "case st of
      Connection cn sk \<Rightarrow> (\<exists>cn' sk'. st' = Connection cn' sk' \<and>
        (if m = GoodbyeConnection then sk_closed sk' \<and> es = [RegistryErase (registery_id self), SendExit (Some self)]
         else sk_closed sk' = sk_closed sk \<and> \<not> list_ex names_actor es))
    | _ \<Rightarrow> (\<forall>cn sk. st' \<noteq> Connection cn sk) \<and> \<not> list_ex names_actor es"
proof (cases st)
  case (Connection cn sk)
  then obtain cn' sk' where h: "connection_handle self (ev_input e) (cn, sk) m = Inr ((cn', sk'), es)"
    "st' = Connection cn' sk'"
    using assms(1) by (auto simp: handle_actor_def bindE_eq_Inr)
  have "cn_connection cn \<noteq> -1" "cn_registery_id cn = registery_id self"
    using assms(2) Connection by (auto simp: connection_ok_def)
  with connection_handle_closed [OF h(1)] Connection h(2) show ?thesis by (auto split: if_splits)
next
  case (Server sv)
  with assms(1) show ?thesis
    by (cases m) (auto simp: handle_actor_def actor_defs Let_def split: if_splits prod.splits)
next
  case (Command ca)
  with assms(1) show ?thesis
    by (cases m) (auto simp: handle_actor_def command_handle_def actor_defs Let_def split: option.splits)
next
  case (Login lc)
  with assms(1) show ?thesis
    by (cases m)
      (auto simp: handle_actor_def login_handle_def actor_defs Let_def hash_and_scrub_password_def
        record_event_user_create_def split: if_splits)
next
  case (Default c)
  with assms(1) show ?thesis
    by (cases m) (auto simp: handle_actor_def default_handle_def emit_help_def actor_defs split: if_splits)
next
  case (Recorder s)
  with assms(1) show ?thesis
    by (cases m) (auto simp: handle_actor_def event_recorder_handle_def Let_def)
next
  case (Storing s)
  with assms(1) show ?thesis
    by (auto simp: handle_actor_def bindE_eq_Inr)
qed

lemma deliver_registry:
  assumes "world_ok w" "registry_exact w" "w_actors w a = Some st" "handled_by (kind_of st) m" "step_env_ok e"
  shows "registry_exact (deliver ops (mud_of cfg) e a st m w)"
proof -
  from assms(1,3) have ok: "actor_ok (w_kinds w) a st" "w_kinds w a = Some (kind_of st)"
    by (auto simp: world_ok_def actors_ok_def)
  from handle_actor_ok [OF ok assms(4) fresh_kinds [OF assms(1) order_refl] assms(5), of ops]
  obtain st' es where h: "handle_actor ops e (w_next w) a st m = Inr (st', es)"
    "outcome_ok (w_kinds w) (w_next w) a st' es"
    by blast
  note closed = handle_actor_closed [OF h(1) ok(1)]
  let ?w = "run_effects (mud_of cfg) e w es"
  have less: "a < w_next w" using actors_below [OF assms(1,3)] .
  show ?thesis
  proof (cases "list_ex names_actor es")
    case quiet: False
    note keep = run_outcome_registry [OF assms(1) h(2) quiet refl]
    have "(smap_get (w_registry ?w) (registery_id b) = Some b) = (\<not> sk_closed sk)"
      if "((w_actors ?w)(a := Some st')) b = Some (Connection cn sk)" for b cn sk
    proof (cases "b = a")
      case True
      with that closed quiet assms(2,3) keep(1) [OF less, of cfg e] show ?thesis
        by (cases st) (auto simp: registry_exact_def split: if_splits)
    next
      case False
      with that have "w_actors ?w b = Some (Connection cn sk)" by simp
      then show ?thesis
        using keep(1) [of b cfg e] keep(2) [of b cfg e cn sk] assms(2)
        by (cases "b < w_next w") (simp_all add: registry_exact_def not_less)
    qed
    with h(1) show ?thesis by (simp add: deliver_def Let_def registry_exact_def)
  next
    case True
    with closed obtain cn sk cn' sk' where c: "st = Connection cn sk" "st' = Connection cn' sk'"
      "sk_closed sk'" "es = [RegistryErase (registery_id a), SendExit (Some a)]"
      by (cases st) (auto split: if_splits)
    with h(1) assms(2) show ?thesis
      by (auto simp: deliver_def run_effects_def run_effect_def registry_exact_def smap_get_erase registery_id_inj)
  qed
qed

lemma quiet_registry:
  assumes "registry_exact w" "list_all (effect_ok K) es" "\<not> list_ex names_actor es"
  shows "registry_exact (run_effects mud e w es)"
  using assms foldl_effects_quiet [OF assms(2,3), of "spawn_actor mud (ev_answers e)" w]
  by (simp add: registry_exact_def run_effects_def)

lemma quit_effects_ok:
  assumes "registry_ok K r"
  shows "list_all (effect_ok K) (quit_connection_actors r)" "\<not> list_ex names_actor (quit_connection_actors r)"
  using assms
  by (fastforce simp: quit_connection_actors_def list_all_iff registry_ok_def handled_by_def,
      auto simp: quit_connection_actors_def list_ex_iff split: if_splits)

lemma step_registry:
  "step ops cfg w w' \<Longrightarrow> world_ok w \<Longrightarrow> registry_exact w \<Longrightarrow> registry_exact w'"
proof (induction rule: step.induct)
  case (step_message w a st m rest e)
  let ?w = "w\<lparr>w_mail := (w_mail w)(a := rest)\<rparr>"
  have "world_ok ?w" using step_message by (intro world_ok_pop) auto
  moreover have "handled_by (kind_of st) m"
    using step_message unfolding world_ok_def actors_ok_def mails_ok_def
    by (metis list.set_intros(1) option.inject)
  moreover have "registry_exact ?w" using step_message by (simp add: registry_exact_def)
  ultimately show ?case using step_message by (intro deliver_registry) simp_all
next
  case (step_exit w a st rest e)
  let ?w = "w\<lparr>w_actors := (w_actors w)(a := None), w_mail := (w_mail w)(a := [])\<rparr>"
  have "registry_exact ?w" using step_exit by (simp add: registry_exact_def)
  moreover have "list_all (effect_ok (w_kinds ?w)) (exit_effects st)" "\<not> list_ex names_actor (exit_effects st)"
    by (cases st; simp add: exit_effects_def connection_exit_def command_exit_def)+
  ultimately show ?case unfolding end_actor_def by (rule quiet_registry)
next
  case (step_quit w e)
  then have "registry_ok (w_kinds w) (w_registry w)" by (simp add: world_ok_def)
  from quiet_registry [OF step_quit(2) quit_effects_ok [OF this]] show ?case .
next
  case (step_kill_server w)
  then show ?case by (simp add: registry_exact_def)
qed

lemma reachable_registry: "reachable ops cfg s w \<Longrightarrow> registry_exact w"
proof (induction rule: reachable.induct)
  case reachable_start
  then show ?case by (simp add: registry_exact_def start_world_def)
next
  case (reachable_step w w')
  then show ?case using step_registry reachable_ok by blast
qed

section \<open>A run that accepts a connection\<close>

definition example_env :: step_env where
  "example_env =
     \<lparr>ev_input = \<lparr>in_peek = -1, in_count = -1, in_bytes = []\<rparr>,
      ev_crypto = \<lparr>ce_dist = (\<lambda>_. 0), ce_raw = replicate 64 0, ce_junk = replicate 64 0\<rparr>,
      ev_start = \<lparr>se_socket = 3, se_bind = 0, se_listen = 0, se_errno = 0\<rparr>,
      ev_accept = 7, ev_answers = []\<rparr>"

lemma example_started:
  "\<exists>w. reachable ops cfg s w \<and> w_mail w SERVER_ID = [Msg AcceptConnection] \<and>
     (\<exists>sv. w_actors w SERVER_ID = Some (Server sv) \<and> sv_sockfd sv = 3) \<and> w_next w = 4"
proof -
  let ?w0 = "start_world cfg s" and ?sv = "server_new (mud_of cfg)"
  have ids: "STORAGE_ID = 1" "RECORDER_ID = 2" "SERVER_ID = 3"
    by (simp_all add: STORAGE_ID_def RECORDER_ID_def SERVER_ID_def)
  have w0: "w_actors ?w0 SERVER_ID = Some (Server ?sv)" "w_mail ?w0 SERVER_ID = [Msg StartServer]"
    "w_next ?w0 = 4"
    by (simp_all add: start_world_def post_def ids)
  let ?w1 = "deliver ops (mud_of cfg) example_env SERVER_ID (Server ?sv) StartServer
    (?w0\<lparr>w_mail := (w_mail ?w0)(SERVER_ID := [])\<rparr>)"
  have "step ops cfg ?w0 ?w1"
    by (rule step_message) (simp_all add: w0 step_env_ok_def example_env_def)
  then have "reachable ops cfg s ?w1" by (rule reachable_step [OF reachable_start])
  moreover have "w_mail ?w1 SERVER_ID = [Msg AcceptConnection] \<and> w_next ?w1 = 4 \<and>
      (\<exists>sv. w_actors ?w1 SERVER_ID = Some (Server sv) \<and> sv_sockfd sv = 3)"
    using w0
    by (simp add: deliver_def handle_actor_def actor_defs example_env_def run_effects_def run_effect_def post_def)
  ultimately show ?thesis by blast
qed

lemma example_accepted:
  "\<exists>w sk. reachable ops cfg s w \<and> w_actors w 4 = Some (Connection (fresh_connection 5 4 7) sk) \<and>
     \<not> sk_closed sk \<and> Msg PerformWelcome \<in> set (w_mail w 4)"
proof -
  from example_started [of ops cfg s] obtain w sv where w: "reachable ops cfg s w"
    "w_mail w SERVER_ID = [Msg AcceptConnection]" "w_actors w SERVER_ID = Some (Server sv)"
    "sv_sockfd sv = 3" "w_next w = 4" by blast
  let ?p = "w\<lparr>w_mail := (w_mail w)(SERVER_ID := [])\<rparr>"
  let ?w1 = "deliver ops (mud_of cfg) example_env SERVER_ID (Server sv) AcceptConnection ?p"
  have "step ops cfg w ?w1"
    by (rule step_message) (simp_all add: w step_env_ok_def example_env_def)
  with w(1) have "reachable ops cfg s ?w1" by (rule reachable_step)
  moreover obtain sk where sp: "spawn_actor (mud_of cfg) [] 4
      (SpawnConnection (server_welcome (ms_config (sv_mud sv))) 7) ?p = connection_births 4 7 sk ?p"
      "\<not> sk_closed sk"
    using spawn_connection_eq [of 7 "mud_of cfg" "[]" 4 _ ?p] by auto
  have "w_actors ?w1 4 = Some (Connection (fresh_connection 5 4 7) sk) \<and> Msg PerformWelcome \<in> set (w_mail ?w1 4)"
    using w sp(1)
    by (simp add: deliver_def handle_actor_def actor_defs example_env_def run_effects_def run_effect_def Let_def
        post_def connection_births_def SERVER_ID_def)
  ultimately show ?thesis using sp(2) by blast
qed

section \<open>Shutdown\<close>

lemma quit_reaches:
  "smap_get r (registery_id a) = Some b \<Longrightarrow> Send b GoodbyeConnection \<in> set (quit_connection_actors r)"
  by (auto simp: quit_connection_actors_def smap_get_def registery_id_match intro!: bexI [OF _ map_of_SomeD])

lemma post_mail: "set (w_mail w b) \<subseteq> set (w_mail (post c x w) b)"
  by (auto simp: post_def)

lemma run_sends_mail:
  assumes "list_all (\<lambda>e. \<exists>b m. e = Send b m) es" "w_actors w a = Some st" "Send a m \<in> set es \<or> Msg m \<in> set (w_mail w a)"
  shows "Msg m \<in> set (w_mail (foldl (run_effect sp) w es) a)"
  using assms
proof (induction es arbitrary: w)
  case Nil
  then show ?case by simp
next
  case (Cons e es)
  then obtain b k where e: "e = Send b k" by auto
  have "Send a m \<in> set es \<or> Msg m \<in> set (w_mail (run_effect sp w e) a)"
    using Cons.prems by (auto simp: e run_effect_def post_def)
  moreover have "w_actors (run_effect sp w e) a = Some st"
    using Cons.prems(2) by (simp add: e run_effect_def)
  ultimately show ?case using Cons by simp
qed

lemma quit_sends: "list_all (\<lambda>e. \<exists>b m. e = Send b m) (quit_connection_actors r)"
  by (auto simp: quit_connection_actors_def list_all_iff split: if_splits)

end
