(* ===== verification/Redis_Storage.thy ===== *)
theory Redis_Storage
  imports Storage
begin

text \<open>
  \<open>RedisStorage\<close>, \<^verbatim>\<open>pmud/src/storage/redis_storage.h\<close>, and the reader of stream replies,
  \<^verbatim>\<open>pmud/src/storage/redis_stream_injestor.h\<close>. The client library is third-party: its command
  functions are the fields of \<open>redis_api\<close>, over a connection \<open>'d\<close>, and its replies are trees. What
  a Redis server is documented to do with the commands is the locale \<open>redis_server\<close>; under it
  \<open>RedisStorage\<close> keeps the contract \<open>typed_storage\<close>. Memory that is given back is not modelled: \<open>redis_raw\<close>
  is what the code computes from the reply, and that it then uses \<open>delete\<close> on a reply which the library
  has allocated with \<open>malloc\<close>, undefined in C++, is a finding and not a fault of the model.
\<close>

section \<open>The client library\<close>

datatype redis_reply =
    RedisString string
  | RedisArray "redis_reply list"
  | RedisInteger int
  | RedisNil
  | RedisStatus string
  | RedisError string
  | RedisMap "redis_reply list"

record 'd redis_api =
  redisCommand :: "'d \<Rightarrow> string \<Rightarrow> string list \<Rightarrow> redis_reply option \<times> 'd"
  redisCommandArgv :: "'d \<Rightarrow> string list \<Rightarrow> redis_reply option \<times> 'd"

text \<open>\<open>reply->str\<close> made a \<open>std::string\<close>: a null pointer unless the reply carries a text.\<close>

definition reply_str :: "redis_reply \<Rightarrow> fault + string" where
  "reply_str r = (case r of
     RedisString s \<Rightarrow> Inr (c_str s)
   | RedisStatus s \<Rightarrow> Inr (c_str s)
   | RedisError s \<Rightarrow> Inr (c_str s)
   | _ \<Rightarrow> Inl NullString)"

text \<open>\<open>reply->element\<close>, of length \<open>reply->elements\<close>: zero unless the reply is an aggregate.\<close>

definition reply_elements :: "redis_reply \<Rightarrow> redis_reply list" where
  "reply_elements r = (case r of RedisArray es \<Rightarrow> es | RedisMap es \<Rightarrow> es | _ \<Rightarrow> [])"

text \<open>
  \<open>for (i = 0; i < elements; i += 2) m[element[i]->str] = element[i + 1]->str;\<close> with the right
  operand of the assignment evaluated first.
\<close>

fun read_fields :: "redis_reply list \<Rightarrow> map_t \<Rightarrow> fault + map_t" where
  "read_fields [] m = Inr m"
| "read_fields [k] m = Inl OutOfBounds"
| "read_fields (k # v # es) m =
     bindE (reply_str v) (\<lambda>v. bindE (reply_str k) (\<lambda>k. read_fields es (smap_put k v m)))"

section \<open>Reading streams\<close>

definition stream_record_of :: "string \<Rightarrow> redis_reply \<Rightarrow> fault + stream_record" where
  "stream_record_of timestamp flds =
     bindE (read_fields (reply_elements flds) []) (\<lambda>stream_fields.
       Inr \<lparr>sr_timestamp = timestamp, sr_fields = stream_fields\<rparr>)"

definition stream_response_of :: "string \<Rightarrow> redis_reply \<Rightarrow> fault + stream_response" where
  "stream_response_of stream_name records =
     bindE
       (foldE (\<lambda>record_elem stream_records.
          if length (reply_elements record_elem) < 2 then Inr stream_records
          else bindE (reply_str (reply_elements record_elem ! 0)) (\<lambda>ts.
            bindE (stream_record_of ts (reply_elements record_elem ! 1)) (\<lambda>r.
              Inr (stream_records @ [r]))))
        (reply_elements records) [])
       (\<lambda>stream_records. Inr \<lparr>sp_stream_name = stream_name, sp_records = stream_records\<rparr>)"

definition construct_stream_responses :: "redis_reply \<Rightarrow> fault + stream_response list" where
  "construct_stream_responses reply = (case reply of
     RedisArray es \<Rightarrow>
       foldE (\<lambda>top_elem responses.
          if length (reply_elements top_elem) < 2 then Inr responses
          else bindE (reply_str (reply_elements top_elem ! 0)) (\<lambda>name.
            bindE (stream_response_of name (reply_elements top_elem ! 1)) (\<lambda>r.
              Inr (responses @ [r])))) es []
   | _ \<Rightarrow> Inr [])"

section \<open>The storage operations\<close>

definition redis_value_store :: "'d redis_api \<Rightarrow> 'd \<Rightarrow> string \<Rightarrow> string \<Rightarrow> bool \<times> 'd" where
  "redis_value_store api d key v =
     (let (reply, d) = redisCommand api d ''SET %s %s'' [c_str key, c_str v] in (reply \<noteq> None, d))"

definition redis_value_get :: "'d redis_api \<Rightarrow> 'd \<Rightarrow> string \<Rightarrow> fault + string option" where
  "redis_value_get api d key =
     (let (reply, d) = redisCommand api d ''GET %s'' [c_str key] in
      case reply of
        None \<Rightarrow> Inr None
      | Some (RedisString s) \<Rightarrow> bindE (reply_str (RedisString s)) (\<lambda>s. Inr (Some s))
      | Some _ \<Rightarrow> Inr None)"

definition redis_map_store :: "'d redis_api \<Rightarrow> 'd \<Rightarrow> string \<Rightarrow> string \<Rightarrow> string \<Rightarrow> bool \<times> 'd" where
  "redis_map_store api d map_name key v =
     (let (reply, d) = redisCommand api d ''HSET %s %s %s'' [c_str map_name, c_str key, c_str v]
      in (reply \<noteq> None, d))"

definition is_aggregate :: "redis_reply \<Rightarrow> bool" where
  "is_aggregate r = (case r of RedisArray es \<Rightarrow> True | RedisMap es \<Rightarrow> True | _ \<Rightarrow> False)"

definition redis_map_get :: "'d redis_api \<Rightarrow> 'd \<Rightarrow> string \<Rightarrow> fault + map_t option" where
  "redis_map_get api d map_name =
     (let (reply, d) = redisCommand api d ''HGETALL %s'' [c_str map_name] in
      case reply of
        None \<Rightarrow> Inr None
      | Some r \<Rightarrow>
          if is_aggregate r then bindE (read_fields (reply_elements r) []) (\<lambda>result. Inr (Some result))
          else Inr None)"

definition redis_list_store :: "'d redis_api \<Rightarrow> 'd \<Rightarrow> string \<Rightarrow> string \<Rightarrow> bool \<times> 'd" where
  "redis_list_store api d list_name v =
     (let (reply, d) = redisCommand api d ''RPUSH %s %s'' [c_str list_name, c_str v] in (reply \<noteq> None, d))"

definition redis_list_get :: "'d redis_api \<Rightarrow> 'd \<Rightarrow> string \<Rightarrow> fault + list_t option" where
  "redis_list_get api d list_name =
     (let (reply, d) = redisCommand api d ''LRANGE %s 0 -1'' [c_str list_name] in
      case reply of
        Some (RedisArray es) \<Rightarrow>
          bindE (foldE (\<lambda>e result. bindE (reply_str e) (\<lambda>s. Inr (result @ [s]))) es [])
            (\<lambda>result. Inr (Some result))
      | _ \<Rightarrow> Inr None)"

definition redis_set_store :: "'d redis_api \<Rightarrow> 'd \<Rightarrow> string \<Rightarrow> string \<Rightarrow> bool \<times> 'd" where
  "redis_set_store api d set_name v =
     (let (reply, d) = redisCommand api d ''SADD %s %s'' [c_str set_name, c_str v] in (reply \<noteq> None, d))"

definition redis_set_get :: "'d redis_api \<Rightarrow> 'd \<Rightarrow> string \<Rightarrow> fault + set_t option" where
  "redis_set_get api d set_name =
     (let (reply, d) = redisCommand api d ''SMEMBERS %s'' [c_str set_name] in
      case reply of
        Some (RedisArray es) \<Rightarrow>
          bindE (foldE (\<lambda>e result. bindE (reply_str e) (\<lambda>s. Inr (set_insert s result))) es [])
            (\<lambda>result. Inr (Some result))
      | _ \<Rightarrow> Inr None)"

definition redis_del_key :: "'d redis_api \<Rightarrow> 'd \<Rightarrow> string \<Rightarrow> bool \<times> 'd" where
  "redis_del_key api d key =
     (let (reply, d) = redisCommand api d ''DEL %s'' [c_str key] in (reply \<noteq> None, d))"

text \<open>The fields of a record as arguments, in the order of the keys.\<close>

definition field_args :: "stream_record_fields \<Rightarrow> string list" where
  "field_args flds = concat (map (\<lambda>(key, val). [key, val]) flds)"

definition redis_event_store :: "'d redis_api \<Rightarrow> 'd \<Rightarrow> string \<Rightarrow> stream_record_fields \<Rightarrow> bool \<times> 'd" where
  "redis_event_store api d event_name flds =
     (let arg_vector = [''FCALL'', event_name, ''1'', ''events''] @ field_args flds;
          (reply, d) = redisCommandArgv api d (map c_str arg_vector)
      in (reply \<noteq> None, d))"

definition redis_stream_store :: "'d redis_api \<Rightarrow> 'd \<Rightarrow> string \<Rightarrow> stream_record_fields \<Rightarrow> bool \<times> 'd" where
  "redis_stream_store api d map_name flds =
     (let arg_vector = [''XADD'', map_name, ''*''] @ field_args flds;
          (reply, d) = redisCommandArgv api d (map c_str arg_vector)
      in (reply \<noteq> None, d))"

text \<open>The command text itself is the format of \<open>redisCommand\<close> here.\<close>

definition redis_read_stream_raw :: "'d redis_api \<Rightarrow> 'd \<Rightarrow> string \<Rightarrow> fault + stream_response list" where
  "redis_read_stream_raw api d command =
     (let (reply, d) = redisCommand api d (c_str command) [] in
      case reply of None \<Rightarrow> Inr [] | Some r \<Rightarrow> construct_stream_responses r)"

definition redis_read_stream_block ::
  "'d redis_api \<Rightarrow> 'd \<Rightarrow> string \<Rightarrow> string \<Rightarrow> u32 \<Rightarrow> fault + stream_response list" where
  "redis_read_stream_block api d stream_name pos timeout =
     (let (reply, d) = redisCommand api d ''XREAD BLOCK %s STREAMS %s %s''
            [string_of_nat (unat timeout), c_str stream_name, c_str pos] in
      case reply of None \<Rightarrow> Inr [] | Some r \<Rightarrow> construct_stream_responses r)"

definition redis_raw :: "'d redis_api \<Rightarrow> 'd \<Rightarrow> string \<Rightarrow> redis_reply option \<times> 'd" where
  "redis_raw api d command = redisCommand api d (c_str command) []"

text \<open>\<open>fmt\<close> refuses a null \<open>char*\<close>; only the kinds that carry a text are formatted with it.\<close>

fun redis_reply_dump :: "redis_reply \<Rightarrow> string \<Rightarrow> string" where
  "redis_reply_dump (RedisStatus s) indent = indent @ ''REDIS_REPLY_STATUS: '' @ c_str s @ [CHR 0x0A]"
| "redis_reply_dump (RedisError s) indent = indent @ ''REDIS_REPLY_ERROR: '' @ c_str s @ [CHR 0x0A]"
| "redis_reply_dump (RedisInteger i) indent = indent @ ''REDIS_REPLY_INTEGER: '' @ string_of_int i @ [CHR 0x0A]"
| "redis_reply_dump RedisNil indent = indent @ ''REDIS_REPLY_NIL'' @ [CHR 0x0A]"
| "redis_reply_dump (RedisString s) indent = indent @ ''REDIS_REPLY_STRING: '' @ c_str s"
| "redis_reply_dump (RedisArray es) indent =
     indent @ ''REDIS_REPLY_ARRAY'' @ [CHR 0x0A] @
     concat (map (\<lambda>e. redis_reply_dump e (indent @ ''  '') @ [CHR 0x0A]) es)"
| "redis_reply_dump (RedisMap es) indent = ''Unknown''"

definition redis_ops :: "'d redis_api \<Rightarrow> ('d \<Rightarrow> bool \<times> 'd) \<Rightarrow> 'd storage_ops" where
  "redis_ops api init_fn = \<lparr>
     so_init = init_fn,
     so_value_store = redis_value_store api, so_value_get = redis_value_get api,
     so_map_store = redis_map_store api, so_map_get = redis_map_get api,
     so_list_store = redis_list_store api, so_list_get = redis_list_get api,
     so_set_store = redis_set_store api, so_set_get = redis_set_get api,
     so_del_key = redis_del_key api,
     so_event_store = redis_event_store api, so_stream_store = redis_stream_store api,
     so_read_stream_raw = redis_read_stream_raw api,
     so_read_stream_block = redis_read_stream_block api\<rparr>"

lemma redis_ops_simps [simp]:
  "so_value_store (redis_ops api i) = redis_value_store api" "so_value_get (redis_ops api i) = redis_value_get api"
  "so_map_store (redis_ops api i) = redis_map_store api" "so_map_get (redis_ops api i) = redis_map_get api"
  "so_list_store (redis_ops api i) = redis_list_store api" "so_list_get (redis_ops api i) = redis_list_get api"
  "so_set_store (redis_ops api i) = redis_set_store api" "so_set_get (redis_ops api i) = redis_set_get api"
  "so_del_key (redis_ops api i) = redis_del_key api"
  "so_event_store (redis_ops api i) = redis_event_store api"
  "so_stream_store (redis_ops api i) = redis_stream_store api"
  by (simp_all add: redis_ops_def)

section \<open>Connecting\<close>

text \<open>
  \<open>hostname_to_ip\<close>, \<^verbatim>\<open>pmud/src/common/util.h\<close>, over the resolver of the system: an address in dotted
  form is kept, any other name is answered with the name the resolver has for the host.
\<close>

definition hostname_to_ip ::
  "(string \<Rightarrow> u32) \<Rightarrow> (string \<Rightarrow> string option) \<Rightarrow> string \<Rightarrow> string \<Rightarrow> int \<times> string" where
  "hostname_to_ip inet_addr gethostbyname hostname ip =
     (if inet_addr (c_str hostname) \<noteq> -1 then (0, hostname)
      else case gethostbyname (c_str hostname) of
             None \<Rightarrow> (-1, ip)
           | Some h_name \<Rightarrow> (0, h_name))"

text \<open>What the process finds around it: the resolver, the connection, the clock, the environment.\<close>

record 'd redis_env =
  re_inet_addr :: "string \<Rightarrow> u32"
  re_gethostbyname :: "string \<Rightarrow> string option"
  re_connect :: "string \<Rightarrow> int \<Rightarrow> ('d \<times> bool) option"    \<comment> \<open>a null context, or one and its error flag\<close>
  re_time :: int
  re_getenv :: "string \<Rightarrow> string option"

text \<open>The members of a \<open>RedisStorage\<close>: host, port and context.\<close>

record 'd redis_object =
  ro_host :: string
  ro_port :: int
  ro_context :: "'d option"

definition redis_storage_new :: "string \<Rightarrow> int \<Rightarrow> 'd redis_object" where
  "redis_storage_new host port = \<lparr>ro_host = host, ro_port = port, ro_context = None\<rparr>"

definition redis_init :: "'d redis_api \<Rightarrow> 'd redis_env \<Rightarrow> 'd redis_object \<Rightarrow> bool \<times> 'd redis_object" where
  "redis_init api env r =
     (let (status, ip) = hostname_to_ip (re_inet_addr env) (re_gethostbyname env) (ro_host r) [] in
      if status = -1 then (False, r)
      else case re_connect env (c_str ip) (ro_port r) of
             None \<Rightarrow> (False, r\<lparr>ro_context := None\<rparr>)
           | Some (d, err) \<Rightarrow>
               if err then (False, r\<lparr>ro_context := Some d\<rparr>)
               else (let (_, d) = redis_value_store api d ''server_last_connected'' (string_of_int (re_time env))
                     in (True, r\<lparr>ro_context := Some d\<rparr>)))"

text \<open>
  \<open>stoul(s)\<close> in base ten: white space, a sign, digits; \<open>invalid_argument\<close> without a digit and
  \<open>out_of_range\<close> above 64 bits; a minus sign negates modulo \<open>2\<^sup>6\<^sup>4\<close>.
\<close>

definition is_space :: "char \<Rightarrow> bool" where
  "is_space c \<longleftrightarrow> c \<in> set [CHR '' '', CHR 0x09, CHR 0x0A, CHR 0x0B, CHR 0x0C, CHR 0x0D]"

definition digits_value :: "string \<Rightarrow> nat" where
  "digits_value ds = foldl (\<lambda>n c. 10 * n + (of_char c - 48)) 0 ds"

definition stoul :: "string \<Rightarrow> fault + u64" where
  "stoul s =
     (let s = dropWhile is_space s;
          neg = (s \<noteq> [] \<and> hd s = CHR ''-'');
          s = (if s \<noteq> [] \<and> hd s \<in> {CHR ''-'', CHR ''+''} then tl s else s);
          ds = takeWhile is_digit s;
          n = digits_value ds
      in if ds = [] then Inl (Thrown ''stoul'')
         else if 2 ^ 64 \<le> n then Inl (Thrown ''stoul'')
         else Inr (if neg then - word_of_nat n else word_of_nat n))"

text \<open>\<open>initialize_redis_storage\<close>: a null storage is \<open>None\<close>; the port is cut to 16 bits.\<close>

definition initialize_redis_storage :: "'d redis_api \<Rightarrow> 'd redis_env \<Rightarrow> fault + 'd redis_object option" where
  "initialize_redis_storage api env =
     (let redis_host = (case re_getenv env ''REDIS_HOST'' of Some h \<Rightarrow> h | None \<Rightarrow> ''localhost'') in
      bindE (case re_getenv env ''REDIS_PORT'' of
               Some p \<Rightarrow> bindE (stoul p) (\<lambda>n. Inr (ucast n :: 16 word))
             | None \<Rightarrow> Inr 6379)
        (\<lambda>redis_port.
           let (ok, storage) = redis_init api env (redis_storage_new redis_host (uint redis_port))
           in Inr (if ok then Some storage else None)))"

section \<open>What the server is documented to do\<close>

text \<open>
  A key of the server holds one value of one type. \<open>SET\<close> replaces whatever the key holds; the other
  writes answer an error when the key holds another type, and change nothing; \<open>HGETALL\<close> and
  \<open>SMEMBERS\<close> list the contents in some order, without repetitions.
\<close>

datatype redis_value =
    RString string
  | RHash map_t
  | RList list_t
  | RSet set_t

type_synonym redis_db = "string \<Rightarrow> redis_value option"

fun db_hash :: "redis_value option \<Rightarrow> map_t option" where
  "db_hash None = Some []"
| "db_hash (Some (RHash h)) = Some h"
| "db_hash _ = None"

fun db_list :: "redis_value option \<Rightarrow> list_t option" where
  "db_list None = Some []"
| "db_list (Some (RList l)) = Some l"
| "db_list _ = None"

fun db_set :: "redis_value option \<Rightarrow> set_t option" where
  "db_set None = Some []"
| "db_set (Some (RSet t)) = Some t"
| "db_set _ = None"

definition nul_free :: "string \<Rightarrow> bool" where
  "nul_free s \<longleftrightarrow> CHR 0x00 \<notin> set s"

text \<open>One write command: the contents it leaves, given what the type of the key allows.\<close>

definition writes_db :: "('d \<Rightarrow> redis_db) \<Rightarrow> redis_reply option \<times> 'd \<Rightarrow> redis_db \<Rightarrow> string \<Rightarrow> redis_value option \<Rightarrow> bool" where
  "writes_db db r m k new = (case r of
     (reply, d') \<Rightarrow> reply \<noteq> None \<and> db d' = (case new of None \<Rightarrow> m | Some x \<Rightarrow> m(k \<mapsto> x)))"

locale redis_server =
  fixes api :: "'d redis_api" and db :: "'d \<Rightarrow> redis_db"
  assumes cmd_set: "writes_db db (redisCommand api d ''SET %s %s'' [k, v]) (db d) k (Some (RString v))"
    and cmd_hset: "writes_db db (redisCommand api d ''HSET %s %s %s'' [n, k, v]) (db d) n
          (map_option (\<lambda>h. RHash (smap_put k v h)) (db_hash (db d n)))"
    and cmd_rpush: "writes_db db (redisCommand api d ''RPUSH %s %s'' [n, v]) (db d) n
          (map_option (\<lambda>l. RList (l @ [v])) (db_list (db d n)))"
    and cmd_sadd: "writes_db db (redisCommand api d ''SADD %s %s'' [n, v]) (db d) n
          (map_option (\<lambda>t. RSet (set_insert v t)) (db_set (db d n)))"
    and cmd_del: "redisCommand api d ''DEL %s'' [k] = (r, d') \<Longrightarrow> r \<noteq> None \<and> db d' = (db d)(k := None)"
    and cmd_get: "fst (redisCommand api d ''GET %s'' [k]) = Some (case db d k of
          None \<Rightarrow> RedisNil | Some (RString v) \<Rightarrow> RedisString v | Some _ \<Rightarrow> RedisError ''WRONGTYPE'')"
    and cmd_hgetall: "db_hash (db d n) = Some h \<Longrightarrow> smap_ok h \<Longrightarrow> \<exists>ps. distinct (map fst ps) \<and> set ps = set h \<and>
          fst (redisCommand api d ''HGETALL %s'' [n]) = Some (RedisArray (map RedisString (field_args ps)))"
    and cmd_lrange: "db_list (db d n) = Some l \<Longrightarrow>
          fst (redisCommand api d ''LRANGE %s 0 -1'' [n]) = Some (RedisArray (map RedisString l))"
    and cmd_smembers: "db_set (db d n) = Some t \<Longrightarrow> \<exists>xs. distinct xs \<and> set xs = set t \<and>
          fst (redisCommand api d ''SMEMBERS %s'' [n]) = Some (RedisArray (map RedisString xs))"

text \<open>The contents as the storage contract sees them, and the texts a C string can carry.\<close>

definition redis_view :: "redis_db \<Rightarrow> store_view" where
  "redis_view m = \<lparr>
     vw_values = (\<lambda>k. case m k of Some (RString v) \<Rightarrow> Some v | _ \<Rightarrow> None),
     vw_maps = (\<lambda>k. case m k of Some (RHash h) \<Rightarrow> Some h | _ \<Rightarrow> None),
     vw_lists = (\<lambda>k. case m k of Some (RList l) \<Rightarrow> Some l | _ \<Rightarrow> None),
     vw_sets = (\<lambda>k. case m k of Some (RSet t) \<Rightarrow> Some t | _ \<Rightarrow> None)\<rparr>"

fun redis_value_ok :: "redis_value \<Rightarrow> bool" where
  "redis_value_ok (RString v) = nul_free v"
| "redis_value_ok (RHash h) = (smap_ok h \<and> (\<forall>(k, v) \<in> set h. nul_free k \<and> nul_free v))"
| "redis_value_ok (RList l) = list_all nul_free l"
| "redis_value_ok (RSet t) = (sset_ok t \<and> list_all nul_free t)"

definition redis_db_ok :: "redis_db \<Rightarrow> bool" where
  "redis_db_ok m \<longleftrightarrow> (\<forall>k x. m k = Some x \<longrightarrow> redis_value_ok x)"

lemma c_str_nul_free [simp]: "nul_free s \<Longrightarrow> c_str s = s"
  by (auto simp: nul_free_def c_str_def takeWhile_eq_all_conv)

lemma reply_str_string [simp]: "nul_free s \<Longrightarrow> reply_str (RedisString s) = Inr s"
  by (simp add: reply_str_def)

lemma nul_free_Nil [simp]: "nul_free []"
  by (simp add: nul_free_def)

text \<open>Reading back the arguments of fields, and lists of texts.\<close>

lemma field_args_simps [simp]: "field_args [] = []" "field_args ((k, v) # ps) = k # v # field_args ps"
  by (simp_all add: field_args_def)

lemma read_fields_args:
  "\<forall>(k, v) \<in> set ps. nul_free k \<and> nul_free v \<Longrightarrow>
   read_fields (map RedisString (field_args ps)) m = Inr (foldl (\<lambda>m (k, v). smap_put k v m) m ps)"
  by (induction ps arbitrary: m) auto

lemma foldE_append_strings:
  "list_all nul_free xs \<Longrightarrow>
   foldE (\<lambda>e result. bindE (reply_str e) (\<lambda>s. Inr (result @ [s]))) (map RedisString xs) acc = Inr (acc @ xs)"
  by (induction xs arbitrary: acc) auto

lemma foldE_insert_strings:
  "list_all nul_free xs \<Longrightarrow>
   foldE (\<lambda>e result. bindE (reply_str e) (\<lambda>s. Inr (set_insert s result))) (map RedisString xs) acc =
   Inr (foldl (\<lambda>t s. set_insert s t) acc xs)"
  by (induction xs arbitrary: acc) auto

lemma smap_of_pairs:
  "smap_ok m \<Longrightarrow> distinct (map fst ps) \<Longrightarrow> fst ` set ps \<inter> fst ` set m = {} \<Longrightarrow>
   smap_ok (foldl (\<lambda>m (k, v). smap_put k v m) m ps) \<and>
   (\<forall>k. smap_get (foldl (\<lambda>m (k, v). smap_put k v m) m ps) k =
     (case map_of ps k of Some v \<Rightarrow> Some v | None \<Rightarrow> smap_get m k))"
proof (induction ps arbitrary: m)
  case Nil
  then show ?case by simp
next
  case (Cons p ps)
  obtain k v where p: "p = (k, v)" by (cases p)
  have "fst ` set ps \<inter> fst ` set (smap_put k v m) = {}"
    using Cons.prems by (auto simp: p keys_smap_put)
  then have IH: "smap_ok (foldl (\<lambda>m (k, v). smap_put k v m) (smap_put k v m) ps) \<and>
     (\<forall>k'. smap_get (foldl (\<lambda>m (k, v). smap_put k v m) (smap_put k v m) ps) k' =
     (case map_of ps k' of Some v \<Rightarrow> Some v | None \<Rightarrow> smap_get (smap_put k v m) k'))"
    using Cons.prems by (intro Cons.IH) (auto simp: p smap_ok_put)
  have "map_of ps k = None" using Cons.prems(2) by (simp add: p map_of_eq_None_iff)
  then show ?case using IH by (auto simp: p smap_get_put split: option.splits)
qed

lemma smap_of_listing:
  assumes "smap_ok h" "distinct (map fst ps)" "set ps = set h"
  shows "foldl (\<lambda>m (k, v). smap_put k v m) [] ps = h"
proof -
  have same: "map_of ps k = map_of h k" for k
    using assms smap_ok_distinct [OF assms(1)] map_of_inject_set by metis
  from smap_of_pairs [of "[]" ps] assms(1,2) show ?thesis
    by (intro smap_ext) (auto simp: same smap_get_def split: option.split)
qed

lemma sset_of_inserts:
  "sset_ok t \<Longrightarrow> sset_ok (foldl (\<lambda>t s. set_insert s t) t xs) \<and>
   set (foldl (\<lambda>t s. set_insert s t) t xs) = set t \<union> set xs"
  by (induction xs arbitrary: t) (auto simp: sset_ok_insert)

lemma sset_of_listing:
  assumes "sset_ok t" "set xs = set t"
  shows "foldl (\<lambda>t s. set_insert s t) [] xs = t"
  using sset_of_inserts [of "[]" xs] assms by (intro sset_ext) auto

section \<open>The contract\<close>

lemma map_update_ok: "redis_db_ok m \<Longrightarrow> redis_value_ok x \<Longrightarrow> redis_db_ok (m(k \<mapsto> x))"
  by (simp add: redis_db_ok_def)

lemma hash_put_ok:
  assumes "redis_value_ok (RHash h)" "nul_free k" "nul_free v"
  shows "redis_value_ok (RHash (smap_put k v h))"
proof -
  have "set (smap_put k v h) \<subseteq> insert (k, v) (set h)"
    by (induction k v h rule: smap_put.induct) auto
  then show ?thesis using assms by (auto simp: smap_ok_put)
qed

text \<open>A key that is used for one kind holds that kind or nothing.\<close>

lemma typed_key:
  assumes "view_typed kd (redis_view m)"
  shows "kd k = KMap \<Longrightarrow> db_hash (m k) = Some (case vw_maps (redis_view m) k of None \<Rightarrow> [] | Some h \<Rightarrow> h)"
    and "kd k = KList \<Longrightarrow> db_list (m k) = Some (case vw_lists (redis_view m) k of None \<Rightarrow> [] | Some l \<Rightarrow> l)"
    and "kd k = KSet \<Longrightarrow> db_set (m k) = Some (case vw_sets (redis_view m) k of None \<Rightarrow> [] | Some t \<Rightarrow> t)"
  using assms unfolding view_typed_def redis_view_def
  by (cases "m k"; cases "the (m k)"; auto dest!: spec [where x = k])+

lemma typed_other:
  assumes "view_typed kd (redis_view m)"
  shows "kd k \<noteq> KValue \<Longrightarrow> vw_values (redis_view m) k = None"
    and "kd k \<noteq> KMap \<Longrightarrow> vw_maps (redis_view m) k = None"
    and "kd k \<noteq> KList \<Longrightarrow> vw_lists (redis_view m) k = None"
    and "kd k \<noteq> KSet \<Longrightarrow> vw_sets (redis_view m) k = None"
  using assms unfolding view_typed_def by metis+

lemma view_update:
  "vw_values (redis_view (m(k := x))) = (vw_values (redis_view m))(k := case x of Some (RString v) \<Rightarrow> Some v | _ \<Rightarrow> None)"
  "vw_maps (redis_view (m(k := x))) = (vw_maps (redis_view m))(k := case x of Some (RHash v) \<Rightarrow> Some v | _ \<Rightarrow> None)"
  "vw_lists (redis_view (m(k := x))) = (vw_lists (redis_view m))(k := case x of Some (RList v) \<Rightarrow> Some v | _ \<Rightarrow> None)"
  "vw_sets (redis_view (m(k := x))) = (vw_sets (redis_view m))(k := case x of Some (RSet v) \<Rightarrow> Some v | _ \<Rightarrow> None)"
  by (auto simp: redis_view_def fun_eq_iff)

lemma values_ok_hash: "redis_db_ok m \<Longrightarrow> db_hash (m k) = Some h \<Longrightarrow> redis_value_ok (RHash h)"
  unfolding redis_db_ok_def by (cases "m k" rule: db_hash.cases) fastforce+

lemma values_ok_string: "redis_db_ok m \<Longrightarrow> m k = Some (RString v) \<Longrightarrow> nul_free v"
  unfolding redis_db_ok_def by fastforce

lemma values_ok_list: "redis_db_ok m \<Longrightarrow> db_list (m k) = Some l \<Longrightarrow> redis_value_ok (RList l)"
  unfolding redis_db_ok_def by (cases "m k" rule: db_list.cases) fastforce+

lemma values_ok_set: "redis_db_ok m \<Longrightarrow> db_set (m k) = Some t \<Longrightarrow> redis_value_ok (RSet t)"
  unfolding redis_db_ok_def by (cases "m k" rule: db_set.cases) fastforce+

lemma set_insert_ok:
  "redis_value_ok (RSet t) \<Longrightarrow> nul_free v \<Longrightarrow> redis_value_ok (RSet (set_insert v t))"
  by (simp add: sset_ok_insert list_all_iff)

context redis_server
begin

lemma writes_some:
  assumes "writes_db db r m k (Some x)"
  shows "db (snd r) = m(k \<mapsto> x)"
  using assms by (auto simp: writes_db_def split: prod.splits)

lemma run_redis_op:
  assumes ok: "redis_db_ok (db d)" and ty: "view_typed kd (redis_view (db d))"
    and op: "op_typed kd op" "list_all nul_free (op_texts op)"
  shows "redis_db_ok (db (run_op (redis_ops api i) d op)) \<and>
    redis_view (db (run_op (redis_ops api i) d op)) = spec_op (redis_view (db d)) op"
proof (cases op)
  case (OpValue k v)
  have "db (run_op (redis_ops api i) d op) = (db d)(k \<mapsto> RString v)"
    using writes_some [OF cmd_set [of d k v]] op by (auto simp: OpValue redis_value_store_def split: prod.split)
  then show ?thesis using ok op typed_other [OF ty, of k]
    by (simp add: OpValue map_update_ok)
       (intro store_view.equality, simp_all add: view_update spec_value_store_def fun_upd_idem)
next
  case (OpMap n k v)
  define h where "h = (case vw_maps (redis_view (db d)) n of None \<Rightarrow> [] | Some h \<Rightarrow> h)"
  have h: "db_hash (db d n) = Some h" using typed_key(1) [OF ty] op by (simp add: OpMap h_def)
  have "db (run_op (redis_ops api i) d op) = (db d)(n \<mapsto> RHash (smap_put k v h))"
    using cmd_hset [of d n k v] op h writes_some by (fastforce simp: OpMap redis_map_store_def split: prod.split)
  moreover have "redis_value_ok (RHash (smap_put k v h))"
    by (rule hash_put_ok [OF values_ok_hash [OF ok h]]) (use op in \<open>simp_all add: OpMap\<close>)
  ultimately show ?thesis using ok typed_other [OF ty, of n] op
    by (simp only:, intro conjI map_update_ok store_view.equality)
       (simp_all add: OpMap view_update spec_map_store_def h_def [symmetric] fun_upd_idem
         del: redis_value_ok.simps)
next
  case (OpList n v)
  define l where "l = (case vw_lists (redis_view (db d)) n of None \<Rightarrow> [] | Some l \<Rightarrow> l)"
  have l: "db_list (db d n) = Some l" using typed_key(2) [OF ty] op by (simp add: OpList l_def)
  have "db (run_op (redis_ops api i) d op) = (db d)(n \<mapsto> RList (l @ [v]))"
    using cmd_rpush [of d n v] op l writes_some by (fastforce simp: OpList redis_list_store_def split: prod.split)
  then show ?thesis using ok op typed_other [OF ty, of n] values_ok_list [OF ok l]
    by (simp only:, intro conjI map_update_ok store_view.equality)
       (simp_all add: OpList view_update spec_list_store_def l_def [symmetric] fun_upd_idem)
next
  case (OpSet n v)
  define t where "t = (case vw_sets (redis_view (db d)) n of None \<Rightarrow> [] | Some t \<Rightarrow> t)"
  have t: "db_set (db d n) = Some t" using typed_key(3) [OF ty] op by (simp add: OpSet t_def)
  have "db (run_op (redis_ops api i) d op) = (db d)(n \<mapsto> RSet (set_insert v t))"
    using cmd_sadd [of d n v] op t writes_some by (fastforce simp: OpSet redis_set_store_def split: prod.split)
  then show ?thesis using ok op typed_other [OF ty, of n] set_insert_ok [OF values_ok_set [OF ok t]]
    by (simp only:, intro conjI map_update_ok store_view.equality)
       (simp_all add: OpSet view_update spec_set_store_def t_def [symmetric] fun_upd_idem)
next
  case (OpDel k)
  have "db (run_op (redis_ops api i) d op) = (db d)(k := None)"
    using cmd_del [of d k] op by (auto simp: OpDel redis_del_key_def split: prod.split)
  then show ?thesis using ok
    by (simp only:, intro conjI store_view.equality)
       (simp_all add: OpDel view_update spec_del_key_def redis_db_ok_def)
qed

end

context redis_server
begin

lemma redis_value_get_reads:
  "redis_db_ok (db d) \<Longrightarrow> nul_free k \<Longrightarrow>
   redis_value_get api d k = Inr (vw_values (redis_view (db d)) k)"
  using cmd_get [of d k] values_ok_string [of "db d" k]
  by (auto simp: redis_value_get_def redis_view_def split: prod.split option.splits redis_value.splits)

lemma redis_map_get_reads:
  assumes ok: "redis_db_ok (db d)" and n: "nul_free n" and ty: "view_typed kd (redis_view (db d))" "kd n = KMap"
  shows "\<exists>r. redis_map_get api d n = Inr r \<and> reads_as r (vw_maps (redis_view (db d)) n)"
proof -
  define h where "h = (case vw_maps (redis_view (db d)) n of None \<Rightarrow> [] | Some h \<Rightarrow> h)"
  have h: "db_hash (db d n) = Some h" using typed_key(1) [OF ty] by (simp add: h_def)
  have hok: "redis_value_ok (RHash h)" by (rule values_ok_hash [OF ok h])
  then have "smap_ok h" by simp
  from cmd_hgetall [OF h this] obtain ps where ps: "distinct (map fst ps)" "set ps = set h"
    "fst (redisCommand api d ''HGETALL %s'' [n]) = Some (RedisArray (map RedisString (field_args ps)))" by blast
  from hok have "read_fields (map RedisString (field_args ps)) [] = Inr h"
    using ps(2) smap_of_listing [OF _ ps(1,2)] by (subst read_fields_args) auto
  then have "redis_map_get api d n = Inr (Some h)"
    using ps(3) n by (auto simp: redis_map_get_def is_aggregate_def reply_elements_def split: prod.split)
  then show ?thesis by (auto simp: reads_as_def h_def split: option.split)
qed

lemma redis_list_get_reads:
  assumes ok: "redis_db_ok (db d)" and n: "nul_free n" and ty: "view_typed kd (redis_view (db d))" "kd n = KList"
  shows "\<exists>r. redis_list_get api d n = Inr r \<and> reads_as r (vw_lists (redis_view (db d)) n)"
proof -
  define l where "l = (case vw_lists (redis_view (db d)) n of None \<Rightarrow> [] | Some l \<Rightarrow> l)"
  have l: "db_list (db d n) = Some l" using typed_key(2) [OF ty] by (simp add: l_def)
  have "list_all nul_free l" using values_ok_list [OF ok l] by simp
  then have "redis_list_get api d n = Inr (Some l)"
    using cmd_lrange [OF l] n by (auto simp: redis_list_get_def foldE_append_strings split: prod.split)
  then show ?thesis by (auto simp: reads_as_def l_def split: option.split)
qed

lemma redis_set_get_reads:
  assumes ok: "redis_db_ok (db d)" and n: "nul_free n" and ty: "view_typed kd (redis_view (db d))" "kd n = KSet"
  shows "\<exists>r. redis_set_get api d n = Inr r \<and> reads_as r (vw_sets (redis_view (db d)) n)"
proof -
  define t where "t = (case vw_sets (redis_view (db d)) n of None \<Rightarrow> [] | Some t \<Rightarrow> t)"
  have t: "db_set (db d n) = Some t" using typed_key(3) [OF ty] by (simp add: t_def)
  from cmd_smembers [OF t] obtain xs where xs: "distinct xs" "set xs = set t"
    "fst (redisCommand api d ''SMEMBERS %s'' [n]) = Some (RedisArray (map RedisString xs))" by blast
  have tok: "sset_ok t" "list_all nul_free t" using values_ok_set [OF ok t] by simp_all
  then have "list_all nul_free xs" using xs(2) by (simp add: list_all_iff)
  then have "redis_set_get api d n = Inr (Some t)"
    using xs(3) n sset_of_listing [OF tok(1) xs(2)]
    by (auto simp: redis_set_get_def foldE_insert_strings split: prod.split)
  then show ?thesis by (auto simp: reads_as_def t_def split: option.split)
qed

lemma redis_typed:
  "typed_storage (redis_ops api init_fn) (\<lambda>d. redis_view (db d)) (\<lambda>d. redis_db_ok (db d)) nul_free"
proof
  fix d kd op
  assume "redis_db_ok (db d)" "view_typed kd (redis_view (db d))" "op_typed kd op" "list_all nul_free (op_texts op)"
  then show "redis_db_ok (db (run_op (redis_ops api init_fn) d op)) \<and>
      redis_view (db (run_op (redis_ops api init_fn) d op)) = spec_op (redis_view (db d)) op"
    by (rule run_redis_op)
next
  fix d n kd
  assume a: "redis_db_ok (db d)" "nul_free n"
  show "so_value_get (redis_ops api init_fn) d n = Inr (vw_values (redis_view (db d)) n)"
    using redis_value_get_reads [OF a] by simp
  assume b: "view_typed kd (redis_view (db d))"
  show "\<exists>r. so_map_get (redis_ops api init_fn) d n = Inr r \<and> reads_as r (vw_maps (redis_view (db d)) n)"
    if "kd n = KMap" using redis_map_get_reads [OF a b that] by simp
  show "\<exists>r. so_list_get (redis_ops api init_fn) d n = Inr r \<and> reads_as r (vw_lists (redis_view (db d)) n)"
    if "kd n = KList" using redis_list_get_reads [OF a b that] by simp
  show "\<exists>r. so_set_get (redis_ops api init_fn) d n = Inr r \<and> reads_as r (vw_sets (redis_view (db d)) n)"
    if "kd n = KSet" using redis_set_get_reads [OF a b that] by simp
qed

end

sublocale redis_server \<subseteq>
  redis: typed_storage "redis_ops api init_fn" "\<lambda>d. redis_view (db d)" "\<lambda>d. redis_db_ok (db d)" nul_free
  by (rule redis_typed)

section \<open>A server in memory\<close>

text \<open>A server that keeps its keys in a function, with the behaviour the locale asks for.\<close>

definition memory_write :: "redis_db \<Rightarrow> string \<Rightarrow> redis_value option \<Rightarrow> redis_reply option \<times> redis_db" where
  "memory_write m k new = (case new of
     None \<Rightarrow> (Some (RedisError ''WRONGTYPE''), m)
   | Some x \<Rightarrow> (Some (RedisInteger 1), m(k \<mapsto> x)))"

definition memory_read :: "redis_db \<Rightarrow> string list option \<Rightarrow> redis_reply option \<times> redis_db" where
  "memory_read m xs = (case xs of
     None \<Rightarrow> (Some (RedisError ''WRONGTYPE''), m)
   | Some xs \<Rightarrow> (Some (RedisArray (map RedisString xs)), m))"

text \<open>The name that \<open>TYPE\<close> answers.\<close>

fun type_name :: "redis_value option \<Rightarrow> string" where
  "type_name None = ''none''"
| "type_name (Some (RString v)) = ''string''"
| "type_name (Some (RHash h)) = ''hash''"
| "type_name (Some (RList l)) = ''list''"
| "type_name (Some (RSet t)) = ''set''"

definition memory_command :: "redis_db \<Rightarrow> string \<Rightarrow> string list \<Rightarrow> redis_reply option \<times> redis_db" where
  "memory_command m fmt args =
     (let k = args ! 0 in
      if fmt = ''SET %s %s'' then memory_write m k (Some (RString (args ! 1)))
      else if fmt = ''HSET %s %s %s''
        then memory_write m k (map_option (\<lambda>h. RHash (smap_put (args ! 1) (args ! 2) h)) (db_hash (m k)))
      else if fmt = ''RPUSH %s %s''
        then memory_write m k (map_option (\<lambda>l. RList (l @ [args ! 1])) (db_list (m k)))
      else if fmt = ''SADD %s %s''
        then memory_write m k (map_option (\<lambda>t. RSet (set_insert (args ! 1) t)) (db_set (m k)))
      else if fmt = ''DEL %s'' then (Some (RedisInteger 1), m(k := None))
      else if fmt = ''GET %s'' then (Some (case m k of
          None \<Rightarrow> RedisNil | Some (RString v) \<Rightarrow> RedisString v | Some _ \<Rightarrow> RedisError ''WRONGTYPE''), m)
      else if fmt = ''HGETALL %s'' then memory_read m (map_option field_args (db_hash (m k)))
      else if fmt = ''LRANGE %s 0 -1'' then memory_read m (db_list (m k))
      else if fmt = ''SMEMBERS %s'' then memory_read m (map_option remdups (db_set (m k)))
      else if take 5 fmt = ''TYPE '' then (Some (RedisStatus (type_name (m (drop 5 fmt)))), m)
      else (Some (RedisError ''ERR unknown command''), m))"

definition memory_redis :: "redis_db redis_api" where
  "memory_redis = \<lparr>redisCommand = memory_command, redisCommandArgv = (\<lambda>m args. (Some RedisNil, m))\<rparr>"

lemma memory_writes:
  "writes_db (\<lambda>m. m) (memory_write m k new) m k new"
  by (auto simp: writes_db_def memory_write_def split: option.split)

lemma memory_redis_server: "redis_server memory_redis (\<lambda>m. m)"
proof (unfold_locales, goal_cases)
  case (5 d k r d')
  then show ?case by (auto simp: memory_redis_def memory_command_def)
next
  case (7 d n h)
  then show ?case
    by (intro exI [of _ h])
       (simp add: memory_redis_def memory_command_def memory_read_def smap_ok_distinct)
next
  case (9 d n t)
  then show ?case
    by (intro exI [of _ "remdups t"]) (simp add: memory_redis_def memory_command_def memory_read_def)
qed (simp_all add: memory_redis_def memory_command_def memory_writes memory_read_def)

interpretation memory_redis: redis_server memory_redis "\<lambda>m. m"
  by (rule memory_redis_server)

section \<open>Replies of a stream read\<close>

text \<open>The reply of \<open>XREAD\<close> for given records, as the server documents it.\<close>

definition record_reply :: "stream_record \<Rightarrow> redis_reply" where
  "record_reply r = RedisArray [RedisString (sr_timestamp r),
     RedisArray (map RedisString (field_args (sr_fields r)))]"

definition stream_reply :: "stream_response list \<Rightarrow> redis_reply" where
  "stream_reply rs = RedisArray (map (\<lambda>r. RedisArray [RedisString (sp_stream_name r),
     RedisArray (map record_reply (sp_records r))]) rs)"

definition record_ok :: "stream_record \<Rightarrow> bool" where
  "record_ok r \<longleftrightarrow> nul_free (sr_timestamp r) \<and> smap_ok (sr_fields r) \<and>
     list_all (\<lambda>(k, v). nul_free k \<and> nul_free v) (sr_fields r)"

definition response_ok :: "stream_response \<Rightarrow> bool" where
  "response_ok r \<longleftrightarrow> nul_free (sp_stream_name r) \<and> list_all record_ok (sp_records r)"

lemma read_fields_record:
  assumes "smap_ok m" "list_all (\<lambda>(k, v). nul_free k \<and> nul_free v) m"
  shows "read_fields (map RedisString (field_args m)) [] = Inr m"
  using assms smap_of_listing [OF assms(1) smap_ok_distinct [OF assms(1)] refl]
  by (simp add: read_fields_args list_all_iff)

lemma reply_elements_array [simp]: "reply_elements (RedisArray es) = es"
  by (simp add: reply_elements_def)

lemma foldE_append_map:
  "(\<And>x acc. x \<in> set xs \<Longrightarrow> f (g x) acc = Inr (acc @ [x])) \<Longrightarrow>
   foldE f (map g xs) acc = Inr (acc @ xs)"
  by (induction xs arbitrary: acc) auto

lemma stream_response_of_reply:
  assumes "list_all record_ok rs"
  shows "stream_response_of name (RedisArray (map record_reply rs)) =
    Inr \<lparr>sp_stream_name = name, sp_records = rs\<rparr>"
proof -
  have "foldE (\<lambda>record_elem stream_records.
          if length (reply_elements record_elem) < 2 then Inr stream_records
          else bindE (reply_str (reply_elements record_elem ! 0)) (\<lambda>ts.
            bindE (stream_record_of ts (reply_elements record_elem ! 1)) (\<lambda>r.
              Inr (stream_records @ [r])))) (map record_reply rs) [] = Inr ([] @ rs)"
    using assms
    by (intro foldE_append_map)
       (auto simp: record_reply_def stream_record_of_def record_ok_def list_all_iff read_fields_record)
  then show ?thesis by (simp add: stream_response_of_def)
qed

lemma construct_of_reply:
  "list_all response_ok rs \<Longrightarrow> construct_stream_responses (stream_reply rs) = Inr rs"
  unfolding construct_stream_responses_def stream_reply_def redis_reply.case
  by (subst foldE_append_map) (auto simp: response_ok_def list_all_iff stream_response_of_reply)

section \<open>Properties\<close>

text \<open>
  C20: Over a server that does what Redis documents, any run of store and delete calls that uses each
  key for one kind of data leaves exactly the contents the calls promise, and afterwards the four
  lookups read these contents back (an absent map, list or set may read as an empty one); the texts
  must be free of NUL, which ends the C strings the class hands to the client library.
\<close>

theorem redis_storage_keeps_contract:
  assumes server: "redis_server api db" and "redis_db_ok (db d)" "view_typed kd (redis_view (db d))"
    and "list_all (op_typed kd) tr" "list_all (\<lambda>op. list_all nul_free (op_texts op)) tr"
    and d': "d' = foldl (run_op (redis_ops api i)) d tr" and w: "w = foldl spec_op (redis_view (db d)) tr"
  shows "redis_view (db d') = w \<and>
    (\<forall>n. nul_free n \<longrightarrow>
      redis_value_get api d' n = Inr (vw_values w n) \<and>
      (kd n = KMap \<longrightarrow> (\<exists>r. redis_map_get api d' n = Inr r \<and> reads_as r (vw_maps w n))) \<and>
      (kd n = KList \<longrightarrow> (\<exists>r. redis_list_get api d' n = Inr r \<and> reads_as r (vw_lists w n))) \<and>
      (kd n = KSet \<longrightarrow> (\<exists>r. redis_set_get api d' n = Inr r \<and> reads_as r (vw_sets w n))))"
proof -
  have run: "redis_db_ok (db d') \<and> redis_view (db d') = w \<and> view_typed kd w"
    unfolding d' w using typed_storage.typed_run [OF redis_server.redis_typed [OF server]] assms(2-5) by blast
  then have w': "w = redis_view (db d')" by simp
  show ?thesis unfolding w'
    using run redis_server.redis_value_get_reads [OF server] redis_server.redis_map_get_reads [OF server]
      redis_server.redis_list_get_reads [OF server] redis_server.redis_set_get_reads [OF server]
    by blast
qed

definition example_kinds :: "string \<Rightarrow> store_kind" where
  "example_kinds k = (if k = ''users'' then KMap else KList)"

theorem redis_storage_keeps_contract_witness:
  "redis_map_get memory_redis
     (foldl (run_op (redis_ops memory_redis (\<lambda>m. (True, m)))) Map.empty
       [OpMap ''users'' ''ann'' ''1'', OpList ''log'' ''x'', OpMap ''users'' ''bob'' ''2'', OpDel ''log''])
     ''users'' = Inr (Some [(''ann'', ''1''), (''bob'', ''2'')])"
proof -
  let ?tr = "[OpMap ''users'' ''ann'' ''1'', OpList ''log'' ''x'', OpMap ''users'' ''bob'' ''2'', OpDel ''log'']"
  let ?d = "foldl (run_op (redis_ops memory_redis (\<lambda>m. (True, m)))) Map.empty ?tr"
  let ?w = "foldl spec_op (redis_view Map.empty) ?tr"
  have w: "vw_maps ?w ''users'' = Some [(''ann'', ''1''), (''bob'', ''2'')]"
    by (simp add: redis_view_def spec_map_store_def spec_list_store_def spec_del_key_def)
  have pre: "redis_db_ok Map.empty" "view_typed example_kinds (redis_view Map.empty)"
    "list_all (op_typed example_kinds) ?tr" "list_all (\<lambda>op. list_all nul_free (op_texts op)) ?tr"
    by (simp_all add: redis_db_ok_def view_typed_def redis_view_def example_kinds_def nul_free_def)
  have n: "nul_free ''users''" "example_kinds ''users'' = KMap"
    by (simp_all add: example_kinds_def nul_free_def)
  note all = redis_storage_keeps_contract [OF memory_redis_server, of Map.empty, OF pre refl refl]
  from all n obtain r where "redis_map_get memory_redis ?d ''users'' = Inr r" "reads_as r (vw_maps ?w ''users'')"
    by blast
  then show ?thesis unfolding w reads_as_def by simp
qed

text \<open>
  A store into a key that holds another type is refused by the server, which changes nothing, and
  still reported to the caller as done: only a broken connection counts as a failure.
\<close>

theorem redis_wrong_type_reported_stored:
  assumes "redis_server api db" "nul_free n" "db d n = Some x" "db_hash (Some x) = None"
  shows "\<exists>d'. redis_map_store api d n k v = (True, d') \<and> db d' = db d"
  using redis_server.cmd_hset [OF assms(1), of d n "c_str k" "c_str v"] assms(2-4)
  by (auto simp: redis_map_store_def writes_db_def split: prod.splits)

theorem redis_wrong_type_reported_stored_witness:
  "\<exists>d'. redis_map_store memory_redis [''users'' \<mapsto> RString ''1''] ''users'' ''ann'' ''x'' = (True, d') \<and>
     d' = [''users'' \<mapsto> RString ''1'']"
  using redis_wrong_type_reported_stored [OF memory_redis_server, of "''users''" "[''users'' \<mapsto> RString ''1'']"]
  by (simp add: nul_free_def)

text \<open>
  The reply of a stream read, nested arrays of names, time stamps and alternating fields and
  values, is read back into exactly the streams and records it stands for, for any number of them.
\<close>

theorem stream_reply_roundtrip:
  assumes "list_all response_ok rs"
  shows "construct_stream_responses (stream_reply rs) = Inr rs"
  by (rule construct_of_reply [OF assms])

theorem stream_reply_roundtrip_witness:
  "construct_stream_responses (RedisArray [RedisArray [RedisString ''events'',
     RedisArray [RedisArray [RedisString ''1-0'', RedisArray [RedisString ''a'', RedisString ''1'',
       RedisString ''b'', RedisString ''2'']]]]]) =
   Inr [\<lparr>sp_stream_name = ''events'', sp_records =
     [\<lparr>sr_timestamp = ''1-0'', sr_fields = [(''a'', ''1''), (''b'', ''2'')]\<rparr>]\<rparr>]"
  using stream_reply_roundtrip [of "[\<lparr>sp_stream_name = ''events'', sp_records =
     [\<lparr>sr_timestamp = ''1-0'', sr_fields = [(''a'', ''1''), (''b'', ''2'')]\<rparr>]\<rparr>]"]
  by (simp add: response_ok_def record_ok_def nul_free_def smap_ok_def stream_reply_def record_reply_def)

text \<open>
  A record whose array has an odd number of elements is reported in the log and read all the
  same, past the end of the array.
\<close>

theorem stream_odd_fields_overrun:
  assumes "list_all (\<lambda>(k, v). nul_free k \<and> nul_free v) ps"
  shows "stream_record_of ts (RedisArray (map RedisString (field_args ps @ [k]))) = Inl OutOfBounds"
proof -
  have "read_fields (map RedisString (field_args ps @ [k])) m = Inl OutOfBounds" for m
    using assms by (induction ps arbitrary: m) auto
  then show ?thesis by (simp add: stream_record_of_def)
qed

theorem stream_odd_fields_overrun_witness:
  "stream_record_of ''1-0'' (RedisArray [RedisString ''a'', RedisString ''1'', RedisString ''b'']) =
   Inl OutOfBounds"
  using stream_odd_fields_overrun [of "[(''a'', ''1'')]" "''1-0''" "''b''"] by (simp add: nul_free_def)

end
