(* ===== verification/Yaml_Storage.thy ===== *)
theory Yaml_Storage
  imports Storage
begin

text \<open>
  \<open>yaml_to_storage\<close>, \<^verbatim>\<open>pmud/src/storage/yaml_storage.h\<close>: a walk over a parsed YAML document that
  stores scalars, maps and sequences under colon-separated keys; and \<open>yaml_to_buffer\<close>,
  \<^verbatim>\<open>pmud/src/common/yaml_util.h\<close>. The document is the tree of the YAML library's node types;
  the library's conversion of a node to a string is the argument \<open>conv\<close>, which may throw.
\<close>

section \<open>Documents\<close>

datatype yaml =
    YNull
  | YScalar string
  | YSeq "yaml list"
  | YMap "(yaml \<times> yaml) list"
  | YUndefined

definition is_scalar :: "yaml \<Rightarrow> bool" where
  "is_scalar n = (case n of YScalar _ \<Rightarrow> True | _ \<Rightarrow> False)"

text \<open>\<open>regex_replace(name, regex("_"), ":")\<close>\<close>

definition path_name :: "string \<Rightarrow> string" where
  "path_name name = map (\<lambda>c. if c = CHR ''_'' then CHR '':'' else c) name"

definition new_path :: "string \<Rightarrow> string \<Rightarrow> string" where
  "new_path path name = path @ '':'' @ path_name name"

section \<open>Loading a document\<close>

text \<open>
  The loops of the sequence and the map case are functions of their own. The recursive calls leave
  \<open>idempotence\<close> at its default \<open>true\<close>, and \<open>virgin\<close> is never reset.
\<close>

fun yaml_to_storage ::
  "'s storage_ops \<Rightarrow> (yaml \<Rightarrow> fault + string) \<Rightarrow> 's \<Rightarrow> string \<Rightarrow> yaml \<Rightarrow> bool \<Rightarrow> fault + 's"
  and yaml_seq ::
  "'s storage_ops \<Rightarrow> (yaml \<Rightarrow> fault + string) \<Rightarrow> 's \<Rightarrow> string \<Rightarrow> yaml list \<Rightarrow> fault + 's"
  and yaml_map ::
  "'s storage_ops \<Rightarrow> (yaml \<Rightarrow> fault + string) \<Rightarrow> 's \<Rightarrow> string \<Rightarrow> (yaml \<times> yaml) list \<Rightarrow> bool \<Rightarrow> bool \<Rightarrow>
   fault + 's" where
  "yaml_to_storage ops conv s path YNull idempotence = Inr s"
| "yaml_to_storage ops conv s path (YScalar t) idempotence =
     bindE (conv (YScalar t)) (\<lambda>v. Inr (snd (so_value_store ops s path v)))"
| "yaml_to_storage ops conv s path (YSeq es) idempotence = yaml_seq ops conv s path es"
| "yaml_to_storage ops conv s path (YMap es) idempotence =
     (let virgin = True in yaml_map ops conv s path es idempotence virgin)"
| "yaml_to_storage ops conv s path YUndefined idempotence = Inr s"
| "yaml_seq ops conv s path [] = Inr s"
| "yaml_seq ops conv s path (entry # es) =
     bindE
       (if is_scalar entry
        then bindE (conv entry) (\<lambda>v. Inr (snd (so_set_store ops s path v)))
        else yaml_to_storage ops conv s path entry True)
       (\<lambda>s. yaml_seq ops conv s path es)"
| "yaml_map ops conv s path [] idempotence virgin = Inr s"
| "yaml_map ops conv s path ((key, val) # es) idempotence virgin =
     bindE
       (if is_scalar val
        then bindE (conv key) (\<lambda>k. bindE (conv val) (\<lambda>v. Inr (snd (so_map_store ops s path k v))))
        else bindE (conv key) (\<lambda>k.
          let s = (if idempotence \<and> virgin then snd (so_del_key ops s (new_path path k)) else s)
          in yaml_to_storage ops conv s (new_path path k) val True))
       (\<lambda>s. yaml_map ops conv s path es idempotence virgin)"

section \<open>Printing a document\<close>

fun yaml_to_buffer :: "(yaml \<Rightarrow> fault + string) \<Rightarrow> string \<Rightarrow> yaml \<Rightarrow> string \<Rightarrow> fault + string"
  and yaml_seq_buffer :: "(yaml \<Rightarrow> fault + string) \<Rightarrow> string \<Rightarrow> yaml list \<Rightarrow> string \<Rightarrow> fault + string"
  and yaml_map_buffer :: "(yaml \<Rightarrow> fault + string) \<Rightarrow> string \<Rightarrow> (yaml \<times> yaml) list \<Rightarrow> string \<Rightarrow> fault + string" where
  "yaml_to_buffer conv out YNull indent = Inr out"
| "yaml_to_buffer conv out (YScalar t) indent = bindE (conv (YScalar t)) (\<lambda>v. Inr (out @ indent @ v))"
| "yaml_to_buffer conv out (YSeq es) indent =
     yaml_seq_buffer conv (out @ indent @ ''(seq)'' @ [CHR 0x0A]) es indent"
| "yaml_to_buffer conv out (YMap es) indent =
     yaml_map_buffer conv (out @ indent @ ''(map)'' @ [CHR 0x0A]) es indent"
| "yaml_to_buffer conv out YUndefined indent = Inr (out @ ''(undef)'' @ [CHR 0x0A])"
| "yaml_seq_buffer conv out [] indent = Inr out"
| "yaml_seq_buffer conv out (entry # es) indent =
     bindE
       (if is_scalar entry
        then bindE (yaml_to_buffer conv out entry indent) (\<lambda>out. Inr (out @ [CHR 0x0A]))
        else yaml_to_buffer conv out entry indent)
       (\<lambda>out. yaml_seq_buffer conv out es indent)"
| "yaml_map_buffer conv out [] indent = Inr out"
| "yaml_map_buffer conv out ((key, val) # es) indent =
     bindE (conv key) (\<lambda>k.
       let out = out @ indent @ k @ '': '' in
       bindE
         (if is_scalar val
          then bindE (yaml_to_buffer conv out val []) (\<lambda>out. Inr (out @ [CHR 0x0A]))
          else yaml_to_buffer conv (out @ [CHR 0x0A]) val (indent @ ''  ''))
         (\<lambda>out. yaml_map_buffer conv out es indent))"

section \<open>The storage calls of a load\<close>

fun yaml_ops :: "(yaml \<Rightarrow> fault + string) \<Rightarrow> string \<Rightarrow> yaml \<Rightarrow> bool \<Rightarrow> fault + store_op list"
  and seq_ops :: "(yaml \<Rightarrow> fault + string) \<Rightarrow> string \<Rightarrow> yaml list \<Rightarrow> fault + store_op list"
  and map_ops :: "(yaml \<Rightarrow> fault + string) \<Rightarrow> string \<Rightarrow> (yaml \<times> yaml) list \<Rightarrow> bool \<Rightarrow> fault + store_op list" where
  "yaml_ops conv path YNull idem = Inr []"
| "yaml_ops conv path (YScalar t) idem = bindE (conv (YScalar t)) (\<lambda>v. Inr [OpValue path v])"
| "yaml_ops conv path (YSeq es) idem = seq_ops conv path es"
| "yaml_ops conv path (YMap es) idem = map_ops conv path es idem"
| "yaml_ops conv path YUndefined idem = Inr []"
| "seq_ops conv path [] = Inr []"
| "seq_ops conv path (e # es) =
     bindE (if is_scalar e then bindE (conv e) (\<lambda>v. Inr [OpSet path v]) else yaml_ops conv path e True)
       (\<lambda>tr. bindE (seq_ops conv path es) (\<lambda>tr'. Inr (tr @ tr')))"
| "map_ops conv path [] idem = Inr []"
| "map_ops conv path ((key, val) # es) idem =
     bindE
       (if is_scalar val then bindE (conv key) (\<lambda>k. bindE (conv val) (\<lambda>v. Inr [OpMap path k v]))
        else bindE (conv key) (\<lambda>k. bindE (yaml_ops conv (new_path path k) val True)
          (\<lambda>tr. Inr ((if idem then [OpDel (new_path path k)] else []) @ tr))))
       (\<lambda>tr. bindE (map_ops conv path es idem) (\<lambda>tr'. Inr (tr @ tr')))"

lemma bindE_assoc: "bindE (bindE r f) g = bindE r (\<lambda>x. bindE (f x) g)"
  by (cases r) simp_all

lemma run_ops_append:
  assumes "\<And>s. f s = bindE r (\<lambda>tr. Inr (foldl (run_op ops) s tr))"
      and "\<And>s. g s = bindE r' (\<lambda>tr. Inr (foldl (run_op ops) s tr))"
  shows "bindE (f s) g = bindE (bindE r (\<lambda>tr. bindE r' (\<lambda>tr'. Inr (tr @ tr'))))
    (\<lambda>tr. Inr (foldl (run_op ops) s tr))"
  using assms by (cases r; cases r') simp_all

lemma load_runs_ops:
  "yaml_to_storage ops conv s path node idem = bindE (yaml_ops conv path node idem) (\<lambda>tr. Inr (foldl (run_op ops) s tr))"
  "yaml_seq ops conv s path es = bindE (seq_ops conv path es) (\<lambda>tr. Inr (foldl (run_op ops) s tr))"
  "yaml_map ops conv s path kvs idem True = bindE (map_ops conv path kvs idem) (\<lambda>tr. Inr (foldl (run_op ops) s tr))"
proof (induction path node idem and path es and path kvs idem
    arbitrary: s and s and s rule: yaml_ops_seq_ops_map_ops.induct)
  case (7 conv path e es)
  show ?case unfolding yaml_to_storage.simps yaml_seq.simps yaml_map.simps yaml_ops.simps seq_ops.simps map_ops.simps
    by (rule run_ops_append) (use 7 in \<open>auto simp: bindE_assoc\<close>)
next
  case (9 conv path key val es idem)
  show ?case unfolding yaml_to_storage.simps yaml_seq.simps yaml_map.simps yaml_ops.simps seq_ops.simps map_ops.simps
  proof (rule run_ops_append)
    show "yaml_map ops conv s path es idem True =
        bindE (map_ops conv path es idem) (\<lambda>tr. Inr (foldl (run_op ops) s tr))" for s
      by (rule 9)
  qed (use 9(1) in \<open>auto simp: bindE_assoc Let_def intro!: arg_cong [where f = "bindE _"] ext\<close>)
qed (auto simp: bindE_assoc Let_def)

section \<open>The shape of a trace\<close>

text \<open>The part of a trace that touches one key, and whether it opens with a deletion.\<close>

definition ops_at :: "string \<Rightarrow> store_op list \<Rightarrow> store_op list" where
  "ops_at k tr = filter (\<lambda>op. op_key op = k) tr"

definition opens_clean :: "string \<Rightarrow> store_op list \<Rightarrow> bool" where
  "opens_clean k tr \<longleftrightarrow> (case ops_at k tr of [] \<Rightarrow> True | op # _ \<Rightarrow> op = OpDel k)"

definition keeps :: "string \<Rightarrow> store_op \<Rightarrow> bool" where
  "keeps path op \<longleftrightarrow> length path \<le> length (op_key op) \<and> (\<forall>k v. op \<noteq> OpValue k v \<and> op \<noteq> OpList k v) \<and> op \<noteq> OpDel path"

definition load_trace :: "string \<Rightarrow> store_op list \<Rightarrow> bool" where
  "load_trace path tr \<longleftrightarrow> list_all (keeps path) tr \<and> (\<forall>k. k \<noteq> path \<longrightarrow> opens_clean k tr)"

lemma ops_at_simps [simp]:
  "ops_at k [] = []"
  "ops_at k (op # tr) = (if op_key op = k then op # ops_at k tr else ops_at k tr)"
  "ops_at k (tr @ tr') = ops_at k tr @ ops_at k tr'"
  by (simp_all add: ops_at_def)

lemma load_trace_Nil [simp]: "load_trace path []"
  by (simp add: load_trace_def opens_clean_def)

lemma opens_clean_append: "opens_clean k tr \<Longrightarrow> opens_clean k tr' \<Longrightarrow> opens_clean k (tr @ tr')"
  by (cases "ops_at k tr") (simp_all add: opens_clean_def)

lemma load_trace_append: "load_trace path tr \<Longrightarrow> load_trace path tr' \<Longrightarrow> load_trace path (tr @ tr')"
  by (simp add: load_trace_def opens_clean_append)

lemma load_trace_own:
  "op_key op = path \<Longrightarrow> keeps path op \<Longrightarrow> load_trace path [op]"
  by (auto simp: load_trace_def opens_clean_def)

lemma length_new_path: "length path < length (new_path path k)"
  by (simp add: new_path_def)

lemma load_trace_below:
  assumes "load_trace (new_path path k) tr"
  shows "load_trace path (OpDel (new_path path k) # tr)"
proof -
  have ne: "new_path path k \<noteq> path" using length_new_path by (metis less_irrefl)
  have "list_all (keeps path) tr"
    using assms length_new_path [of path k] unfolding load_trace_def keeps_def list_all_iff
    by (metis le_trans less_imp_le_nat linorder_not_le op_key.simps(5))
  then show ?thesis
    using assms ne length_new_path [of path k]
    by (auto simp: load_trace_def keeps_def opens_clean_def)
qed

lemma loads_are_load_traces:
  "idem \<Longrightarrow> \<not> is_scalar node \<Longrightarrow> yaml_ops conv path node idem = Inr tr \<Longrightarrow> load_trace path tr"
  "seq_ops conv path es = Inr tr \<Longrightarrow> load_trace path tr"
  "idem \<Longrightarrow> map_ops conv path kvs idem = Inr tr \<Longrightarrow> load_trace path tr"
proof (induction path node idem and path es and path kvs idem
    arbitrary: tr and tr and tr rule: yaml_ops_seq_ops_map_ops.induct)
  case (2 conv path t idem)
  then show ?case by (simp add: is_scalar_def)
next
  case (7 conv path e es)
  then show ?case
    by (auto simp: bindE_eq_Inr keeps_def intro!: load_trace_append load_trace_own split: if_splits)
next
  case (9 conv path key val es idem)
  obtain one rest where tr: "tr = one @ rest" and rest: "map_ops conv path es idem = Inr rest"
    and one: "(if is_scalar val then bindE (conv key) (\<lambda>k. bindE (conv val) (\<lambda>v. Inr [OpMap path k v]))
        else bindE (conv key) (\<lambda>k. bindE (yaml_ops conv (new_path path k) val True)
          (\<lambda>tr. Inr ((if idem then [OpDel (new_path path k)] else []) @ tr)))) = Inr one"
    using 9(4) by (auto simp: bindE_eq_Inr)
  have "load_trace path one"
    using one 9(1,3) by (auto simp: bindE_eq_Inr keeps_def load_trace_own load_trace_below split: if_splits)
  moreover have "load_trace path rest" using 9(2) [OF 9(3) rest] .
  ultimately show ?case by (simp add: tr load_trace_append)
qed simp_all

section \<open>One key of the in-memory storage\<close>

text \<open>What the store holds under one key, and what an operation on that key does to it.\<close>

type_synonym cell = "string option \<times> map_t option \<times> list_t option \<times> set_t option"

definition cell_at :: "mock_storage \<Rightarrow> string \<Rightarrow> cell" where
  "cell_at s k = (smap_get (m_kv s) k, smap_get (m_map s) k, smap_get (m_list s) k, smap_get (m_set s) k)"

fun cell_op :: "cell \<Rightarrow> store_op \<Rightarrow> cell" where
  "cell_op (v, m, l, t) (OpValue k x) = (Some x, m, l, t)"
| "cell_op (v, m, l, t) (OpMap n k x) =
     (v, Some (smap_put k x (case m of None \<Rightarrow> [] | Some m \<Rightarrow> m)), l, t)"
| "cell_op (v, m, l, t) (OpList n x) = (v, m, Some ((case l of None \<Rightarrow> [] | Some l \<Rightarrow> l) @ [x]), t)"
| "cell_op (v, m, l, t) (OpSet n x) =
     (v, m, l, Some (set_insert x (case t of None \<Rightarrow> [] | Some t \<Rightarrow> t)))"
| "cell_op (v, m, l, t) (OpDel k) =
     (if v \<noteq> None then (None, m, l, t) else if m \<noteq> None then (None, None, l, t)
      else if l \<noteq> None then (None, None, None, t) else (None, None, None, None))"

lemma cell_at_run_op:
  "cell_at (run_op mock_ops s op) k = (if op_key op = k then cell_op (cell_at s k) op else cell_at s k)"
  by (cases op)
     (auto simp: cell_at_def mock_value_store_def mock_map_store_def mock_list_store_def mock_set_store_def
       mock_del_key_def smap_fun_simps Let_def fun_upd_def split: option.splits)

lemma cell_at_run:
  "cell_at (foldl (run_op mock_ops) s tr) k = foldl cell_op (cell_at s k) (ops_at k tr)"
  by (induction tr arbitrary: s) (auto simp: cell_at_run_op)

lemma mock_inv_run_op: "mock_inv s \<Longrightarrow> mock_inv (run_op mock_ops s op)"
  by (cases op) (metis mock_value_store_eq mock_map_store_eq mock_list_store_eq mock_set_store_eq mock_inv_del_key
      mock_ops_simps prod.collapse run_op.simps)+

lemma mock_inv_run: "mock_inv s \<Longrightarrow> mock_inv (foldl (run_op mock_ops) s tr)"
  by (induction tr arbitrary: s) (auto simp: mock_inv_run_op)

lemma mock_storage_ext:
  assumes "mock_inv s" "mock_inv s'" and "\<And>k. cell_at s k = cell_at s' k"
  shows "s = s'"
  using assms by (intro mock_storage.equality) (auto simp: mock_inv_def cell_at_def intro!: smap_ext)

text \<open>The pairs of a map and the members of a set, absent or not.\<close>

definition entry_of :: "map_t option \<Rightarrow> string \<Rightarrow> string option" where
  "entry_of m x = (case m of None \<Rightarrow> None | Some m \<Rightarrow> smap_get m x)"

definition members_of :: "set_t option \<Rightarrow> string set" where
  "members_of t = (case t of None \<Rightarrow> {} | Some t \<Rightarrow> set t)"

definition cell_ok :: "cell \<Rightarrow> bool" where
  "cell_ok c = (case c of (v, m, l, t) \<Rightarrow>
     (case m of None \<Rightarrow> True | Some m \<Rightarrow> smap_ok m) \<and> (case t of None \<Rightarrow> True | Some t \<Rightarrow> sset_ok t))"

text \<open>At every key \<open>b\<close> agrees with \<open>a\<close> or with \<open>f\<close>, in the map or in the set.\<close>

definition map_mix :: "map_t option \<Rightarrow> map_t option \<Rightarrow> map_t option \<Rightarrow> bool" where
  "map_mix f a b \<longleftrightarrow> ((b = None) = (a = None) \<or> (b = None) = (f = None)) \<and>
     (\<forall>x. entry_of b x = entry_of a x \<or> entry_of b x = entry_of f x)"

definition set_mix :: "set_t option \<Rightarrow> set_t option \<Rightarrow> set_t option \<Rightarrow> bool" where
  "set_mix f a b \<longleftrightarrow> ((b = None) = (a = None) \<or> (b = None) = (f = None)) \<and>
     (\<forall>x. (x \<in> members_of b) = (x \<in> members_of a) \<or> (x \<in> members_of b) = (x \<in> members_of f))"

lemma entry_of_put:
  "entry_of (Some (smap_put k x (case a of None \<Rightarrow> [] | Some m \<Rightarrow> m))) y =
   (if y = k then Some x else entry_of a y)"
  by (auto simp: entry_of_def smap_get_put split: option.splits)

lemma members_of_insert:
  "members_of (Some (set_insert x (case a of None \<Rightarrow> [] | Some m \<Rightarrow> m))) = insert x (members_of a)"
  by (auto simp: members_of_def split: option.splits)

lemma map_mix_put:
  "map_mix f a b \<Longrightarrow>
   map_mix f (Some (smap_put k x (case a of None \<Rightarrow> [] | Some m \<Rightarrow> m)))
             (Some (smap_put k x (case b of None \<Rightarrow> [] | Some m \<Rightarrow> m)))"
  by (simp add: map_mix_def entry_of_put)

lemma set_mix_insert:
  "set_mix f a b \<Longrightarrow>
   set_mix f (Some (set_insert x (case a of None \<Rightarrow> [] | Some t \<Rightarrow> t)))
             (Some (set_insert x (case b of None \<Rightarrow> [] | Some t \<Rightarrow> t)))"
  unfolding set_mix_def members_of_insert by blast

lemma map_mix_start [simp]: "map_mix f a a" "map_mix f a f"
  by (simp_all add: map_mix_def)

lemma set_mix_start [simp]: "set_mix f a a" "set_mix f a f"
  by (simp_all add: set_mix_def)

lemma map_mix_self:
  assumes "map_mix f f b" "cell_ok (v, f, l, t)" "cell_ok (v', b, l', t')"
  shows "b = f"
proof (cases f)
  case None then show ?thesis using assms by (simp add: map_mix_def)
next
  case (Some m)
  then obtain m' where b: "b = Some m'" using assms by (cases b) (auto simp: map_mix_def)
  have "m' = m"
    using assms Some b by (intro smap_ext) (simp_all add: map_mix_def cell_ok_def entry_of_def)
  then show ?thesis using Some b by simp
qed

lemma set_mix_self:
  assumes "set_mix f f b" "cell_ok (v, m, l, f)" "cell_ok (v', m', l', b)"
  shows "b = f"
proof (cases f)
  case None then show ?thesis using assms by (simp add: set_mix_def)
next
  case (Some t)
  then obtain t' where b: "b = Some t'" using assms by (cases b) (auto simp: set_mix_def)
  have "t' = t"
    using assms Some b by (intro sset_ext) (auto simp: set_mix_def cell_ok_def members_of_def)
  then show ?thesis using Some b by simp
qed

section \<open>Loading twice\<close>

text \<open>
  Two loads side by side, the second from the state \<open>f\<close> the first ends in. At a key that is deleted
  first nothing but the set can differ; at the path of the document itself nothing is deleted.
\<close>

fun clean_sim :: "cell \<Rightarrow> cell \<Rightarrow> cell \<Rightarrow> bool" where
  "clean_sim (_, _, _, tf) (v, m, l, t) (v', m', l', t') \<longleftrightarrow>
     v = None \<and> v' = None \<and> l = None \<and> l' = None \<and> m' = m \<and> set_mix tf t t'"

fun root_sim :: "cell \<Rightarrow> cell \<Rightarrow> cell \<Rightarrow> bool" where
  "root_sim (_, mf, _, tf) (v, m, l, t) (v', m', l', t') \<longleftrightarrow>
     v' = v \<and> l' = l \<and> map_mix mf m m' \<and> set_mix tf t t'"

lemma clean_sim_run:
  "clean_sim f a b \<Longrightarrow> list_all (\<lambda>op. \<forall>k v. op \<noteq> OpValue k v \<and> op \<noteq> OpList k v) tr \<Longrightarrow>
   clean_sim f (foldl cell_op a tr) (foldl cell_op b tr)"
proof (induction tr arbitrary: a b)
  case (Cons op tr)
  obtain v m l t v' m' l' t' vf mf lf tf
    where [simp]: "a = (v, m, l, t)" "b = (v', m', l', t')" "f = (vf, mf, lf, tf)"
    by (metis prod_cases4)
  have "clean_sim f (cell_op a op) (cell_op b op)"
    using Cons.prems by (cases op) (auto simp: set_mix_insert)
  then show ?case using Cons by simp
qed simp

lemma root_sim_run:
  "root_sim f a b \<Longrightarrow> list_all (\<lambda>op. (\<forall>k v. op \<noteq> OpValue k v \<and> op \<noteq> OpList k v) \<and> (\<forall>k. op \<noteq> OpDel k)) tr \<Longrightarrow>
   root_sim f (foldl cell_op a tr) (foldl cell_op b tr)"
proof (induction tr arbitrary: a b)
  case (Cons op tr)
  obtain v m l t v' m' l' t' vf mf lf tf
    where [simp]: "a = (v, m, l, t)" "b = (v', m', l', t')" "f = (vf, mf, lf, tf)"
    by (metis prod_cases4)
  have "root_sim f (cell_op a op) (cell_op b op)"
    using Cons.prems by (cases op) (auto simp: set_mix_insert map_mix_put)
  then show ?case using Cons by simp
qed simp

lemma cell_ok_op: "cell_ok c \<Longrightarrow> cell_ok (cell_op c op)"
  by (cases c; cases op)
     (auto simp: cell_ok_def smap_ok_put sset_ok_insert split: option.splits)

lemma cell_ok_run: "cell_ok c \<Longrightarrow> cell_ok (foldl cell_op c tr)"
  by (induction tr arbitrary: c) (auto simp: cell_ok_op)

lemma cell_ok_at: "mock_inv s \<Longrightarrow> cell_ok (cell_at s k)"
  by (auto simp: cell_ok_def cell_at_def mock_inv_def split: option.splits)

definition cell_single :: "cell \<Rightarrow> bool" where
  "cell_single c = (case c of (v, m, l, t) \<Rightarrow>
     length (filter id [v \<noteq> None, m \<noteq> None, l \<noteq> None, t \<noteq> None]) \<le> 1)"

lemma cell_single_at: "cell_single (cell_at s k) \<longleftrightarrow> single_kind (mock_view s) k"
  by (simp add: cell_single_def cell_at_def single_kind_def mock_view_def)

lemma reload_clean_cell:
  assumes c: "cell_ok c" "cell_single c" and rest: "list_all (\<lambda>op. \<forall>k v. op \<noteq> OpValue k v \<and> op \<noteq> OpList k v) rest"
    and f: "f = foldl cell_op c (OpDel k # rest)"
  shows "foldl cell_op f (OpDel k # rest) = f"
proof -
  let ?a = "(None, None, None, None) :: cell"
  obtain v m l t where cc: "c = (v, m, l, t)" by (metis prod_cases4)
  have a: "cell_op c (OpDel k) = ?a"
    using c(2) unfolding cc by (cases v; cases m; cases l; cases t) (simp_all add: cell_single_def)
  have F: "f = foldl cell_op ?a rest" using f a by simp
  obtain vf mf lf tf where ff: "f = (vf, mf, lf, tf)" by (metis prod_cases4)
  have "clean_sim f ?a ?a" by (simp add: ff)
  from clean_sim_run [OF this rest] have none: "vf = None" "lf = None"
    unfolding F [symmetric] by (simp_all add: ff)
  let ?b = "cell_op f (OpDel k)"
  have "clean_sim f ?a ?b" by (simp add: ff none)
  from clean_sim_run [OF this rest] have sim: "clean_sim f f (foldl cell_op ?b rest)"
    unfolding F [symmetric] .
  obtain v' m' l' t' where e: "foldl cell_op ?b rest = (v', m', l', t')" by (metis prod_cases4)
  have ok: "cell_ok f" "cell_ok (foldl cell_op ?b rest)"
    using c(1) by (auto simp: f intro!: cell_ok_run cell_ok_op)
  have "set_mix tf tf t'" "v' = None" "l' = None" "m' = mf" using sim unfolding e unfolding ff by auto
  then have "t' = tf" using ok unfolding e unfolding ff by (auto intro: set_mix_self)
  then show ?thesis using \<open>v' = None\<close> \<open>l' = None\<close> \<open>m' = mf\<close> none by (simp only: foldl_Cons e) (simp add: ff)
qed

lemma reload_root_cell:
  assumes c: "cell_ok c"
    and ops: "list_all (\<lambda>op. (\<forall>k v. op \<noteq> OpValue k v \<and> op \<noteq> OpList k v) \<and> (\<forall>k. op \<noteq> OpDel k)) os"
    and f: "f = foldl cell_op c os"
  shows "foldl cell_op f os = f"
proof -
  obtain v m l t where cc: "c = (v, m, l, t)" by (metis prod_cases4)
  obtain vf mf lf tf where ff: "f = (vf, mf, lf, tf)" by (metis prod_cases4)
  have "root_sim f c c" by (simp add: ff cc)
  from root_sim_run [OF this ops] have "root_sim f f f" unfolding f [symmetric] .
  have same: "list_all (\<lambda>op. (\<forall>k v. op \<noteq> OpValue k v \<and> op \<noteq> OpList k v) \<and> (\<forall>k. op \<noteq> OpDel k)) os \<Longrightarrow>
      (case foldl cell_op c os of (v', _, l', _) \<Rightarrow> v' = fst c \<and> l' = fst (snd (snd c)))" for c
  proof (induction os arbitrary: c)
    case (Cons op os)
    obtain v m l t where [simp]: "c = (v, m, l, t)" by (metis prod_cases4)
    show ?case using Cons.IH [of "cell_op c op"] Cons.prems by (cases op) auto
  qed (simp split: prod.splits)
  have "vf = v" "lf = l" using same [OF ops, of c] unfolding f [symmetric] unfolding ff cc by auto
  then have "root_sim f c f" by (simp add: ff cc)
  from root_sim_run [OF this ops] have sim: "root_sim f f (foldl cell_op f os)"
    unfolding f [symmetric] .
  obtain v' m' l' t' where e: "foldl cell_op f os = (v', m', l', t')" by (metis prod_cases4)
  have ok: "cell_ok (vf, mf, lf, tf)" "cell_ok (v', m', l', t')"
    using c cell_ok_run unfolding ff [symmetric] e [symmetric] f by auto
  have "v' = vf" "l' = lf" "map_mix mf mf m'" "set_mix tf tf t'"
    using sim unfolding e unfolding ff by auto
  moreover from this have "m' = mf" "t' = tf" using ok by (auto intro: map_mix_self set_mix_self)
  ultimately show ?thesis unfolding e unfolding ff by simp
qed

lemma ops_at_key: "op \<in> set (ops_at k tr) \<Longrightarrow> op \<in> set tr \<and> op_key op = k"
  by (auto simp: ops_at_def)

lemma reload_cell:
  assumes "load_trace path tr" "cell_ok c" "k \<noteq> path \<Longrightarrow> cell_single c"
  shows "foldl cell_op (foldl cell_op c (ops_at k tr)) (ops_at k tr) = foldl cell_op c (ops_at k tr)"
proof (cases "k = path")
  case True
  have "list_all (\<lambda>op. (\<forall>k v. op \<noteq> OpValue k v \<and> op \<noteq> OpList k v) \<and> (\<forall>k. op \<noteq> OpDel k)) (ops_at k tr)"
    using assms(1) True ops_at_key
    by (fastforce simp: load_trace_def list_all_iff keeps_def)
  then show ?thesis using reload_root_cell [OF assms(2)] by simp
next
  case False
  show ?thesis
  proof (cases "ops_at k tr")
    case (Cons op rest)
    have "op = OpDel k"
      using assms(1) False Cons by (auto simp: load_trace_def opens_clean_def)
    moreover have "set (ops_at k tr) \<subseteq> set tr" using ops_at_key by blast
    then have "list_all (\<lambda>op. \<forall>k v. op \<noteq> OpValue k v \<and> op \<noteq> OpList k v) rest"
      using assms(1) Cons by (auto simp: load_trace_def list_all_iff keeps_def)
    ultimately show ?thesis
      using reload_clean_cell [OF assms(2) assms(3) [OF False], of rest _ k] Cons by simp
  qed simp
qed

text \<open>
  C36: loading a document is idempotent, which is what the parameter of that name is for: when each key
  below the path is in use for at most one kind of value, loading the same document once more, from the
  storage the first load left, leaves it as it is, sets and maps included.
\<close>

theorem yaml_load_idempotent:
  assumes "mock_inv s" "\<And>k. k \<noteq> path \<Longrightarrow> single_kind (mock_view s) k"
    and load: "yaml_to_storage mock_ops conv s path node True = Inr s'"
  shows "yaml_to_storage mock_ops conv s' path node True = Inr s'"
proof (cases "is_scalar node")
  case True
  then obtain t v where node: "node = YScalar t" and v: "conv (YScalar t) = Inr v"
    using load by (cases node) (auto simp: is_scalar_def bindE_eq_Inr)
  then have "s' = snd (mock_value_store s path v)" using load by simp
  then show ?thesis
    using assms(1) by (simp add: node v mock_value_store_def smap.put_put mock_inv_def)
next
  case False
  obtain tr where tr: "yaml_ops conv path node True = Inr tr" and s': "s' = foldl (run_op mock_ops) s tr"
    using load by (auto simp: load_runs_ops(1) bindE_eq_Inr)
  have shape: "load_trace path tr" using False tr by (intro loads_are_load_traces(1)) auto
  have "foldl (run_op mock_ops) s' tr = s'"
  proof (rule mock_storage_ext)
    show "cell_at (foldl (run_op mock_ops) s' tr) k = cell_at s' k" for k
      using reload_cell [OF shape cell_ok_at [OF assms(1)]] assms(2) unfolding cell_single_at
      by (simp add: cell_at_run s')
  qed (simp_all add: s' mock_inv_run assms(1))
  then show ?thesis by (simp add: load_runs_ops(1) tr)
qed

definition scalar_text :: "yaml \<Rightarrow> fault + string" where
  "scalar_text n = (case n of YScalar t \<Rightarrow> Inr t | _ \<Rightarrow> Inl (Thrown ''bad conversion''))"

definition example_document :: yaml where
  "example_document = YMap
     [(YScalar ''bind_host'', YScalar ''localhost''),
      (YScalar ''welcome_text'', YSeq [YScalar ''b'', YScalar ''a'', YMap [(YScalar ''x'', YScalar ''1'')]]),
      (YScalar ''empty'', YNull)]"

lemma example_document_ops:
  "yaml_ops scalar_text ''config'' example_document True =
   Inr [OpMap ''config'' ''bind_host'' ''localhost'', OpDel ''config:welcome:text'',
        OpSet ''config:welcome:text'' ''b'', OpSet ''config:welcome:text'' ''a'',
        OpMap ''config:welcome:text'' ''x'' ''1'', OpDel ''config:empty'']"
  by (simp add: example_document_def scalar_text_def is_scalar_def new_path_def path_name_def)

theorem yaml_load_idempotent_witness:
  "yaml_to_storage mock_ops scalar_text
     \<lparr>m_kv = [], m_map = [(''config'', [(''bind_host'', ''localhost'')]), (''config:welcome:text'', [(''x'', ''1'')])],
      m_list = [], m_set = [(''config:welcome:text'', [''a'', ''b''])]\<rparr>
     ''config'' example_document True =
   Inr \<lparr>m_kv = [], m_map = [(''config'', [(''bind_host'', ''localhost'')]), (''config:welcome:text'', [(''x'', ''1'')])],
        m_list = [], m_set = [(''config:welcome:text'', [''a'', ''b''])]\<rparr>"
proof (rule yaml_load_idempotent [where s = mock_empty])
  show "yaml_to_storage mock_ops scalar_text mock_empty ''config'' example_document True =
    Inr \<lparr>m_kv = [], m_map = [(''config'', [(''bind_host'', ''localhost'')]), (''config:welcome:text'', [(''x'', ''1'')])],
         m_list = [], m_set = [(''config:welcome:text'', [''a'', ''b''])]\<rparr>"
    unfolding load_runs_ops(1) example_document_ops
    by (simp add: mock_empty_def mock_map_store_def mock_set_store_def mock_del_key_def smap_contains_def
        smap_get_def smap_at_def set_insert_def insort_insert_key_def)
qed (simp_all add: single_kind_def)

end
