(* ===== verification/Mud_Main.thy ===== *)
theory Mud_Main
  imports Mud_System Redis_Storage Yaml_Storage
begin

text \<open>
  The main thread, \<^verbatim>\<open>pmud/main.cpp\<close>: reading the configuration, the signal handler and the wait for
  an interrupt, starting and stopping the server actor, and the order in which \<open>caf_main\<close> gives up.
  The answers of the actor system, the signals and the log library are data of the environment.
\<close>

section \<open>The configuration\<close>

text \<open>
  The YAML library is a parameter: \<open>idx\<close> is \<open>node[key]\<close>, and \<open>as_string\<close>, \<open>as_u16\<close>, \<open>as_bool\<close> are the
  conversions, which throw on a node they cannot convert.
\<close>

record yaml_lib =
  yl_index :: "yaml \<Rightarrow> string \<Rightarrow> yaml"
  yl_as_string :: "yaml \<Rightarrow> fault + string"
  yl_as_u16 :: "yaml \<Rightarrow> fault + 16 word"
  yl_as_bool :: "yaml \<Rightarrow> fault + bool"

definition server_key :: "yaml_lib \<Rightarrow> yaml \<Rightarrow> string \<Rightarrow> yaml" where
  "server_key yl config key = yl_index yl (yl_index yl config ''server'') key"

definition parse_yaml :: "yaml_lib \<Rightarrow> (fault + yaml) \<Rightarrow> fault + mud_config" where
  "parse_yaml yl file =
     bindE file (\<lambda>config.
     bindE (yl_as_string yl (server_key yl config ''name'')) (\<lambda>name.
     bindE (yl_as_string yl (server_key yl config ''address'')) (\<lambda>address.
     bindE (yl_as_u16 yl (server_key yl config ''port'')) (\<lambda>port.
     bindE (yl_as_u16 yl (server_key yl config ''max-queued-connections'')) (\<lambda>max_queued.
     bindE (yl_as_string yl (server_key yl config ''log-name'')) (\<lambda>log_name.
     bindE (yl_as_string yl (server_key yl config ''log-level'')) (\<lambda>log_level.
     bindE (yl_as_string yl (server_key yl config ''log-filename'')) (\<lambda>log_filename.
     bindE (yl_as_bool yl (server_key yl config ''log-truncate'')) (\<lambda>log_truncate.
       Inr \<lparr>mc_name = name, mc_address = address, mc_port = port, mc_max_queued_connections = max_queued,
         mc_log_name = log_name, mc_log_level = log_level, mc_log_filename = log_filename,
         mc_log_truncate = log_truncate\<rparr>)))))))))"

section \<open>Signals\<close>

definition SIGINT :: int where "SIGINT = 2"
definition SIGTERM :: int where "SIGTERM = 15"

text \<open>\<open>None\<close> is \<open>exit(-1)\<close>, otherwise the new value of \<open>g_signal_status\<close>.\<close>

definition signal_handler :: "int \<Rightarrow> int \<Rightarrow> int option" where
  "signal_handler g_signal_status signal =
     (if signal = SIGTERM \<and> g_signal_status = SIGTERM then None else Some signal)"

datatype wait_result =
    Waiting int         \<comment> \<open>still in the loop, with this \<open>g_signal_status\<close>\<close>
  | Interrupted         \<comment> \<open>the loop has ended\<close>
  | ExitedInWait

text \<open>
  \<open>while (g_signal_status != SIGINT) sleep_for(50ms)\<close>: each element of the list is one sleep, with
  the signals the handler gets during it.
\<close>

fun handle_signals :: "int \<Rightarrow> int list \<Rightarrow> int option" where
  "handle_signals g [] = Some g"
| "handle_signals g (s # ss) = (case signal_handler g s of None \<Rightarrow> None | Some g \<Rightarrow> handle_signals g ss)"

fun wait_for_interrupt :: "int \<Rightarrow> int list list \<Rightarrow> wait_result" where
  "wait_for_interrupt g sleeps =
     (if g = SIGINT then Interrupted
      else case sleeps of
             [] \<Rightarrow> Waiting g
           | ss # sleeps' \<Rightarrow>
               (case handle_signals g ss of
                  None \<Rightarrow> ExitedInWait
                | Some g \<Rightarrow> wait_for_interrupt g sleeps'))"

declare wait_for_interrupt.simps [simp del]

section \<open>Starting and stopping the server\<close>

text \<open>The answer to a request: the value the actor replies, or an error (a timeout among them).\<close>

datatype 'a answer = Answer 'a | RequestError string

text \<open>\<open>server_success\<close> is 0 before the request and only an answer changes it.\<close>

definition start_server :: "int answer \<Rightarrow> int" where
  "start_server ans =
     (let server_success = 0 in
      case ans of Answer status \<Rightarrow> status | RequestError err \<Rightarrow> server_success)"

definition kill_server :: "bool answer \<Rightarrow> bool" where
  "kill_server ans = (case ans of Answer status \<Rightarrow> True | RequestError err \<Rightarrow> False)"

text \<open>What the main thread does to the actor system, in order.\<close>

datatype main_action =
    SpawnActor string
  | RequestStart
  | Deliver effect
  | RequestGoodbye
  | AwaitActors

datatype run_end = Returned bool | StillWaiting int | ExitCode int

record run_env =
  rn_start :: "int answer"
  rn_sleeps :: "int list list"
  rn_registry :: "actor_id smap"      \<comment> \<open>the named actors when the wait ends\<close>
  rn_kill :: "bool answer"

definition run :: "int \<Rightarrow> run_env \<Rightarrow> run_end \<times> main_action list" where
  "run g env =
     (let server_status = start_server (rn_start env) in
      if server_status \<noteq> 0 then (Returned False, [SpawnActor ''ServerActor'', RequestStart])
      else case wait_for_interrupt g (rn_sleeps env) of
             Waiting g \<Rightarrow> (StillWaiting g, [SpawnActor ''ServerActor'', RequestStart])
           | ExitedInWait \<Rightarrow> (ExitCode (-1), [SpawnActor ''ServerActor'', RequestStart])
           | Interrupted \<Rightarrow>
               (Returned (kill_server (rn_kill env)),
                [SpawnActor ''ServerActor'', RequestStart] @
                map Deliver (quit_connection_actors (rn_registry env)) @ [RequestGoodbye]))"

section \<open>\<open>caf_main\<close>\<close>

text \<open>What the log library answers to the set-up: success, or an exception of its own.\<close>

definition configure_logging :: "bool answer \<Rightarrow> bool" where
  "configure_logging setup = (case setup of Answer _ \<Rightarrow> True | RequestError ex \<Rightarrow> False)"

datatype main_end = MainReturns | MainWaits int | MainExits int | MainThrows fault

definition yaml_filename :: "string list \<Rightarrow> string" where
  "yaml_filename argv = (if 1 < length argv then argv ! 1 else ''primordia-mud.yaml'')"

definition caf_main ::
  "yaml_lib \<Rightarrow> (string \<Rightarrow> fault + yaml) \<Rightarrow> bool answer \<Rightarrow> 'd redis_api \<Rightarrow> 'd redis_env \<Rightarrow> run_env \<Rightarrow> string list \<Rightarrow>
   main_end \<times> main_action list" where
  "caf_main yl load_file logging api renv env argv =
     (case parse_yaml yl (load_file (yaml_filename argv)) of
        Inl e \<Rightarrow> (MainThrows e, [])
      | Inr config \<Rightarrow>
          if \<not> configure_logging logging then (MainExits (-1), [])
          else
            (case initialize_redis_storage api renv of
               Inl e \<Rightarrow> (MainThrows e, [])
             | Inr None \<Rightarrow> (MainExits (-1), [])
             | Inr (Some storage) \<Rightarrow>
                 (let (r, acts) = run 0 env;
                      acts = [SpawnActor ''StorageActor'', SpawnActor ''EventRecorderActor''] @ acts
                  in case r of
                       Returned kill_result \<Rightarrow>
                         (MainReturns, acts @ (if kill_result then [AwaitActors] else []))
                     | StillWaiting g \<Rightarrow> (MainWaits g, acts)
                     | ExitCode c \<Rightarrow> (MainExits c, acts))))"

section \<open>What the main thread does\<close>

lemma handle_interrupts: "set ss \<subseteq> {SIGINT} \<Longrightarrow> handle_signals g ss = Some (if ss = [] then g else SIGINT)"
  by (induction ss arbitrary: g) (auto simp: signal_handler_def SIGINT_def SIGTERM_def)

lemma wait_only_interrupts:
  "g \<noteq> SIGINT \<Longrightarrow> \<forall>ss \<in> set sleeps. set ss \<subseteq> {SIGINT} \<Longrightarrow>
   wait_for_interrupt g sleeps = (if \<exists>ss \<in> set sleeps. ss \<noteq> [] then Interrupted else Waiting g)"
proof (induction sleeps)
  case Nil
  then show ?case by (subst wait_for_interrupt.simps) simp
next
  case (Cons ss sleeps)
  then have "handle_signals g ss = Some (if ss = [] then g else SIGINT)" by (intro handle_interrupts) simp
  moreover have "wait_for_interrupt SIGINT sleeps = Interrupted" by (subst wait_for_interrupt.simps) simp
  ultimately show ?case using Cons by (subst wait_for_interrupt.simps) auto
qed

lemma wait_two_terms:
  assumes "g \<noteq> SIGINT"
  shows "wait_for_interrupt g ([SIGTERM, SIGTERM] # sleeps) = ExitedInWait"
  using assms by (subst wait_for_interrupt.simps) (simp add: signal_handler_def)

lemma wait_interrupt_overwritten:
  assumes "g \<noteq> SIGINT" "s \<noteq> SIGINT"
  shows "wait_for_interrupt g [[SIGINT, s]] = Waiting s"
  using assms
  by (subst wait_for_interrupt.simps)
     (simp add: signal_handler_def SIGINT_def SIGTERM_def wait_for_interrupt.simps)

section \<open>Properties\<close>

text \<open>
  C9: A complete run of the program: with a readable configuration, a log, a storage, a server that
  starts and no signal but the interrupt, for which alone a handler is installed, the main thread
  waits until the first interrupt, then tells every named connection to say goodbye, then the server,
  and waits for the actors exactly if the server answered; the storage and the recorder are spawned
  before the server.
\<close>

theorem main_runs_until_interrupt:
  assumes "parse_yaml yl (load_file (yaml_filename argv)) = Inr config" "logging = Answer ok"
    and "initialize_redis_storage api renv = Inr (Some storage)"
    and "rn_start env = Answer 0" "\<forall>ss \<in> set (rn_sleeps env). set ss \<subseteq> {SIGINT}"
  shows "caf_main yl load_file logging api renv env argv =
    (let started = [SpawnActor ''StorageActor'', SpawnActor ''EventRecorderActor'',
                    SpawnActor ''ServerActor'', RequestStart]
     in if \<exists>ss \<in> set (rn_sleeps env). ss \<noteq> []
        then (MainReturns, started @ map Deliver (quit_connection_actors (rn_registry env)) @ [RequestGoodbye] @
          (case rn_kill env of Answer _ \<Rightarrow> [AwaitActors] | RequestError _ \<Rightarrow> []))
        else (MainWaits 0, started))"
proof -
  have "wait_for_interrupt 0 (rn_sleeps env) =
      (if \<exists>ss \<in> set (rn_sleeps env). ss \<noteq> [] then Interrupted else Waiting 0)"
    using wait_only_interrupts [OF _ assms(5), of 0] by (simp add: SIGINT_def)
  then show ?thesis
    using assms(1-4)
    by (simp add: caf_main_def configure_logging_def run_def start_server_def kill_server_def Let_def
        split: answer.split)
qed

definition example_lib :: yaml_lib where
  "example_lib = \<lparr>yl_index = (\<lambda>n key. YScalar key), yl_as_string = (\<lambda>n. Inr ''x''),
     yl_as_u16 = (\<lambda>n. Inr 8080), yl_as_bool = (\<lambda>n. Inr True)\<rparr>"

definition example_redis_env :: "redis_db redis_env" where
  "example_redis_env = \<lparr>re_inet_addr = (\<lambda>_. 1), re_gethostbyname = (\<lambda>_. None),
     re_connect = (\<lambda>ip port. Some (Map.empty, False)), re_time = 0, re_getenv = (\<lambda>_. None)\<rparr>"

definition example_run :: run_env where
  "example_run = \<lparr>rn_start = Answer 0, rn_sleeps = [[], [SIGINT]],
     rn_registry = [(''Connection(4)'', 4), (''Other'', 5)], rn_kill = Answer True\<rparr>"

theorem main_runs_until_interrupt_witness:
  "caf_main example_lib (\<lambda>_. Inr YNull) (Answer True) memory_redis example_redis_env example_run [''pmud''] =
   (MainReturns, [SpawnActor ''StorageActor'', SpawnActor ''EventRecorderActor'', SpawnActor ''ServerActor'',
      RequestStart, Deliver (Send 4 GoodbyeConnection), RequestGoodbye, AwaitActors])"
proof -
  have config: "\<exists>config. parse_yaml example_lib (Inr YNull) = Inr config"
    by (simp add: parse_yaml_def server_key_def example_lib_def)
  have storage: "\<exists>storage. initialize_redis_storage memory_redis example_redis_env = Inr (Some storage)"
    by (simp add: initialize_redis_storage_def example_redis_env_def redis_init_def redis_storage_new_def
        hostname_to_ip_def split: prod.split)
  have quit: "quit_connection_actors (rn_registry example_run) = [Send 4 GoodbyeConnection]"
    by (simp add: example_run_def quit_connection_actors_def connection_regex_match_def is_digit_def)
  from config storage show ?thesis
    using main_runs_until_interrupt [of example_lib "\<lambda>_. Inr YNull" "[''pmud'']" _ "Answer True" True
        memory_redis example_redis_env _ example_run]
    unfolding quit by (auto simp: example_run_def)
qed

text \<open>
  No actor is spawned unless the configuration could be read, the log set up and the storage
  connected; otherwise the process throws or exits with a failure before it starts anything.
\<close>

theorem main_needs_storage:
  assumes "caf_main yl load_file logging api renv env argv = (e, acts)"
  shows "(\<exists>config ok storage. parse_yaml yl (load_file (yaml_filename argv)) = Inr config \<and> logging = Answer ok \<and>
       initialize_redis_storage api renv = Inr (Some storage) \<and>
       take 3 acts = [SpawnActor ''StorageActor'', SpawnActor ''EventRecorderActor'', SpawnActor ''ServerActor'']) \<or>
    (acts = [] \<and> (e = MainExits (-1) \<or> (\<exists>f. e = MainThrows f)))"
  using assms
  by (auto simp: caf_main_def configure_logging_def run_def Let_def
      split: sum.splits option.splits if_splits answer.splits wait_result.splits)

theorem main_needs_storage_witness:
  "caf_main example_lib (\<lambda>_. Inl (Thrown ''bad file'')) (Answer True) memory_redis example_redis_env example_run [] =
   (MainThrows (Thrown ''bad file''), [])"
proof -
  obtain e acts where run: "caf_main example_lib (\<lambda>_. Inl (Thrown ''bad file'')) (Answer True) memory_redis
      example_redis_env example_run [] = (e, acts)" by fastforce
  have "parse_yaml example_lib (Inl (Thrown ''bad file'')) = Inl (Thrown ''bad file'')"
    by (simp add: parse_yaml_def)
  moreover from this main_needs_storage [OF run] have "acts = []" by auto
  ultimately show ?thesis using run by (simp add: caf_main_def)
qed

text \<open>
  A start request that times out or fails is taken for a server that has started: the main thread
  goes on exactly as after the status 0.
\<close>

theorem main_start_timeout_is_success:
  assumes "rn_start env = RequestError err"
  shows "run g env = run g (env\<lparr>rn_start := Answer 0\<rparr>)"
  using assms by (simp add: run_def start_server_def split: wait_result.split)

theorem main_start_timeout_is_success_witness:
  "run 0 \<lparr>rn_start = RequestError ''timeout'', rn_sleeps = [[SIGINT]], rn_registry = [], rn_kill = Answer True\<rparr> =
   run 0 \<lparr>rn_start = Answer 0, rn_sleeps = [[SIGINT]], rn_registry = [], rn_kill = Answer True\<rparr>"
  by (subst main_start_timeout_is_success [where err = "''timeout''"]) simp_all

end
