(* ===== verification/Redis_Events.thy ===== *)
theory Redis_Events
  imports Redis_Storage Storage_Actor
begin

text \<open>
  The functions the server runs for user events, \<^verbatim>\<open>pmud/scripts/redis-functions/events.lua\<close>, and the
  way from an event message through the recorder and the storage actor to the record that such a
  function appends to the stream of events.
\<close>

section \<open>The server functions\<close>

text \<open>
  A function gets the keys and the other arguments of \<open>FCALL\<close> and answers with the command it runs;
  \<open>None\<close> is an error: the assertion on the stream's name, or a missing argument handed to
  \<open>redis.call\<close>. \<open>args[1]\<close> of Lua is \<open>args ! 0\<close> here.
\<close>

definition lua_EventUserCreate :: "string list \<Rightarrow> string list \<Rightarrow> string list option" where
  "lua_EventUserCreate keys args =
     (if keys \<noteq> [] \<and> keys ! 0 = ''events'' \<and> 4 \<le> length args
      then Some [''XADD'', keys ! 0, ''*'', ''event'', ''EventUserCreate'', args ! 0, args ! 1, args ! 2, args ! 3]
      else None)"

definition lua_EventUserLogin :: "string list \<Rightarrow> string list \<Rightarrow> string list option" where
  "lua_EventUserLogin keys args =
     (if keys \<noteq> [] \<and> keys ! 0 = ''events'' \<and> 2 \<le> length args
      then Some [''XADD'', keys ! 0, ''*'', ''event'', ''EventUserLogin'', args ! 0, args ! 1]
      else None)"

definition lua_EventUserLogout :: "string list \<Rightarrow> string list \<Rightarrow> string list option" where
  "lua_EventUserLogout keys args =
     (if keys \<noteq> [] \<and> keys ! 0 = ''events'' \<and> 2 \<le> length args
      then Some [''XADD'', keys ! 0, ''*'', ''event'', ''EventUserLogout'', args ! 0, args ! 1]
      else None)"

text \<open>\<open>redis.register_function\<close>\<close>

definition registered_functions :: "(string \<times> (string list \<Rightarrow> string list \<Rightarrow> string list option)) list" where
  "registered_functions =
     [(''EventUserCreate'', lua_EventUserCreate), (''EventUserLogin'', lua_EventUserLogin),
      (''EventUserLogout'', lua_EventUserLogout)]"

text \<open>\<open>FCALL function numkeys key... arg...\<close>, as the server documents it.\<close>

definition decimal_value :: "string \<Rightarrow> nat" where
  "decimal_value s = foldl (\<lambda>n c. 10 * n + (of_char c - 48)) 0 s"

fun fcall :: "string list \<Rightarrow> string list option" where
  "fcall (cmd # function # numkeys # rest) =
     (if cmd = ''FCALL'' then
        (case map_of registered_functions function of
           None \<Rightarrow> None
         | Some f \<Rightarrow> f (take (decimal_value numkeys) rest) (drop (decimal_value numkeys) rest))
      else None)"
| "fcall _ = None"

text \<open>The fields of the record that \<open>XADD stream * field value ...\<close> appends.\<close>

fun xadd_fields :: "string list \<Rightarrow> (string \<times> string) list" where
  "xadd_fields (f # v # rest) = (f, v) # xadd_fields rest"
| "xadd_fields _ = []"

definition xadd_record :: "string list \<Rightarrow> (string \<times> (string \<times> string) list) option" where
  "xadd_record cmd = (case cmd of c # stream # time # rest \<Rightarrow>
     if c = ''XADD'' then Some (stream, xadd_fields rest) else None | _ \<Rightarrow> None)"

section \<open>From the message to the stream\<close>

text \<open>The event messages and what a record of the stream says about each.\<close>

fun event_record :: "message \<Rightarrow> (string \<times> string) list" where
  "event_record (EventUserCreate username passphrase) =
     [(''event'', ''EventUserCreate''), (''passphrase'', c_str passphrase), (''username'', c_str username)]"
| "event_record (EventUserLogin username) = [(''event'', ''EventUserLogin''), (''username'', c_str username)]"
| "event_record (EventUserLogout username) = [(''event'', ''EventUserLogout''), (''username'', c_str username)]"
| "event_record _ = []"

fun is_event :: "message \<Rightarrow> bool" where
  "is_event (EventUserCreate username passphrase) = True"
| "is_event (EventUserLogin username) = True"
| "is_event (EventUserLogout username) = True"
| "is_event _ = False"

text \<open>The arguments of the command that the storage sends for a stored event.\<close>

fun event_argv :: "message \<Rightarrow> string list" where
  "event_argv (StorageEventStore event_name flds) =
     map c_str ([''FCALL'', event_name, ''1'', ''events''] @ field_args flds)"
| "event_argv _ = []"

lemma event_to_record:
  assumes "is_event m"
  shows "\<exists>store.
    event_recorder_handle sa m = [Send sa store] \<and>
    storage_actor_handle (redis_ops api i) (Some d) store =
      Inr (Some (snd (redisCommandArgv api d (event_argv store))), NoReply) \<and>
    (\<exists>cmd. fcall (event_argv store) = Some cmd \<and> xadd_record cmd = Some (''events'', event_record m))"
  using assms
  by (cases m)
     (auto simp: event_recorder_handle_def storage_actor_handle_def with_storage_def redis_event_store_def
        field_args_def registered_functions_def lua_EventUserCreate_def lua_EventUserLogin_def
        lua_EventUserLogout_def decimal_value_def xadd_record_def c_str_literal split: prod.split)

end
