(* ===== verification/System_Events.thy ===== *)
theory System_Events
  imports Mud_System Redis_Events
begin

text \<open>
  What the messages of a running server carry. Locale \<open>message_contract\<close> states a predicate on messages
  that every handler keeps: if the message it gets satisfies it, so do those it sends. Its instance says
  that a password reaches the recorder and the storage only as a salted hash; what the storage actor does
  to its storage in any run of the server follows.
\<close>

section \<open>What a handler adds to the mailboxes\<close>

lemma foldl_effects_mail:
  "list_all (effect_ok K) es \<Longrightarrow> Msg m \<in> set (w_mail (foldl (run_effect sp) w es) b) \<Longrightarrow>
   Msg m \<in> set (w_mail w b) \<or> Send b m \<in> set es"
proof (induction es arbitrary: w)
  case Nil
  then show ?case by simp
next
  case (Cons e es)
  then have "Msg m \<in> set (w_mail (run_effect sp w e) b) \<or> Send b m \<in> set es" by simp
  moreover have "Msg m \<in> set (w_mail (run_effect sp w e) b) \<Longrightarrow> Msg m \<in> set (w_mail w b) \<or> e = Send b m"
    using Cons.prems(1) by (cases e) (auto simp: effect_ok_def run_effect_def post_def split: if_splits option.splits)
  ultimately show ?case by auto
qed

lemma foldl_effects_actors:
  "list_all (effect_ok K) es \<Longrightarrow> w_actors (foldl (run_effect sp) w es) = w_actors w"
proof (induction es arbitrary: w)
  case Nil
  then show ?case by simp
next
  case (Cons e es)
  then have "w_actors (run_effect sp w e) = w_actors w"
    by (cases e) (auto simp: effect_ok_def run_effect_def split: option.split)
  with Cons show ?case by simp
qed

text \<open>The actors that are born in a step have empty mailboxes, and none of them stores anything.\<close>

lemma run_outcome_adds:
  assumes "world_ok w" "outcome_ok (w_kinds w) (w_next w) self st' es"
    and w': "w' = run_effects (mud_of cfg) e w es"
  shows "Msg m \<in> set (w_mail w' b) \<Longrightarrow> Msg m \<in> set (w_mail w b) \<or> Send b m \<in> set es"
    and "w_actors w' b = Some (Storing x) \<Longrightarrow> w_actors w b = Some (Storing x)"
proof -
  let ?K = "w_kinds w" and ?f = "w_next w" and ?sp = "spawn_actor (mud_of cfg) (ev_answers e)"
  from assms(2) consider
    "list_all (effect_ok ?K) es"
  | c es' where "es = Spawn ?f (SpawnLogin c) # es'" "list_all (effect_ok (?K(?f := Some KLogin))) es'"
  | wl n es' where "es = Spawn ?f (SpawnConnection wl n) # es'" "0 < n"
      "list_all (effect_ok (?K(?f := Some KConnection))) es'"
    unfolding outcome_ok_def by blast
  then have "(Msg m \<in> set (w_mail w' b) \<longrightarrow> Msg m \<in> set (w_mail w b) \<or> Send b m \<in> set es) \<and>
    (w_actors w' b = Some (Storing x) \<longrightarrow> w_actors w b = Some (Storing x))"
  proof cases
    case 1
    from foldl_effects_mail [OF 1, of m ?sp w b] foldl_effects_actors [OF 1, of ?sp w] show ?thesis
      by (simp add: w' run_effects_def)
  next
    case 2
    let ?w = "birth ?f (Login (login_new (ms_event_recorder_actor (mud_of cfg)) c)) w"
    have "run_effect ?sp w (Spawn ?f (SpawnLogin c)) = ?w"
      by (simp add: run_effect_def spawn_actor_def spawn_command_def spawn_controller_def)
    with 2(1) foldl_effects_mail [OF 2(2), of m ?sp ?w b] foldl_effects_actors [OF 2(2), of ?sp ?w] show ?thesis
      by (auto simp: w' run_effects_def split: if_splits)
  next
    case 3
    from spawn_connection_eq [OF 3(2)] obtain sk where
      sp: "?sp ?f (SpawnConnection wl n) w = connection_births ?f n sk w" by metis
    let ?w = "connection_births ?f n sk w"
    from 3(1) sp foldl_effects_mail [OF 3(3), of m ?sp ?w b] foldl_effects_actors [OF 3(3), of ?sp ?w] show ?thesis
      by (auto simp: w' run_effects_def run_effect_def connection_births_def split: if_splits)
  qed
  then show "Msg m \<in> set (w_mail w' b) \<Longrightarrow> Msg m \<in> set (w_mail w b) \<or> Send b m \<in> set es"
    and "w_actors w' b = Some (Storing x) \<Longrightarrow> w_actors w b = Some (Storing x)" by blast+
qed

section \<open>Contracts on messages\<close>

definition mail_all :: "(message \<Rightarrow> bool) \<Rightarrow> 's world \<Rightarrow> bool" where
  "mail_all P w \<longleftrightarrow> (\<forall>b m. Msg m \<in> set (w_mail w b) \<longrightarrow> P m)"

text \<open>
  What a step of the storage actor may do to its storage: \<open>R\<close> holds between the storage that the server
  was started with and the one it has.
\<close>

definition storing_all :: "('s option \<Rightarrow> bool) \<Rightarrow> 's world \<Rightarrow> bool" where
  "storing_all R w \<longleftrightarrow> (\<forall>b x. w_actors w b = Some (Storing x) \<longrightarrow> R x)"

locale message_contract =
  fixes ops :: "'s storage_ops" and P :: "message \<Rightarrow> bool" and R :: "'s option \<Rightarrow> bool"
  assumes handled: "handle_actor ops e fresh self st m = Inr (st', es) \<Longrightarrow> P m \<Longrightarrow> actor_ok K self st \<Longrightarrow>
      Send b m' \<in> set es \<Longrightarrow> P m'"
    and stored: "storage_actor_handle ops x m = Inr (x', r) \<Longrightarrow> P m \<Longrightarrow> handled_by KStoring m \<Longrightarrow> R x \<Longrightarrow> R x'"
    and commands: "P StartServer" "P GoodbyeServer" "P GoodbyeConnection"
begin

lemma deliver_keeps:
  assumes w: "world_ok w" "w_actors w a = Some st" "handled_by (kind_of st) m" "step_env_ok e"
    and inv: "mail_all P w" "storing_all R w" "P m"
  shows "mail_all P (deliver ops (mud_of cfg) e a st m w) \<and> storing_all R (deliver ops (mud_of cfg) e a st m w)"
proof -
  from w(1,2) have ok: "actor_ok (w_kinds w) a st" "w_kinds w a = Some (kind_of st)"
    by (auto simp: world_ok_def actors_ok_def)
  from handle_actor_ok [OF ok w(3) fresh_kinds [OF w(1) order_refl] w(4), of ops] obtain st' es where
    h: "handle_actor ops e (w_next w) a st m = Inr (st', es)" "outcome_ok (w_kinds w) (w_next w) a st' es" by blast
  note adds = run_outcome_adds [OF w(1) h(2) refl]
  have mails: "P m'" if "Msg m' \<in> set (w_mail (run_effects (mud_of cfg) e w es) b)" for b m'
    using adds(1) [OF that] inv(1) handled [OF h(1) inv(3) ok(1)] by (auto simp: mail_all_def)
  have "R x'" if "st' = Storing x'" for x'
  proof -
    from h(1) that obtain x r where "st = Storing x" "storage_actor_handle ops x m = Inr (x', r)"
      by (auto simp: handle_actor_def bindE_eq_Inr Let_def split: actor.splits prod.splits)
    with stored [OF this(2) inv(3)] w(2,3) inv(2) show ?thesis by (auto simp: storing_all_def)
  qed
  moreover have "R x" if "w_actors (run_effects (mud_of cfg) e w es) b = Some (Storing x)" for b x
    using adds(2) [OF that] inv(2) by (auto simp: storing_all_def)
  ultimately show ?thesis using mails h(1)
    by (auto simp: deliver_def Let_def mail_all_def storing_all_def split: if_splits)
qed

lemma step_keeps:
  "step ops cfg w w' \<Longrightarrow> world_ok w \<Longrightarrow> mail_all P w \<and> storing_all R w \<Longrightarrow> mail_all P w' \<and> storing_all R w'"
proof (induction rule: step.induct)
  case (step_message w a st m rest e)
  let ?w = "w\<lparr>w_mail := (w_mail w)(a := rest)\<rparr>"
  have "world_ok ?w" using step_message by (intro world_ok_pop) auto
  moreover have "handled_by (kind_of st) m"
    using step_message unfolding world_ok_def actors_ok_def mails_ok_def
    by (metis list.set_intros(1) option.inject)
  moreover have "P m" using step_message unfolding mail_all_def by (metis list.set_intros(1))
  moreover have "P m'" if "Msg m' \<in> set rest" for m'
    using step_message that unfolding mail_all_def by (metis list.set_intros(2))
  then have "mail_all P ?w" "storing_all R ?w"
    using step_message by (auto simp: mail_all_def storing_all_def)
  ultimately show ?case using step_message by (intro deliver_keeps) simp_all
next
  case (step_exit w a st rest e)
  let ?w = "w\<lparr>w_actors := (w_actors w)(a := None), w_mail := (w_mail w)(a := [])\<rparr>"
  have exits: "list_all (effect_ok (w_kinds w)) (exit_effects st)" "Send b m \<notin> set (exit_effects st)" for b m
    by (cases st; simp add: exit_effects_def connection_exit_def command_exit_def)+
  have "mail_all P (foldl (run_effect sp) ?w (exit_effects st)) \<and>
      storing_all R (foldl (run_effect sp) ?w (exit_effects st))" for sp
    using step_exit(3,4) foldl_effects_mail [OF exits(1), of _ sp ?w] foldl_effects_actors [OF exits(1), of sp ?w] exits(2)
    by (fastforce simp: mail_all_def storing_all_def split: if_splits)
  then show ?case by (simp add: end_actor_def run_effects_def)
next
  case (step_quit w e)
  let ?es = "quit_connection_actors (w_registry w)"
  have ok: "list_all (effect_ok (w_kinds w)) ?es" using step_quit(1) quit_effects_ok(1) by (simp add: world_ok_def)
  have "m = GoodbyeConnection" if "Send b m \<in> set ?es" for b m
    using that by (auto simp: quit_connection_actors_def split: if_splits)
  then have "mail_all P (foldl (run_effect sp) w ?es) \<and> storing_all R (foldl (run_effect sp) w ?es)" for sp
    using step_quit(2) foldl_effects_mail [OF ok, of _ sp w] foldl_effects_actors [OF ok, of sp w] commands(3)
    by (fastforce simp: mail_all_def storing_all_def)
  then show ?case by (simp add: run_effects_def)
next
  case (step_kill_server w)
  then show ?case using commands(2) by (auto simp: mail_all_def storing_all_def post_def split: if_splits)
qed

lemma reachable_keeps:
  assumes "reachable ops cfg s w" "R s"
  shows "mail_all P w \<and> storing_all R w"
  using assms
proof (induction rule: reachable.induct)
  case reachable_start
  then show ?case
    using commands(1)
    by (auto simp: mail_all_def storing_all_def start_world_def post_def STORAGE_ID_def RECORDER_ID_def SERVER_ID_def
        split: if_splits)
next
  case (reachable_step w w')
  then show ?case using step_keeps reachable_ok by blast
qed

end

section \<open>Passwords leave the login controller as salted hashes\<close>

definition salted_hash :: "string \<Rightarrow> bool" where
  "salted_hash h \<longleftrightarrow> (\<exists>env p. p \<noteq> [] \<and> h = credential_text env p)"

definition user_record :: "string \<times> string \<Rightarrow> map_t" where
  "user_record user = smap_put ''passphrase'' (snd user) (smap_put ''username'' (fst user) [])"

text \<open>A user has a name, and the text stored as its passphrase is a salted hash.\<close>

definition hashed_user :: "string \<times> string \<Rightarrow> bool" where
  "hashed_user user \<longleftrightarrow> fst user \<noteq> [] \<and> salted_hash (snd user)"

fun hashed_message :: "message \<Rightarrow> bool" where
  "hashed_message (EventUserCreate u h) = hashed_user (u, h)"
| "hashed_message (EventUserLogin u) = False"
| "hashed_message (EventUserLogout u) = False"
| "hashed_message (StorageEventStore n flds) =
     (n = ''EventUserCreate'' \<and> (\<exists>user. hashed_user user \<and> flds = user_record user))"
| "hashed_message m = True"

text \<open>The storage after the records of some new users.\<close>

definition store_users :: "'s storage_ops \<Rightarrow> 's option \<Rightarrow> (string \<times> string) list \<Rightarrow> 's option" where
  "store_users ops s users =
     map_option (\<lambda>d. foldl (\<lambda>d user. snd (so_event_store ops d ''EventUserCreate'' (user_record user))) d users) s"

definition users_stored :: "'s storage_ops \<Rightarrow> 's option \<Rightarrow> 's option \<Rightarrow> bool" where
  "users_stored ops s x \<longleftrightarrow> (\<exists>users. list_all hashed_user users \<and> x = store_users ops s users)"

lemma store_users_snoc:
  "store_users ops s (users @ [user]) =
     map_option (\<lambda>d. snd (so_event_store ops d ''EventUserCreate'' (user_record user))) (store_users ops s users)"
  by (cases s) (simp_all add: store_users_def)

lemma users_stored_refl: "users_stored ops s s"
proof -
  have "store_users ops s [] = s" by (cases s) (simp_all add: store_users_def)
  then show ?thesis unfolding users_stored_def by (intro exI [of _ "[]"]) simp
qed

lemma users_stored_step:
  assumes "storage_actor_handle ops x m = Inr (x', r)" "hashed_message m" "handled_by KStoring m" "users_stored ops s x"
  shows "users_stored ops s x'"
proof -
  from assms(2,3) obtain user where m: "m = StorageEventStore ''EventUserCreate'' (user_record user)"
    and user: "hashed_user user" by (cases m) (auto simp: handled_by_def)
  from assms(4) obtain users where x: "list_all hashed_user users" "x = store_users ops s users"
    unfolding users_stored_def by blast
  from assms(1) m have "x' = map_option (\<lambda>d. snd (so_event_store ops d ''EventUserCreate'' (user_record user))) x"
    by (auto simp: storage_actor_handle_def with_storage_def split: option.splits)
  with x user show ?thesis
    unfolding users_stored_def by (intro exI [of _ "users @ [user]"]) (simp add: store_users_snoc)
qed

lemma hashed_user_new:
  "u \<noteq> [] \<Longrightarrow> p \<noteq> [] \<Longrightarrow>
   hashed_user (u, credential_to_string (hash_credentials env p (generate_random_salt env)))"
  by (auto simp: hashed_user_def salted_hash_def credential_text_def)

lemma login_sends_hash:
  assumes "login_handle env lc m = (lc', es)" "Send b m' \<in> set es"
  shows "hashed_message m'"
  using assms
  by (cases m)
    (auto simp: login_handle_def actor_defs Let_def hash_and_scrub_password_def record_event_user_create_def
      intro!: hashed_user_new split: if_splits)

lemma recorder_keeps_hash:
  "Send b m' \<in> set (event_recorder_handle s m) \<Longrightarrow> hashed_message m \<Longrightarrow> hashed_message m'"
  by (cases m) (auto simp: event_recorder_handle_def Let_def user_record_def)

text \<open>The other actors send nothing that the recorder or the storage handles.\<close>

lemma list_all_send_via: "Send b m' \<in> set (send_via x m) \<Longrightarrow> m' = m"
  by (cases x) auto

lemma server_sends: "server_handle fresh self se ac sv m = (sv', es) \<Longrightarrow> Send b m' \<in> set es \<Longrightarrow> hashed_message m'"
  by (cases m) (auto simp: actor_defs Let_def split: if_splits prod.splits)

lemma command_sends: "command_handle fresh self ca m = (ca', es) \<Longrightarrow> Send b m' \<in> set es \<Longrightarrow> hashed_message m'"
  by (cases m) (auto simp: command_handle_def actor_defs Let_def split: option.splits)

lemma default_sends: "Send b m' \<in> set (default_handle c m) \<Longrightarrow> hashed_message m'"
  by (cases m) (auto simp: default_handle_def emit_help_def actor_defs split: if_splits)

lemma connection_sends:
  assumes "connection_ok cn" "connection_handle self i (cn, sk) m = Inr ((cn', sk'), es)" "Send b m' \<in> set es"
  shows "hashed_message m'"
proof (cases "m = GoodbyeConnection")
  case True
  with assms show ?thesis
    by (auto simp: connection_handle_def goodbye_connection_def connection_ok_def comm_static_def Let_def
        split: prod.splits)
next
  case False
  have poll: "Send b m' \<in> set (poll_effects self c r) \<Longrightarrow> hashed_message m'" for c r
    by (cases r) (auto dest: list_all_send_via)
  from connection_handle_step [OF assms(1) False, of self i sk] assms(2)
  have "es = handler_effects self (cn_command cn) (input_of cn) i m" by auto
  with assms(3) poll show ?thesis
    by (cases m) (auto simp: handler_effects_def dest: list_all_send_via)
qed

lemma handler_sends_hashes:
  assumes "handle_actor ops e fresh self st m = Inr (st', es)" "hashed_message m" "actor_ok K self st"
    and "Send b m' \<in> set es"
  shows "hashed_message m'"
  using assms
  by (cases st)
    (auto simp: handle_actor_def bindE_eq_Inr Let_def split: prod.splits
      intro: server_sends connection_sends command_sends login_sends_hash default_sends recorder_keeps_hash)

interpretation hashes: message_contract ops hashed_message "users_stored ops s"
  for ops :: "'s storage_ops" and s
proof
  fix e fresh self m es b m' K and st st' :: "'s actor"
  assume "handle_actor ops e fresh self st m = Inr (st', es)" "hashed_message m" "actor_ok K self st"
    "Send b m' \<in> set es"
  then show "hashed_message m'" by (rule handler_sends_hashes)
qed (auto intro: users_stored_step)

section \<open>A session\<close>

text \<open>
  A schedule says whose turn it is and what the environment answers in that turn. The run along it
  is one of the server's runs.
\<close>

fun run_schedule ::
  "'s storage_ops \<Rightarrow> mud_config \<Rightarrow> (actor_id \<times> step_env) list \<Rightarrow> 's world \<Rightarrow> 's world option" where
  "run_schedule ops cfg [] w = Some w"
| "run_schedule ops cfg ((a, e) # turns) w =
     (case (w_actors w a, w_mail w a) of
        (Some st, Msg m # rest) \<Rightarrow>
          (if step_env_ok e
           then run_schedule ops cfg turns (deliver ops (mud_of cfg) e a st m (w\<lparr>w_mail := (w_mail w)(a := rest)\<rparr>))
           else None)
      | (Some st, ExitMsg # rest) \<Rightarrow> run_schedule ops cfg turns (end_actor (mud_of cfg) e a st w)
      | _ \<Rightarrow> None)"

lemma run_schedule_reachable:
  "run_schedule ops cfg turns w = Some w' \<Longrightarrow> reachable ops cfg s w \<Longrightarrow> reachable ops cfg s w'"
proof (induction turns arbitrary: w)
  case Nil
  then show ?case by simp
next
  case (Cons turn turns)
  obtain a e where turn: "turn = (a, e)" by (cases turn)
  from Cons.prems(1) obtain st x rest where w: "w_actors w a = Some st" "w_mail w a = x # rest"
    by (auto simp: turn split: option.splits list.splits)
  obtain w1 where "step ops cfg w w1" "run_schedule ops cfg turns w1 = Some w'"
  proof (cases x)
    case (Msg m)
    with Cons.prems(1) w step_message [OF w(1), of m rest e] that show thesis
      by (auto simp: turn split: if_splits)
  next
    case ExitMsg
    with Cons.prems(1) w step_exit [OF w(1), of rest ops cfg e] that show thesis by (auto simp: turn)
  qed
  with Cons.IH Cons.prems(2) reachable_step show ?case by blast
qed

text \<open>The turns: without input, and with a line typed by the user.\<close>

definition quiet :: "crypto_env \<Rightarrow> step_env" where
  "quiet env = example_env\<lparr>ev_crypto := env\<rparr>"

definition typed_line :: "crypto_env \<Rightarrow> string \<Rightarrow> step_env" where
  "typed_line env l =
     (quiet env)\<lparr>ev_input := \<lparr>in_peek = 1, in_count = int (length l) + 1, in_bytes = map byte_of_char l @ [10]\<rparr>\<rparr>"

lemma turn_simps [simp]:
  "ev_crypto (quiet env) = env" "ev_crypto (typed_line env l) = env" "step_env_ok (quiet env)" "step_env_ok (typed_line env l)"
  "ev_start (quiet env) = \<lparr>se_socket = 3, se_bind = 0, se_listen = 0, se_errno = 0\<rparr>"
  "ev_accept (quiet env) = 7" "ev_answers (quiet env) = []" "ev_answers (typed_line env l) = []"
  by (simp_all add: typed_line_def quiet_def example_env_def step_env_ok_def)

definition line_ok :: "string \<Rightarrow> bool" where
  "line_ok l \<longleftrightarrow> l \<noteq> [] \<and> l \<noteq> ''quit'' \<and> l \<noteq> ''exit'' \<and> length l < BUFFER_MAX_READ \<and> list_all printable l"

lemma typed_read: "line_ok l \<Longrightarrow> poll_of (ev_input (typed_line env l)) = Chunk (l @ NEWLINE)"
proof -
  assume l: "line_ok l"
  then have keep: "\<forall>b \<in> set (map byte_of_char l). 32 \<le> b \<and> b \<le> 127"
    by (auto simp: line_ok_def list_all_iff printable_def)
  have nz: "b \<noteq> 0 \<and> keeps_byte b \<and> b \<noteq> 0xff" if "32 \<le> b \<and> b \<le> 127" for b :: byte
  proof -
    have "b \<noteq> 0 \<and> b \<noteq> 0xff" using that by auto
    moreover have "10 \<le> b" using that order_trans [of 10 32 b] by simp
    ultimately show ?thesis using that by (simp add: keeps_byte_def)
  qed
  let ?bs = "map byte_of_char l @ [10]"
  have bs: "in_bytes (ev_input (typed_line env l)) = ?bs" by (simp add: typed_line_def)
  have no: "\<not> telnet_command ?bs" "?bs \<noteq> [4]"
    using keep nz by (cases l; simp add: telnet_command_def)+
  have tk: "takeWhile (\<lambda>c. c \<noteq> 0) ?bs = ?bs" using keep nz by (subst takeWhile_eq_all_conv) auto
  have fl: "filter keeps_byte ?bs = ?bs" using keep nz by (subst filter_id_conv) (auto simp: keeps_byte_def)
  have ok: "sys_input_ok (ev_input (typed_line env l))"
    using l by (simp add: typed_line_def sys_input_ok_def line_ok_def)
  have "read_from_user (ev_input (typed_line env l)) = (int (length l) + 1, map char_of_byte ?bs)"
    using no by (simp only: read_from_user_eq [OF ok] bs tk fl) (simp add: typed_line_def)
  moreover have "char_of_byte 10 = CHR 0x0A" by code_simp
  then have "map char_of_byte ?bs = l @ NEWLINE" by (simp add: NEWLINE_def o_def)
  ultimately show ?thesis by (simp add: poll_of_def has_data_def typed_line_def)
qed

lemma typed_turn:
  assumes "line_ok l" "0 < n"
  shows "from_user_get_input self (ev_input (typed_line env l)) (fresh_connection c self n, sk) =
    Inr ((fresh_connection c self n, sk), [Send c (OnUserInput l), Send self FromUserGetInput])"
proof -
  let ?i = "ev_input (typed_line env l)"
  from typed_read [OF assms(1), of env] obtain k where r: "has_data ?i" "read_from_user ?i = (k, l @ NEWLINE)" "k \<noteq> 0"
    by (cases "read_from_user ?i") (auto simp: poll_of_def split: if_splits)
  have "sanitize l = l" using assms(1) by (intro sanitize_id) (auto simp: line_ok_def list_all_iff)
  with r assms newline_in [of l] show ?thesis
    by (simp add: from_user_get_input_def comm_static_def fresh_connection_def line_ok_def)
qed

text \<open>The dialogue of the login controller, turn by turn.\<close>

lemma login_turns:
  "login_handle env (login_new ev c) LoginControllerStart = (login_new ev c, prompt_user c ''enter username'')"
  "login_handle env (login_new ev c) (OnUserInput u) =
     ((login_new ev c)\<lparr>lc_username := u\<rparr>, emit_user c SUPPRESS_ECHO_SEQUENCE @ prompt_user c ''enter password'')"
  "u \<noteq> [] \<Longrightarrow> login_handle env ((login_new ev c)\<lparr>lc_username := u\<rparr>) (OnUserInput p) =
     ((login_new ev c)\<lparr>lc_username := u, lc_password := p\<rparr>, emit_user c [] @ prompt_user c ''confirm password'')"
  "u \<noteq> [] \<Longrightarrow> p \<noteq> [] \<Longrightarrow>
   login_handle env ((login_new ev c)\<lparr>lc_username := u, lc_password := p\<rparr>) (OnUserInput p) =
     ((login_new ev c)\<lparr>lc_username := u, lc_password := blanks p\<rparr>,
      emit_user c ENABLE_ECHO_SEQUENCE @ emit_user c [] @ emit_user c (''Welcome to Primordia '' @ u @ ''!'') @
      emit_user c [] @ [record_event_user_create ev u (credential_text env p)] @ end_controller c)"
  by (simp_all add: login_handle_def login_new_def hash_and_scrub_password_def scrub_blanks credential_text_def Let_def)

lemma spawn_connection_any:
  assumes "0 < n"
  shows "\<exists>sk. \<forall>w. spawn_actor mud ans a (SpawnConnection wl n) w = connection_births a n sk w"
  using connection_new_born [OF assms, of "Suc a" a wl "new_socket n ans"]
  by (auto simp: spawn_actor_def spawn_command_def spawn_controller_def run_effect_def
      command_new_def connection_births_def new_socket_def)

lemma spawn_login_any:
  "spawn_actor (mud_of cfg) ans a (SpawnLogin c) w = birth a (Login (login_new RECORDER_ID c)) w"
  by (simp add: spawn_actor_def spawn_command_def spawn_controller_def mud_of_def)

text \<open>
  A user connects, answers the three questions of the login controller, and is left with the default
  controller: 1 is the storage actor, 2 the recorder, 3 the server, 4 the connection, 5 its command actor,
  6 the default and 7 the login controller.
\<close>

definition session :: "crypto_env \<Rightarrow> string \<Rightarrow> string \<Rightarrow> (actor_id \<times> step_env) list" where
  "session env u p =
     map (\<lambda>a. (a, quiet env)) [3, 3, 4, 5, 7, 5, 4] @
     [(4, typed_line env u)] @ map (\<lambda>a. (a, quiet env)) [5, 7] @
     [(4, typed_line env p)] @ map (\<lambda>a. (a, quiet env)) [5, 5, 5, 7] @
     [(4, typed_line env p)] @ map (\<lambda>a. (a, quiet env)) [5, 5, 5, 7, 2, 1] @
     map (\<lambda>a. (a, quiet env)) [5, 5, 5, 5, 5, 7]"

lemma session_run:
  fixes cfg and s :: "'s option"
  assumes "line_ok u" "line_ok p"
  shows "\<exists>w. run_schedule ops cfg (session env u p) (start_world cfg s) = Some w \<and>
     w_actors w 1 = Some (Storing (store_users ops s [(u, credential_text env p)])) \<and>
     w_actors w 5 = Some (Command \<lparr>ca_connection_actor = 4, ca_active_controller = Some 6, ca_connection = 7,
       ca_default_controller = Some 6\<rparr>) \<and> w_actors w 6 = Some (Default 5) \<and> w_actors w 7 = None"
proof -
  let ?wl = "server_welcome (ms_config (mud_of cfg))"
  obtain sk where sp:
    "spawn_actor (mud_of cfg) [] 4 (SpawnConnection ?wl 7) w = connection_births 4 7 sk w" for w :: "'s world"
    using spawn_connection_any [of 7 "mud_of cfg" "[]" 4 ?wl] by auto
  have ids: "STORAGE_ID = 1" "RECORDER_ID = 2" "SERVER_ID = 3"
    by (simp_all add: STORAGE_ID_def RECORDER_ID_def SERVER_ID_def)
  have ne: "u \<noteq> []" "p \<noteq> []" using assms by (auto simp: line_ok_def)
  have conn: "cn_connection (fresh_connection c a n) = n" for c a n by (simp add: fresh_connection_def)
  note world = session_def start_world_def ids post_def birth_def deliver_def run_effects_def run_effect_def
    handle_actor_def sp spawn_login_any connection_births_def command_new_def end_actor_def exit_effects_def Let_def
  note handlers = server_defs server_new_def connection_handle_def conn comm_static_def typed_turn assms
    command_handle_def login_turns ne user_client_defs record_event_user_create_def event_recorder_handle_def
    storage_actor_handle_def with_storage_def
  show ?thesis
    by (cases s) (simp_all add: world handlers user_record_def store_users_def del: One_nat_def)
qed

section \<open>Properties\<close>

text \<open>
  C1: In every reachable state of the server, whatever the users typed, no password is on its way in the
  clear: a message that creates a user carries a name and a salted hash of a password that is not empty, and
  all that has happened to the storage since the start is that such users were stored as events, one after
  the other.
\<close>

theorem only_hashes_are_stored:
  assumes "reachable ops cfg s w"
  shows "(\<forall>a u h. Msg (EventUserCreate u h) \<in> set (w_mail w a) \<longrightarrow> u \<noteq> [] \<and> salted_hash h) \<and>
    (\<forall>b x. w_actors w b = Some (Storing x) \<longrightarrow>
       (\<exists>users. list_all hashed_user users \<and> x = store_users ops s users))"
proof -
  from hashes.reachable_keeps [OF assms users_stored_refl]
  have "mail_all hashed_message w" "storing_all (users_stored ops s) w" by simp_all
  then show ?thesis
    unfolding mail_all_def storing_all_def users_stored_def
    using hashed_message.simps(1) by (metis hashed_user_def fst_conv snd_conv)
qed

theorem only_hashes_are_stored_witness:
  "\<exists>w user. reachable mock_ops example_config (Some mock_empty) w \<and>
     w_actors w 1 = Some (Storing (store_users mock_ops (Some mock_empty) [user])) \<and>
     (\<exists>users. list_all hashed_user users \<and>
        store_users mock_ops (Some mock_empty) [user] = store_users mock_ops (Some mock_empty) users)"
proof -
  have "line_ok ''bob''" "line_ok ''secret''" by code_simp+
  from session_run [OF this, of mock_ops example_config "ev_crypto example_env" "Some mock_empty"]
  obtain w user where run: "run_schedule mock_ops example_config
      (session (ev_crypto example_env) ''bob'' ''secret'') (start_world example_config (Some mock_empty)) = Some w"
    and x: "w_actors w 1 = Some (Storing (store_users mock_ops (Some mock_empty) [user]))" by blast
  have r: "reachable mock_ops example_config (Some mock_empty) w"
    by (rule run_schedule_reachable [OF run reachable_start])
  from only_hashes_are_stored [OF r] x r show ?thesis by blast
qed

text \<open>
  C6: The parts work together: for every name and password (printable lines that fit the buffer and do not
  ask to quit) there is a run of the server, from its start and with any storage, in which a user connects
  and types the name, the password and the password again, each line arriving in one read of its own, and at
  the end of which the storage actor's storage has recorded exactly this user with the salted hash of this
  password, the login controller has ended and the command actor has handed over to its default controller.
  The run is the one of the schedule of turns \<open>session\<close>; other schedules and other cuts of the input into
  reads are not part of it.
\<close>

theorem session_creates_user:
  assumes "line_ok u" "line_ok p"
  shows "\<exists>w. run_schedule ops cfg (session env u p) (start_world cfg s) = Some w \<and> reachable ops cfg s w \<and>
     w_actors w STORAGE_ID = Some (Storing (store_users ops s [(u, credential_text env p)])) \<and>
     w_actors w 5 = Some (Command \<lparr>ca_connection_actor = 4, ca_active_controller = Some 6, ca_connection = 7,
       ca_default_controller = Some 6\<rparr>) \<and> w_actors w 6 = Some (Default 5) \<and> w_actors w 7 = None"
  using session_run [OF assms, of ops cfg env s] run_schedule_reachable [OF _ reachable_start]
  unfolding STORAGE_ID_def by blast

theorem session_creates_user_witness:
  "\<exists>w. run_schedule mock_ops example_config (session (ev_crypto example_env) ''bob'' ''secret'')
       (start_world example_config (Some mock_empty)) = Some w \<and>
     w_actors w STORAGE_ID = Some (Storing (store_users mock_ops (Some mock_empty)
       [(''bob'', credential_text (ev_crypto example_env) ''secret'')]))"
proof -
  have "line_ok ''bob''" "line_ok ''secret''" by code_simp+
  from session_creates_user [OF this, of mock_ops example_config "ev_crypto example_env" "Some mock_empty"]
  show ?thesis by blast
qed

end
