(* ===== verification/Session_Isolation.thy ===== *)
theory Session_Isolation
  imports System_Events
begin

text \<open>
  The sessions of the users are separate: a connection, its command actor and their controllers refer only to
  each other and to the recorder, and what one of them sends goes to actors of the same session. A session is
  named by the id of its connection.
\<close>

section \<open>Sessions\<close>

fun session_of :: "actor_id \<Rightarrow> 's actor \<Rightarrow> actor_id option" where
  "session_of x (Connection cn sk) = Some x"
| "session_of x (Command ca) = Some (ca_connection_actor ca)"
| "session_of x (Login lc) = Some (lc_connection_actor lc - 1)"
| "session_of x (Default c) = Some (c - 1)"
| "session_of x st = None"

text \<open>The actors of the session that an actor knows.\<close>

fun peers :: "'s actor \<Rightarrow> actor_id set" where
  "peers (Connection cn sk) = set_option (cn_command cn)"
| "peers (Command ca) =
     {ca_connection_actor ca} \<union> set_option (ca_active_controller ca) \<union> set_option (ca_default_controller ca)"
| "peers (Login lc) = {lc_connection_actor lc}"
| "peers (Default c) = {c}"
| "peers st = {}"

text \<open>The command actor of a connection has the id that follows the connection's.\<close>

fun paired :: "actor_id \<Rightarrow> 's actor \<Rightarrow> bool" where
  "paired x (Command ca) = (x = Suc (ca_connection_actor ca))"
| "paired x st = True"

definition same_session :: "(actor_id \<Rightarrow> 's actor option) \<Rightarrow> actor_id option \<Rightarrow> actor_id \<Rightarrow> bool" where
  "same_session A s y \<longleftrightarrow> (\<forall>st. A y = Some st \<longrightarrow> session_of y st = s)"

definition linked :: "'s world \<Rightarrow> bool" where
  "linked w \<longleftrightarrow> (\<forall>x st. w_actors w x = Some st \<longrightarrow> paired x st \<and>
     (\<forall>y \<in> peers st. y < w_next w \<and> same_session (w_actors w) (session_of x st) y))"

lemma linkedI:
  assumes "\<And>x st. w_actors w x = Some st \<Longrightarrow> paired x st"
    and "\<And>x st y. w_actors w x = Some st \<Longrightarrow> y \<in> peers st \<Longrightarrow> y < w_next w"
    and "\<And>x st y st'. w_actors w x = Some st \<Longrightarrow> y \<in> peers st \<Longrightarrow> w_actors w y = Some st' \<Longrightarrow>
      session_of y st' = session_of x st"
  shows "linked w"
  using assms by (auto simp: linked_def same_session_def)

lemma linkedD:
  assumes "linked w" "w_actors w x = Some st"
  shows "paired x st" "y \<in> peers st \<Longrightarrow> y < w_next w"
    "y \<in> peers st \<Longrightarrow> w_actors w y = Some st' \<Longrightarrow> session_of y st' = session_of x st"
  using assms by (auto simp: linked_def same_session_def)

section \<open>What a handler keeps\<close>

text \<open>To whom a handler sends: itself, an actor it knows, the actor it spawns, or the recorder; the
  server, the recorder and the storage belong to no session.\<close>

definition sends_to :: "(actor_id \<Rightarrow> kind option) \<Rightarrow> actor_id \<Rightarrow> actor_id \<Rightarrow> 's actor \<Rightarrow> actor_id \<Rightarrow> bool" where
  "sends_to K fresh x st y \<longleftrightarrow> y = x \<or> y = fresh \<or> y \<in> peers st \<or> K y = Some KRecorder \<or> session_of x st = None"

definition keeps_links :: "actor_id \<Rightarrow> actor_id \<Rightarrow> 's actor \<Rightarrow> 's actor \<Rightarrow> effect list \<Rightarrow> bool" where
  "keeps_links fresh x st st' es \<longleftrightarrow>
     session_of x st' = session_of x st \<and> (paired x st \<longrightarrow> paired x st') \<and>
     peers st' \<subseteq> peers st \<union> (if Spawn fresh (SpawnLogin x) \<in> set es then {fresh} else {}) \<and>
     (\<forall>f c. Spawn f (SpawnLogin c) \<in> set es \<longrightarrow> f = fresh \<and> c = x \<and> (\<exists>ca. st = Command ca)) \<and>
     (\<forall>f wl n. Spawn f (SpawnConnection wl n) \<in> set es \<longrightarrow> session_of x st' = None \<and> peers st' = {})"

lemma connection_links:
  assumes "connection_ok cn" "connection_handle self i (cn, sk) m = Inr ((cn', sk'), es)"
  shows "cn_command cn' = cn_command cn" "Spawn f r \<notin> set es"
    "Send y m' \<in> set es \<Longrightarrow> y = self \<or> cn_command cn = Some y"
proof -
  have "cn_command cn' = cn_command cn \<and> Spawn f r \<notin> set es \<and>
      (Send y m' \<in> set es \<longrightarrow> y = self \<or> cn_command cn = Some y)"
  proof (cases "m = GoodbyeConnection")
    case True
    with assms show ?thesis
      by (auto simp: connection_handle_def goodbye_connection_def connection_ok_def comm_static_def Let_def
          split: prod.splits)
  next
    case False
    have via: "Spawn f r \<notin> set (send_via c m1)" "Send y m' \<in> set (send_via c m1) \<Longrightarrow> c = Some y" for c m1
      by (cases c; simp)+
    have poll: "Spawn f r \<notin> set (poll_effects self c p)"
      "Send y m' \<in> set (poll_effects self c p) \<Longrightarrow> y = self \<or> c = Some y" for c p
      using via by (cases p; auto)+
    from connection_handle_step [OF assms(1) False, of self i sk] assms(2)
    have "es = handler_effects self (cn_command cn) (input_of cn) i m" "cn_command cn' = cn_command cn" by auto
    with via poll show ?thesis by (cases m) (auto simp: handler_effects_def)
  qed
  then show "cn_command cn' = cn_command cn" "Spawn f r \<notin> set es"
    "Send y m' \<in> set es \<Longrightarrow> y = self \<or> cn_command cn = Some y" by blast+
qed

lemma handle_actor_links:
  assumes "handle_actor ops e fresh x st m = Inr (st', es)" "actor_ok K x st"
  shows "keeps_links fresh x st st' es" and "Send y m' \<in> set es \<Longrightarrow> sends_to K fresh x st y"
proof -
  have "keeps_links fresh x st st' es \<and> (\<forall>y m'. Send y m' \<in> set es \<longrightarrow> sends_to K fresh x st y)"
  proof (cases st)
    case (Server sv)
    with assms show ?thesis
      by (cases m) (auto simp: handle_actor_def actor_defs Let_def keeps_links_def sends_to_def split: if_splits prod.splits)
  next
    case (Connection cn sk)
    from assms Connection obtain cn' sk' where h: "connection_handle x (ev_input e) (cn, sk) m = Inr ((cn', sk'), es)"
      "st' = Connection cn' sk'" "connection_ok cn"
      by (auto simp: handle_actor_def bindE_eq_Inr)
    from connection_links [OF h(3,1)] Connection h(2) show ?thesis
      by (auto simp: keeps_links_def sends_to_def)
  next
    case (Command ca)
    with assms show ?thesis
      by (cases m) (auto simp: handle_actor_def command_handle_def actor_defs Let_def keeps_links_def sends_to_def
          split: option.splits)
  next
    case (Login lc)
    with assms show ?thesis
      by (cases m) (auto simp: handle_actor_def login_handle_def actor_defs Let_def hash_and_scrub_password_def
          record_event_user_create_def keeps_links_def sends_to_def split: if_splits)
  next
    case (Default c)
    with assms show ?thesis
      by (cases m) (auto simp: handle_actor_def default_handle_def emit_help_def actor_defs keeps_links_def sends_to_def
          split: if_splits)
  next
    case (Recorder s)
    with assms show ?thesis
      by (cases m) (auto simp: handle_actor_def event_recorder_handle_def Let_def keeps_links_def sends_to_def)
  next
    case (Storing s)
    with assms show ?thesis
      by (auto simp: handle_actor_def bindE_eq_Inr keeps_links_def)
  qed
  then show "keeps_links fresh x st st' es" and "Send y m' \<in> set es \<Longrightarrow> sends_to K fresh x st y" by blast+
qed

section \<open>What a step keeps\<close>

lemma foldl_effects_next:
  "list_all (effect_ok K) es \<Longrightarrow> w_next (foldl (run_effect sp) w es) = w_next w"
proof (induction es arbitrary: w)
  case Nil
  then show ?case by simp
next
  case (Cons e es)
  then have "w_next (run_effect sp w e) = w_next w"
    by (cases e) (auto simp: effect_ok_def run_effect_def split: option.split)
  with Cons show ?case by simp
qed

lemma linked_cong: "w_actors w' = w_actors w \<Longrightarrow> w_next w' = w_next w \<Longrightarrow> linked w \<Longrightarrow> linked w'"
  by (simp add: linked_def)

lemma linked_remove:
  assumes "linked w" "w_actors w' = (w_actors w)(a := None)" "w_next w' = w_next w"
  shows "linked w'"
  by (rule linkedI) (use linkedD [OF assms(1)] assms(2,3) in \<open>auto split: if_splits\<close>)

text \<open>An actor's members change and others are born: none of them is known to the old ones.\<close>

lemma linked_update:
  assumes "linked w" "w_actors w a = Some st" "a < w_next w"
    and "session_of a st' = session_of a st" "paired a st'" "peers st' \<subseteq> peers st"
    and "w_actors w' = (w_actors w)(a := Some st')" "w_next w' = w_next w"
  shows "linked w'"
proof (rule linkedI)
  fix x sx assume x: "w_actors w' x = Some sx"
  with assms linkedD(1) [OF assms(1)] show "paired x sx" by (auto split: if_splits)
next
  fix x sx y assume "w_actors w' x = Some sx" "y \<in> peers sx"
  with assms linkedD(2) [OF assms(1)] show "y < w_next w'" by (fastforce split: if_splits)
next
  fix x sx y sy assume "w_actors w' x = Some sx" "y \<in> peers sx" "w_actors w' y = Some sy"
  with assms linkedD(3) [OF assms(1)] show "session_of y sy = session_of x sx"
    by (auto split: if_splits)
qed

lemma linked_login_born:
  assumes "linked w" "w_actors w a = Some st" "a < w_next w" "st = Command ca"
    and "session_of a st' = session_of a st" "paired a st'" "peers st' \<subseteq> insert (w_next w) (peers st)"
    and "w_actors w' = (w_actors w)(w_next w := Some (Login (login_new r a)), a := Some st')" "w_next w' = Suc (w_next w)"
  shows "linked w'"
proof (rule linkedI)
  fix x sx assume x: "w_actors w' x = Some sx"
  with assms linkedD(1) [OF assms(1)] show "paired x sx" by (auto split: if_splits)
next
  fix x sx y assume "w_actors w' x = Some sx" "y \<in> peers sx"
  with assms linkedD(2) [OF assms(1)] show "y < w_next w'"
    by (fastforce simp: login_new_def less_Suc_eq split: if_splits)
next
  fix x sx y sy assume "w_actors w' x = Some sx" "y \<in> peers sx" "w_actors w' y = Some sy"
  moreover have "a = Suc (ca_connection_actor ca)" using linkedD(1) [OF assms(1,2)] assms(4) by simp
  moreover have "y' < w_next w" if "w_actors w x' = Some sx'" "y' \<in> peers sx'" for x' sx' y'
    using linkedD(2) [OF assms(1) that] .
  moreover have "session_of x' sx' = Some (ca_connection_actor ca)" if "w_actors w x' = Some sx'" "a \<in> peers sx'" for x' sx'
    using linkedD(3) [OF assms(1) that assms(2)] assms(4) by simp
  ultimately show "session_of y sy = session_of x sx"
    using assms linkedD(3) [OF assms(1)] by (auto simp: login_new_def split: if_splits)
qed

lemma linked_connection_born:
  assumes "linked w" "w_actors w a = Some st" "a < w_next w"
    and "session_of a st' = None" "session_of a st = None" "paired a st'" "peers st' = {}"
    and "w_actors w' = (w_actors (connection_births (w_next w) n sk w))(a := Some st')"
    and "w_next w' = w_next (connection_births (w_next w) n sk w)"
  shows "linked w'"
proof (rule linkedI)
  fix x sx assume x: "w_actors w' x = Some sx"
  with assms linkedD(1) [OF assms(1)] show "paired x sx"
    by (auto simp: connection_births_def command_new_def split: if_splits)
next
  fix x sx y assume "w_actors w' x = Some sx" "y \<in> peers sx"
  with assms linkedD(2) [OF assms(1)] show "y < w_next w'"
    by (fastforce simp: connection_births_def command_new_def fresh_connection_def split: if_splits)
next
  fix x sx y sy assume "w_actors w' x = Some sx" "y \<in> peers sx" "w_actors w' y = Some sy"
  moreover have "y' < w_next w" if "w_actors w x' = Some sx'" "y' \<in> peers sx'" for x' sx' y'
    using linkedD(2) [OF assms(1) that] .
  ultimately show "session_of y sy = session_of x sx"
    using assms linkedD(3) [OF assms(1)]
    by (fastforce simp: connection_births_def command_new_def fresh_connection_def split: if_splits)
qed

lemma deliver_linked:
  assumes w: "world_ok w" "linked w" "w_actors w a = Some st" "handled_by (kind_of st) m" "step_env_ok e"
  shows "linked (deliver ops (mud_of cfg) e a st m w)"
proof -
  let ?K = "w_kinds w" and ?f = "w_next w" and ?sp = "spawn_actor (mud_of cfg) (ev_answers e)"
  from w(1,3) have ok: "actor_ok ?K a st" "?K a = Some (kind_of st)" by (auto simp: world_ok_def actors_ok_def)
  from handle_actor_ok [OF ok w(4) fresh_kinds [OF w(1) order_refl] w(5), of ops] obtain st' es where
    h: "handle_actor ops e ?f a st m = Inr (st', es)" "outcome_ok ?K ?f a st' es" by blast
  note links = handle_actor_links(1) [OF h(1) ok(1), unfolded keeps_links_def]
  have pair: "paired a st'" "a < ?f" using links linkedD(1) [OF w(2,3)] actors_below [OF w(1,3)] by blast+
  let ?w = "deliver ops (mud_of cfg) e a st m w"
  have acts: "w_actors ?w = (w_actors (run_effects (mud_of cfg) e w es))(a := Some st')"
    "w_next ?w = w_next (run_effects (mud_of cfg) e w es)"
    by (simp_all add: deliver_def h(1) Let_def)
  from h(2) consider
    "list_all (effect_ok ?K) es"
  | c es' where "es = Spawn ?f (SpawnLogin c) # es'" "list_all (effect_ok (?K(?f := Some KLogin))) es'"
  | wl n es' where "es = Spawn ?f (SpawnConnection wl n) # es'" "0 < n"
      "list_all (effect_ok (?K(?f := Some KConnection))) es'"
    unfolding outcome_ok_def by blast
  then show ?thesis
  proof cases
    case 1
    then have "Spawn ?f (SpawnLogin a) \<notin> set es" by (auto simp: list_all_iff effect_ok_def)
    with 1 links pair acts foldl_effects_actors [OF 1, of ?sp w] foldl_effects_next [OF 1, of ?sp w] show ?thesis
      by (intro linked_update [OF w(2,3)]) (simp_all add: run_effects_def)
  next
    case 2
    then have "Spawn ?f (SpawnLogin c) \<in> set es" by simp
    with links obtain ca where c: "c = a" "st = Command ca" by blast
    let ?b = "birth ?f (Login (login_new (ms_event_recorder_actor (mud_of cfg)) a)) w"
    have "run_effect ?sp w (Spawn ?f (SpawnLogin a)) = ?b"
      by (simp add: run_effect_def spawn_actor_def spawn_command_def spawn_controller_def)
    then have run: "run_effects (mud_of cfg) e w es = foldl (run_effect ?sp) ?b es'"
      using 2(1) c by (simp add: run_effects_def)
    show ?thesis
    proof (rule linked_login_born [OF w(2,3) pair(2) c(2)])
      show "w_actors ?w = (w_actors w)
          (?f := Some (Login (login_new (ms_event_recorder_actor (mud_of cfg)) a)), a := Some st')"
        by (simp add: acts run foldl_effects_actors [OF 2(2)])
      show "w_next ?w = Suc ?f" by (simp add: acts run foldl_effects_next [OF 2(2)])
      show "paired a st'" by (rule pair)
      show "session_of a st' = session_of a st" using links by (elim conjE)
      have "peers st' \<subseteq> peers st \<union> (if Spawn ?f (SpawnLogin a) \<in> set es then {?f} else {})"
        using links by (elim conjE)
      then show "peers st' \<subseteq> insert ?f (peers st)" by (auto split: if_splits)
    qed
  next
    case 3
    from spawn_connection_eq [OF 3(2)] obtain sk where
      sp: "?sp ?f (SpawnConnection wl n) w = connection_births ?f n sk w" by metis
    let ?b = "connection_births ?f n sk w"
    from 3(1) have "Spawn ?f (SpawnConnection wl n) \<in> set es" by simp
    with links have "session_of a st' = None" "session_of a st = None" "peers st' = {}" by metis+
    moreover have "run_effects (mud_of cfg) e w es = foldl (run_effect ?sp) ?b es'"
      using 3(1) sp by (simp add: run_effects_def run_effect_def)
    ultimately show ?thesis
      using pair
      by (intro linked_connection_born [OF w(2,3), where n = n and sk = sk])
        (simp_all add: acts foldl_effects_actors [OF 3(3)] foldl_effects_next [OF 3(3)])
  qed
qed

lemma step_linked: "step ops cfg w w' \<Longrightarrow> world_ok w \<Longrightarrow> linked w \<Longrightarrow> linked w'"
proof (induction rule: step.induct)
  case (step_message w a st m rest e)
  let ?w = "w\<lparr>w_mail := (w_mail w)(a := rest)\<rparr>"
  have "world_ok ?w" using step_message by (intro world_ok_pop) auto
  moreover have "linked ?w" by (rule linked_cong [OF _ _ step_message(5)]) simp_all
  moreover have "handled_by (kind_of st) m"
    using step_message unfolding world_ok_def actors_ok_def mails_ok_def
    by (metis list.set_intros(1) option.inject)
  ultimately show ?case using step_message by (intro deliver_linked) simp_all
next
  case (step_exit w a st rest e)
  let ?w = "w\<lparr>w_actors := (w_actors w)(a := None), w_mail := (w_mail w)(a := [])\<rparr>"
  have exits: "list_all (effect_ok (w_kinds w)) (exit_effects st)"
    by (cases st) (simp_all add: exit_effects_def connection_exit_def command_exit_def)
  show ?case
    unfolding end_actor_def run_effects_def
    by (rule linked_remove [OF step_exit(4)])
      (simp_all add: foldl_effects_actors [OF exits] foldl_effects_next [OF exits])
next
  case (step_quit w e)
  have "list_all (effect_ok (w_kinds w)) (quit_connection_actors (w_registry w))"
    using step_quit(1) quit_effects_ok(1) by (simp add: world_ok_def)
  from foldl_effects_actors [OF this] foldl_effects_next [OF this] show ?case
    by (intro linked_cong [OF _ _ step_quit(2)]) (simp_all add: run_effects_def)
next
  case (step_kill_server w)
  then show ?case by (intro linked_cong [OF _ _ step_kill_server(2)]) simp_all
qed

lemma reachable_linked: "reachable ops cfg s w \<Longrightarrow> linked w"
proof (induction rule: reachable.induct)
  case reachable_start
  show ?case by (rule linkedI) (auto simp: start_world_def split: if_splits)
next
  case (reachable_step w w')
  then show ?case using step_linked reachable_ok by blast
qed

section \<open>Properties\<close>

text \<open>
  C2: The users do not see each other: in every reachable state, whatever message an actor of a session
  handles, each message that it sends to an actor alive then goes to the same session, or to the event
  recorder, which belongs to none. In particular what a user types reaches only that user's controllers,
  and what they answer is written only to that user's socket.
\<close>

theorem sessions_are_separate:
  assumes "reachable ops cfg s w" "w_actors w x = Some st" "session_of x st = Some a"
    and "handle_actor ops e (w_next w) x st m = Inr (st', es)" "Send y m' \<in> set es" "w_actors w y = Some sy"
  shows "session_of y sy = Some a \<or> kind_of sy = KRecorder"
proof -
  note w = reachable_ok [OF assms(1)]
  from w assms(2,6) have K: "actor_ok (w_kinds w) x st" "w_kinds w y = Some (kind_of sy)"
    by (auto simp: world_ok_def actors_ok_def)
  have "y \<noteq> w_next w" using actors_below [OF w assms(6)] by simp
  with handle_actor_links(2) [OF assms(4) K(1) assms(5)] K(2) consider
    "y = x" | "y \<in> peers st" | "kind_of sy = KRecorder"
    using assms(3) unfolding sends_to_def by auto
  then show ?thesis
  proof cases
    case 2
    from linkedD(3) [OF reachable_linked [OF assms(1)] assms(2) 2 assms(6)] assms(3) show ?thesis by simp
  qed (use assms(2,3,6) in auto)
qed

theorem sessions_are_separate_witness:
  "\<exists>w ca. reachable mock_ops example_config None w \<and> w_actors w 5 = Some (Command ca) \<and>
     session_of 5 (Command ca :: mock_storage actor) = Some 4 \<and>
     command_handle (w_next w) 5 ca (OnUserInput ''look'') = (ca, [Send 6 (OnUserInput ''look'')]) \<and>
     w_actors w 6 = Some (Default 5) \<and>
     (session_of 6 (Default 5 :: mock_storage actor) = Some 4 \<or> kind_of (Default 5 :: mock_storage actor) = KRecorder)"
proof -
  let ?ca = "\<lparr>ca_connection_actor = 4, ca_active_controller = Some 6, ca_connection = 7, ca_default_controller = Some 6\<rparr>"
  have "line_ok ''bob''" "line_ok ''secret''" by code_simp+
  from session_run [OF this, of mock_ops example_config "ev_crypto example_env" None] obtain w where
    run: "run_schedule mock_ops example_config (session (ev_crypto example_env) ''bob'' ''secret'')
      (start_world example_config None) = Some w"
    and w: "w_actors w 5 = Some (Command ?ca)" "w_actors w 6 = Some (Default 5)" by blast
  have r: "reachable mock_ops example_config None w"
    by (rule run_schedule_reachable [OF run reachable_start])
  have h: "command_handle (w_next w) 5 ?ca (OnUserInput ''look'') = (?ca, [Send 6 (OnUserInput ''look'')])"
    by (simp add: command_handle_def)
  have "handle_actor mock_ops example_env (w_next w) 5 (Command ?ca) (OnUserInput ''look'') =
      Inr (Command ?ca, [Send 6 (OnUserInput ''look'')])" by (simp add: handle_actor_def h)
  from sessions_are_separate [OF r w(1) _ this _ w(2), of 4] r w h show ?thesis by (intro exI [of _ w] exI [of _ ?ca]) simp
qed

end
