(* ===== verification/Shutdown_Run.thy ===== *)
theory Shutdown_Run
  imports Session_Isolation "HOL-Library.Sublist"
begin

text \<open>
  The end of the server: what the goodbyes of the main thread lead to, whatever the actors do in between.
  A connection that has been told goodbye has closed its socket and left the registry after as many of its
  own turns as messages were waiting before the goodbye; a connection actor never ends with its socket open.
  A connection that is accepted behind the goodbyes is told nothing, and as long as its client stays connected
  and types nothing it stays open.
\<close>

section \<open>Turns\<close>

text \<open>An actor takes a turn: it handles a message or ends.\<close>

inductive turn_of :: "'s storage_ops \<Rightarrow> mud_config \<Rightarrow> actor_id \<Rightarrow> 's world \<Rightarrow> 's world \<Rightarrow> bool"
  for ops cfg a where
  turn_message:
    "w_actors w a = Some st \<Longrightarrow> w_mail w a = Msg m # rest \<Longrightarrow> step_env_ok e \<Longrightarrow>
     turn_of ops cfg a w (deliver ops (mud_of cfg) e a st m (w\<lparr>w_mail := (w_mail w)(a := rest)\<rparr>))"
| turn_exit:
    "w_actors w a = Some st \<Longrightarrow> w_mail w a = ExitMsg # rest \<Longrightarrow>
     turn_of ops cfg a w (end_actor (mud_of cfg) e a st w)"

text \<open>A run in which \<open>a\<close> takes at least \<open>n\<close> turns, between any steps of the others and of the main thread.\<close>

inductive run_with :: "'s storage_ops \<Rightarrow> mud_config \<Rightarrow> actor_id \<Rightarrow> nat \<Rightarrow> 's world \<Rightarrow> 's world \<Rightarrow> bool"
  for ops cfg a where
  run_start: "run_with ops cfg a 0 w w"
| run_turn: "run_with ops cfg a n w w1 \<Longrightarrow> turn_of ops cfg a w1 w2 \<Longrightarrow> run_with ops cfg a (Suc n) w w2"
| run_other: "run_with ops cfg a n w w1 \<Longrightarrow> step ops cfg w1 w2 \<Longrightarrow> run_with ops cfg a n w w2"

inductive_cases turn_ofE: "turn_of ops cfg a w w'"

lemma turn_of_step: "turn_of ops cfg a w w' \<Longrightarrow> step ops cfg w w'"
  by (erule turn_ofE) (auto intro: step_message step_exit)

lemma turn_enabled:
  "w_actors w a = Some st \<Longrightarrow> w_mail w a \<noteq> [] \<Longrightarrow> \<exists>w'. turn_of ops cfg a w w'"
proof -
  assume a: "w_actors w a = Some st" "w_mail w a \<noteq> []"
  have "step_env_ok example_env" by (simp add: step_env_ok_def example_env_def)
  then show ?thesis
  proof (cases "w_mail w a")
    case (Cons x rest)
    with a(1) \<open>step_env_ok example_env\<close> show ?thesis by (cases x) (blast intro: turn_of.intros)+
  qed (use a(2) in simp)
qed

lemma run_with_reachable: "run_with ops cfg a n w w' \<Longrightarrow> reachable ops cfg s w \<Longrightarrow> reachable ops cfg s w'"
  by (induction rule: run_with.induct) (auto intro: reachable_step turn_of_step)

section \<open>What a step leaves alone\<close>

text \<open>The messages that wait for an actor stay where they are, and others come behind them.\<close>

lemma foldl_effects_prefix:
  "list_all (effect_ok K) es \<Longrightarrow> prefix (w_mail w b) (w_mail (foldl (run_effect sp) w es) b)"
proof (induction es arbitrary: w)
  case Nil
  then show ?case by simp
next
  case (Cons e es)
  then have "prefix (w_mail w b) (w_mail (run_effect sp w e) b)"
    by (cases e) (auto simp: effect_ok_def run_effect_def post_def split: option.splits)
  with Cons.IH [of "run_effect sp w e"] Cons.prems show ?case by (auto intro: prefix_order.trans)
qed

text \<open>What waits for an actor was waiting before or has been sent.\<close>

fun carries :: "actor_id \<Rightarrow> mail \<Rightarrow> effect" where
  "carries b (Msg m) = Send b m"
| "carries b ExitMsg = SendExit (Some b)"

lemma foldl_effects_arrives:
  "list_all (effect_ok K) es \<Longrightarrow> x \<in> set (w_mail (foldl (run_effect sp) w es) b) \<Longrightarrow>
   x \<in> set (w_mail w b) \<or> carries b x \<in> set es"
proof (induction es arbitrary: w)
  case Nil
  then show ?case by simp
next
  case (Cons e es)
  then have "x \<in> set (w_mail (run_effect sp w e) b) \<or> carries b x \<in> set es" by simp
  moreover have "x \<in> set (w_mail (run_effect sp w e) b) \<Longrightarrow> x \<in> set (w_mail w b) \<or> e = carries b x"
    using Cons.prems(1) by (cases e) (auto simp: effect_ok_def run_effect_def post_def split: if_splits option.splits)
  ultimately show ?case by auto
qed

lemma run_outcome_frame:
  assumes "world_ok w" "outcome_ok (w_kinds w) (w_next w) self st' es" and b: "b < w_next w"
    and w': "w' = run_effects (mud_of cfg) e w es"
  shows "w_actors w' b = w_actors w b" "prefix (w_mail w b) (w_mail w' b)" "w_next w \<le> w_next w'"
proof -
  let ?K = "w_kinds w" and ?f = "w_next w" and ?sp = "spawn_actor (mud_of cfg) (ev_answers e)"
  from assms(2) consider
    "list_all (effect_ok ?K) es"
  | c es' where "es = Spawn ?f (SpawnLogin c) # es'" "list_all (effect_ok (?K(?f := Some KLogin))) es'"
  | wl n es' where "es = Spawn ?f (SpawnConnection wl n) # es'" "0 < n"
      "list_all (effect_ok (?K(?f := Some KConnection))) es'"
    unfolding outcome_ok_def by blast
  then have "w_actors w' b = w_actors w b \<and> prefix (w_mail w b) (w_mail w' b) \<and> w_next w \<le> w_next w'"
  proof cases
    case 1
    with foldl_effects_prefix [OF 1, of w b ?sp] foldl_effects_actors [OF 1, of ?sp w] foldl_effects_next [OF 1, of ?sp w]
    show ?thesis by (simp add: w' run_effects_def)
  next
    case 2
    let ?w = "birth ?f (Login (login_new RECORDER_ID c)) w"
    have "w' = foldl (run_effect ?sp) ?w es'"
      by (simp add: w' run_effects_def 2(1) run_effect_def spawn_login_any)
    with foldl_effects_prefix [OF 2(2), of ?w b ?sp] foldl_effects_actors [OF 2(2), of ?sp ?w]
      foldl_effects_next [OF 2(2), of ?sp ?w] b show ?thesis by simp
  next
    case 3
    from spawn_connection_any [OF 3(2)] obtain sk where
      sp: "?sp ?f (SpawnConnection wl n) w = connection_births ?f n sk w" by metis
    let ?w = "connection_births ?f n sk w"
    have "w' = foldl (run_effect ?sp) ?w es'" by (simp add: w' run_effects_def 3(1) run_effect_def sp)
    with foldl_effects_prefix [OF 3(3), of ?w b ?sp] foldl_effects_actors [OF 3(3), of ?sp ?w]
      foldl_effects_next [OF 3(3), of ?sp ?w] b show ?thesis by (simp add: connection_births_def)
  qed
  then show "w_actors w' b = w_actors w b" "prefix (w_mail w b) (w_mail w' b)" "w_next w \<le> w_next w'" by simp_all
qed

lemma run_outcome_arrives:
  assumes "outcome_ok (w_kinds w) (w_next w) self st' es" "x \<in> set (w_mail (run_effects (mud_of cfg) e w es) b)"
  shows "x \<in> set (w_mail w b) \<or> carries b x \<in> set es"
proof -
  let ?K = "w_kinds w" and ?f = "w_next w" and ?sp = "spawn_actor (mud_of cfg) (ev_answers e)"
  from assms(1) consider
    "list_all (effect_ok ?K) es"
  | c es' where "es = Spawn ?f (SpawnLogin c) # es'" "list_all (effect_ok (?K(?f := Some KLogin))) es'"
  | wl n es' where "es = Spawn ?f (SpawnConnection wl n) # es'" "0 < n"
      "list_all (effect_ok (?K(?f := Some KConnection))) es'"
    unfolding outcome_ok_def by blast
  then show ?thesis
  proof cases
    case 1
    with foldl_effects_arrives [OF 1, of x ?sp w b] assms(2) show ?thesis by (simp add: run_effects_def)
  next
    case 2
    let ?w = "birth ?f (Login (login_new RECORDER_ID c)) w"
    have "run_effects (mud_of cfg) e w es = foldl (run_effect ?sp) ?w es'"
      by (simp add: run_effects_def 2(1) run_effect_def spawn_login_any)
    with foldl_effects_arrives [OF 2(2), of x ?sp ?w b] assms(2) 2(1) show ?thesis by (auto split: if_splits)
  next
    case 3
    from spawn_connection_any [OF 3(2)] obtain sk where
      sp: "?sp ?f (SpawnConnection wl n) w = connection_births ?f n sk w" by metis
    let ?w = "connection_births ?f n sk w"
    have "run_effects (mud_of cfg) e w es = foldl (run_effect ?sp) ?w es'"
      by (simp add: run_effects_def 3(1) run_effect_def sp)
    with foldl_effects_arrives [OF 3(3), of x ?sp ?w b] assms(2) 3(1) show ?thesis
      by (auto simp: connection_births_def split: if_splits)
  qed
qed

text \<open>Only a connection that has just said goodbye ends itself, and nobody ends the connection of another.\<close>

lemma handle_actor_exits:
  assumes "handle_actor ops e fresh self st m = Inr (st', es)" "actor_ok K self st" "SendExit (Some b) \<in> set es"
  shows "b = self \<and> (m = GoodbyeConnection \<or> kind_of st \<noteq> KConnection) \<or> K b \<in> {Some KCommand, Some KLogin, Some KDefault}"
proof (cases st)
  case (Connection cn sk)
  with assms(1) obtain cn' sk' where h: "connection_handle self (ev_input e) (cn, sk) m = Inr ((cn', sk'), es)"
    by (auto simp: handle_actor_def bindE_eq_Inr)
  have ok: "connection_ok cn" using assms(2) Connection by simp
  show ?thesis
  proof (cases "m = GoodbyeConnection")
    case True
    with h assms(3) ok show ?thesis
      by (auto simp: connection_handle_def goodbye_connection_def connection_ok_def comm_static_def Let_def
          split: prod.splits)
  next
    case False
    have via: "SendExit x \<notin> set (send_via c k)" for x c k by (cases c) simp_all
    have "SendExit x \<notin> set (poll_effects self c p)" for x c p using via by (cases p) auto
    moreover from connection_handle_step [OF ok False, of self "ev_input e" sk] h
    have "es = handler_effects self (cn_command cn) (input_of cn) (ev_input e) m" by auto
    ultimately show ?thesis using assms(3) via by (cases m) (auto simp: handler_effects_def)
  qed
next
  case (Server sv)
  with assms show ?thesis
    by (cases m) (auto simp: handle_actor_def actor_defs Let_def split: if_splits prod.splits)
next
  case (Command ca)
  with assms show ?thesis
    by (cases m) (auto simp: handle_actor_def command_handle_def actor_defs Let_def refers_def split: option.splits)
next
  case (Login lc)
  with assms show ?thesis
    by (cases m) (auto simp: handle_actor_def login_handle_def actor_defs Let_def hash_and_scrub_password_def
        record_event_user_create_def split: if_splits)
next
  case (Default c)
  with assms show ?thesis
    by (cases m) (auto simp: handle_actor_def default_handle_def emit_help_def actor_defs split: if_splits)
next
  case (Recorder s)
  with assms show ?thesis by (cases m) (auto simp: handle_actor_def event_recorder_handle_def Let_def)
next
  case (Storing s)
  with assms show ?thesis by (auto simp: handle_actor_def bindE_eq_Inr)
qed

text \<open>A goodbye that an actor sends is its own, from a poll that found data.\<close>

lemma handle_actor_goodbyes:
  assumes "handle_actor ops e fresh self st m = Inr (st', es)" "actor_ok K self st" "Send b GoodbyeConnection \<in> set es"
  shows "b = self \<and> has_data (ev_input e)"
proof (cases st)
  case (Connection cn sk)
  with assms(1) obtain cn' sk' where h: "connection_handle self (ev_input e) (cn, sk) m = Inr ((cn', sk'), es)"
    by (auto simp: handle_actor_def bindE_eq_Inr)
  have ok: "connection_ok cn" using assms(2) Connection by simp
  have via: "m \<noteq> GoodbyeConnection \<Longrightarrow> Send x GoodbyeConnection \<notin> set (send_via c m)" for x c m by (cases c) simp_all
  show ?thesis
  proof (cases "m = GoodbyeConnection")
    case True
    with h assms(3) ok show ?thesis
      by (auto simp: connection_handle_def goodbye_connection_def connection_ok_def comm_static_def Let_def
          split: prod.splits)
  next
    case False
    from connection_handle_step [OF ok False, of self "ev_input e" sk] h
    have es: "es = handler_effects self (cn_command cn) (input_of cn) (ev_input e) m" by auto
    have idle: "snd (poll_step (input_of cn) (poll_of (ev_input e))) = Again" if "\<not> has_data (ev_input e)"
      using that by (cases "input_of cn") (simp add: poll_of_def)
    have poll: "Send b GoodbyeConnection \<in> set (poll_effects self c p) \<Longrightarrow> b = self \<and> p \<noteq> Again" for c p
      using via by (cases p) auto
    show ?thesis using assms(3) via poll idle unfolding es by (cases m) (auto simp: handler_effects_def)
  qed
next
  case (Server sv)
  with assms show ?thesis
    by (cases m) (auto simp: handle_actor_def actor_defs Let_def split: if_splits prod.splits)
next
  case (Command ca)
  with assms show ?thesis
    by (cases m) (auto simp: handle_actor_def command_handle_def actor_defs Let_def split: option.splits)
next
  case (Login lc)
  with assms show ?thesis
    by (cases m) (auto simp: handle_actor_def login_handle_def actor_defs Let_def hash_and_scrub_password_def
        record_event_user_create_def split: if_splits)
next
  case (Default c)
  with assms show ?thesis
    by (cases m) (auto simp: handle_actor_def default_handle_def emit_help_def actor_defs split: if_splits)
next
  case (Recorder s)
  with assms show ?thesis by (cases m) (auto simp: handle_actor_def event_recorder_handle_def Let_def)
next
  case (Storing s)
  with assms show ?thesis by (auto simp: handle_actor_def bindE_eq_Inr)
qed

section \<open>Connections end closed\<close>

text \<open>
  An actor that is told to end is known, and if it is a connection its socket is closed; a connection that is
  registered under its own name is alive.
\<close>

definition exits_closed :: "'s world \<Rightarrow> bool" where
  "exits_closed w \<longleftrightarrow> (\<forall>a. ExitMsg \<in> set (w_mail w a) \<longrightarrow>
     w_kinds w a \<noteq> None \<and> (\<forall>cn sk. w_actors w a = Some (Connection cn sk) \<longrightarrow> sk_closed sk))"

definition registered_live :: "'s world \<Rightarrow> bool" where
  "registered_live w \<longleftrightarrow> (\<forall>a. smap_get (w_registry w) (registery_id a) = Some a \<longrightarrow>
     (\<exists>cn sk. w_actors w a = Some (Connection cn sk)))"

text \<open>A delivery, seen from the actor that takes the message and from another one.\<close>

lemma deliver_eq:
  assumes "world_ok w" "w_actors w a = Some st" "handled_by (kind_of st) m" "step_env_ok e"
    and "w' = deliver ops (mud_of cfg) e a st m w"
  obtains st' es where "handle_actor ops e (w_next w) a st m = Inr (st', es)" "actor_ok (w_kinds w) a st"
    "outcome_ok (w_kinds w) (w_next w) a st' es"
    "w' = (run_effects (mud_of cfg) e w es)\<lparr>w_actors := (w_actors (run_effects (mud_of cfg) e w es))(a := Some st')\<rparr>"
proof -
  from assms(1,2) have ok: "actor_ok (w_kinds w) a st" "w_kinds w a = Some (kind_of st)"
    by (auto simp: world_ok_def actors_ok_def)
  from handle_actor_ok [OF ok assms(3) fresh_kinds [OF assms(1) order_refl] assms(4), of ops] obtain st' es where
    h: "handle_actor ops e (w_next w) a st m = Inr (st', es)" "outcome_ok (w_kinds w) (w_next w) a st' es" by blast
  then show thesis by (intro that [OF h(1) ok(1) h(2)]) (simp add: assms(5) deliver_def Let_def)
qed

lemma deliver_views:
  assumes "world_ok w" "w_actors w a = Some st" "handled_by (kind_of st) m" "step_env_ok e"
    and "w' = deliver ops (mud_of cfg) e a st m w"
  obtains st' es where "handle_actor ops e (w_next w) a st m = Inr (st', es)" "actor_ok (w_kinds w) a st"
    "outcome_ok (w_kinds w) (w_next w) a st' es" "w_actors w' a = Some st'" "prefix (w_mail w a) (w_mail w' a)"
    "w_kinds w \<subseteq>\<^sub>m w_kinds w'" "w_next w \<le> w_next w'"
    "\<And>b. b < w_next w \<Longrightarrow> b \<noteq> a \<Longrightarrow> w_actors w' b = w_actors w b \<and> prefix (w_mail w b) (w_mail w' b)"
    "\<And>b x. x \<in> set (w_mail w' b) \<Longrightarrow> x \<in> set (w_mail w b) \<or> carries b x \<in> set es"
proof -
  let ?r = "\<lambda>es. run_effects (mud_of cfg) e w es"
  obtain st' es where h: "handle_actor ops e (w_next w) a st m = Inr (st', es)" "outcome_ok (w_kinds w) (w_next w) a st' es"
    and ok: "actor_ok (w_kinds w) a st" and w': "w' = (?r es)\<lparr>w_actors := (w_actors (?r es))(a := Some st')\<rparr>"
    by (rule deliver_eq [OF assms])
  have less: "a < w_next w" using actors_below [OF assms(1,2)] .
  note frame = run_outcome_frame [OF assms(1) h(2) _ refl, of _ cfg e]
  show thesis
  proof (rule that [OF h(1) ok h(2)])
    show "prefix (w_mail w a) (w_mail w' a)" using frame(2) [OF less] by (simp add: w')
    show "w_next w \<le> w_next w'" using frame(3) [OF less] by (simp add: w')
    show "w_kinds w \<subseteq>\<^sub>m w_kinds w'" using run_outcome [OF assms(1) h(2), of cfg e] by (simp add: w')
    show "w_actors w' b = w_actors w b \<and> prefix (w_mail w b) (w_mail w' b)" if "b < w_next w" "b \<noteq> a" for b
      using frame(1,2) [OF that(1)] that(2) by (simp add: w')
    show "x \<in> set (w_mail w b) \<or> carries b x \<in> set es" if "x \<in> set (w_mail w' b)" for b x
      using run_outcome_arrives [OF h(2), of x cfg e b] that by (simp add: w')
  qed (simp_all add: w')
qed

lemma deliver_exits_closed:
  assumes w: "world_ok w" "exits_closed w" "w_actors w a = Some st" "handled_by (kind_of st) m" "step_env_ok e"
    and d: "w' = deliver ops (mud_of cfg) e a st m w"
  shows "exits_closed w'"
proof -
  obtain st' es where h: "handle_actor ops e (w_next w) a st m = Inr (st', es)" "actor_ok (w_kinds w) a st"
    and a': "w_actors w' a = Some st'" and le: "w_kinds w \<subseteq>\<^sub>m w_kinds w'"
    and old: "\<And>b. b < w_next w \<Longrightarrow> b \<noteq> a \<Longrightarrow> w_actors w' b = w_actors w b"
    and mail: "\<And>b x. x \<in> set (w_mail w' b) \<Longrightarrow> x \<in> set (w_mail w b) \<or> carries b x \<in> set es"
    using deliver_views [OF w(1,3-5) d] by metis
  have new: "ExitMsg \<in> set (w_mail w' b) \<Longrightarrow> ExitMsg \<in> set (w_mail w b) \<or> SendExit (Some b) \<in> set es" for b
    using mail [of ExitMsg b] by simp
  note closed = handle_actor_closed [OF h]
  have kinds: "w_kinds w b = Some (kind_of sb)" if "w_actors w b = Some sb" for b sb
    using w(1) that by (auto simp: world_ok_def actors_ok_def)
  show ?thesis
    unfolding exits_closed_def
  proof (intro allI impI conjI)
    fix b assume b: "ExitMsg \<in> set (w_mail w' b)"
    have exit: "b = a \<and> (m = GoodbyeConnection \<or> kind_of st \<noteq> KConnection) \<or>
        w_kinds w b \<in> {Some KCommand, Some KLogin, Some KDefault}" if "ExitMsg \<notin> set (w_mail w b)"
      using new [OF b] that handle_actor_exits [OF h] by blast
    have K: "w_kinds w b \<noteq> None"
      using exit w(2) kinds [OF w(3)] by (cases "ExitMsg \<in> set (w_mail w b)") (auto simp: exits_closed_def)
    then show "w_kinds w' b \<noteq> None" using le map_le_Some by fastforce
    fix cn' sk' assume c: "w_actors w' b = Some (Connection cn' sk')"
    show "sk_closed sk'"
    proof (cases "b = a")
      case True
      with c a' closed obtain cn sk where st: "st = Connection cn sk"
        "if m = GoodbyeConnection then sk_closed sk' else sk_closed sk' = sk_closed sk" by (cases st) (auto split: if_splits)
      with exit kinds [OF w(3)] w(2,3) True show ?thesis
        by (cases "ExitMsg \<in> set (w_mail w b)") (auto simp: exits_closed_def split: if_splits)
    next
      case False
      have "b < w_next w" using K w(1) by (auto simp: world_ok_def)
      with old False c have "w_actors w b = Some (Connection cn' sk')" by simp
      with exit kinds w(2) False show ?thesis
        by (cases "ExitMsg \<in> set (w_mail w b)") (auto simp: exits_closed_def)
    qed
  qed
qed

lemma exit_effects_ok: "list_all (effect_ok K) (exit_effects st)" "\<not> list_ex names_actor (exit_effects st)"
  by (cases st; simp add: exit_effects_def connection_exit_def command_exit_def)+

lemma exit_effects_to:
  "actor_ok K a st \<Longrightarrow> SendExit (Some b) \<in> set (exit_effects st) \<Longrightarrow> K b \<in> {Some KCommand, Some KLogin, Some KDefault}"
  by (cases st) (auto simp: exit_effects_def connection_exit_def command_exit_def refers_def split: if_splits option.splits)

text \<open>An actor ends: it is gone, the others stay and may get messages.\<close>

lemma end_actor_views:
  fixes w :: "'s world"
  defines "w0 \<equiv> \<lambda>a. w\<lparr>w_actors := (w_actors w)(a := None), w_mail := (w_mail w)(a := [])\<rparr>"
  shows "w_actors (end_actor mud e a st w) = (w_actors w)(a := None)" "w_kinds (end_actor mud e a st w) = w_kinds w"
    "w_registry (end_actor mud e a st w) = w_registry w" "w_next (end_actor mud e a st w) = w_next w"
    "b \<noteq> a \<Longrightarrow> prefix (w_mail w b) (w_mail (end_actor mud e a st w) b)"
    "x \<in> set (w_mail (end_actor mud e a st w) b) \<Longrightarrow> x \<in> set (w_mail w b) \<and> b \<noteq> a \<or> carries b x \<in> set (exit_effects st)"
proof -
  let ?sp = "spawn_actor mud (ev_answers e)"
  note ok = exit_effects_ok(1) [of _ st]
  have eq: "end_actor mud e a st w = foldl (run_effect ?sp) (w0 a) (exit_effects st)"
    by (simp add: end_actor_def run_effects_def w0_def)
  show "w_actors (end_actor mud e a st w) = (w_actors w)(a := None)"
    unfolding eq foldl_effects_actors [OF ok] by (simp add: w0_def)
  show "w_registry (end_actor mud e a st w) = w_registry w"
    using foldl_effects_quiet [OF ok exit_effects_ok(2), of ?sp "w0 a"] unfolding eq by (simp add: w0_def)
  show "w_next (end_actor mud e a st w) = w_next w" unfolding eq foldl_effects_next [OF ok] by (simp add: w0_def)
  show "b \<noteq> a \<Longrightarrow> prefix (w_mail w b) (w_mail (end_actor mud e a st w) b)"
    using foldl_effects_prefix [OF ok, of "w0 a" b ?sp] unfolding eq by (simp add: w0_def)
  show "x \<in> set (w_mail (end_actor mud e a st w) b) \<Longrightarrow> x \<in> set (w_mail w b) \<and> b \<noteq> a \<or> carries b x \<in> set (exit_effects st)"
    using foldl_effects_arrives [OF ok, of x ?sp "w0 a" b] unfolding eq by (auto simp: w0_def split: if_splits)
  have "w_kinds (foldl (run_effect sp) v es) = w_kinds v" if "list_all (effect_ok K) es" for sp es K and v :: "'s world"
    using that
  proof (induction es arbitrary: v)
    case (Cons x es)
    then have "w_kinds (run_effect sp v x) = w_kinds v"
      by (cases x) (auto simp: effect_ok_def run_effect_def split: option.split)
    with Cons show ?case by simp
  qed simp
  from this [OF ok] show "w_kinds (end_actor mud e a st w) = w_kinds w" unfolding eq by (simp add: w0_def)
qed

lemma quit_views:
  fixes w :: "'s world"
  assumes "world_ok w" and w'_def: "w' = run_effects (mud_of cfg) e w (quit_connection_actors (w_registry w))"
  shows "w_actors w' = w_actors w" "w_registry w' = w_registry w" "w_kinds w' = w_kinds w" "w_next w' = w_next w"
    "prefix (w_mail w b) (w_mail w' b)" "ExitMsg \<in> set (w_mail w' b) \<Longrightarrow> ExitMsg \<in> set (w_mail w b)"
proof -
  let ?es = "quit_connection_actors (w_registry w)" and ?sp = "spawn_actor (mud_of cfg) (ev_answers e)"
  have ok: "list_all (effect_ok (w_kinds w)) ?es" "\<not> list_ex names_actor ?es"
    using assms(1) quit_effects_ok by (auto simp: world_ok_def)
  have no: "SendExit (Some b) \<notin> set ?es" by (auto simp: quit_connection_actors_def split: if_splits)
  show "w_actors w' = w_actors w" "w_registry w' = w_registry w"
    using foldl_effects_quiet [OF ok, of ?sp w] by (simp_all add: w'_def run_effects_def)
  show "w_kinds w' = w_kinds w" using foldl_effects_ok [OF assms(1) ok(1), of ?sp] by (simp add: w'_def run_effects_def)
  show "w_next w' = w_next w" using foldl_effects_next [OF ok(1), of ?sp w] by (simp add: w'_def run_effects_def)
  show "prefix (w_mail w b) (w_mail w' b)" using foldl_effects_prefix [OF ok(1), of w b ?sp] by (simp add: w'_def run_effects_def)
  show "ExitMsg \<in> set (w_mail w' b) \<Longrightarrow> ExitMsg \<in> set (w_mail w b)"
    using foldl_effects_arrives [OF ok(1), of ExitMsg ?sp w b] no by (simp add: w'_def run_effects_def)
qed

lemma step_exits_closed: "step ops cfg w w' \<Longrightarrow> world_ok w \<Longrightarrow> exits_closed w \<Longrightarrow> exits_closed w'"
proof (induction rule: step.induct)
  case (step_message w a st m rest e)
  let ?w = "w\<lparr>w_mail := (w_mail w)(a := rest)\<rparr>"
  have "world_ok ?w" using step_message by (intro world_ok_pop) auto
  moreover have "handled_by (kind_of st) m"
    using step_message unfolding world_ok_def actors_ok_def mails_ok_def
    by (metis list.set_intros(1) option.inject)
  moreover have "exits_closed ?w"
  proof -
    from step_message(2,5) have "ExitMsg \<in> set rest \<Longrightarrow>
        w_kinds w a \<noteq> None \<and> (\<forall>cn sk. w_actors w a = Some (Connection cn sk) \<longrightarrow> sk_closed sk)"
      unfolding exits_closed_def by (metis list.set_intros(2))
    with step_message(5) show ?thesis by (simp add: exits_closed_def)
  qed
  ultimately show ?case using step_message by (intro deliver_exits_closed [OF _ _ _ _ _ refl]) simp_all
next
  case (step_exit w a st rest e)
  then have "actor_ok (w_kinds w) a st" by (simp add: world_ok_def actors_ok_def)
  with exit_effects_to have to: "w_kinds w b \<in> {Some KCommand, Some KLogin, Some KDefault}"
    if "SendExit (Some b) \<in> set (exit_effects st)" for b using that by blast
  have kinds: "w_kinds w b = Some (kind_of sb)" if "w_actors w b = Some sb" for b sb
    using step_exit(3) that by (auto simp: world_ok_def actors_ok_def)
  show ?case
    unfolding exits_closed_def end_actor_views(1,2)
  proof (intro allI impI)
    fix b assume "ExitMsg \<in> set (w_mail (end_actor (mud_of cfg) e a st w) b)"
    from end_actor_views(6) [OF this] have "ExitMsg \<in> set (w_mail w b) \<and> b \<noteq> a \<or> SendExit (Some b) \<in> set (exit_effects st)"
      by simp
    then show "w_kinds w b \<noteq> None \<and>
        (\<forall>cn sk. ((w_actors w)(a := None)) b = Some (Connection cn sk) \<longrightarrow> sk_closed sk)"
    proof
      assume "SendExit (Some b) \<in> set (exit_effects st)"
      from to [OF this] kinds [of b] show ?thesis by (cases "w_actors w b") auto
    qed (use step_exit(4) in \<open>auto simp: exits_closed_def\<close>)
  qed
next
  case (step_quit w e)
  note views = quit_views [OF step_quit(1) refl, where cfg = cfg and e = e]
  from step_quit(2) views(6) show ?case unfolding exits_closed_def views(1,3) by blast
next
  case (step_kill_server w)
  then show ?case by (auto simp: exits_closed_def post_def split: if_splits)
qed

lemma reachable_exits_closed: "reachable ops cfg s w \<Longrightarrow> exits_closed w"
proof (induction rule: reachable.induct)
  case reachable_start
  show ?case by (auto simp: exits_closed_def start_world_def post_def split: if_splits)
next
  case (reachable_step w w')
  then show ?case using step_exits_closed reachable_ok by blast
qed

section \<open>Whoever is registered is alive\<close>

lemma run_outcome_registered:
  assumes "world_ok w" "outcome_ok (w_kinds w) (w_next w) self st' es" "\<not> list_ex names_actor es"
    and w': "w' = run_effects (mud_of cfg) e w es"
    and b: "w_next w \<le> b" "smap_get (w_registry w') (registery_id b) = Some b"
  shows "\<exists>cn sk. w_actors w' b = Some (Connection cn sk)"
proof -
  let ?K = "w_kinds w" and ?f = "w_next w" and ?sp = "spawn_actor (mud_of cfg) (ev_answers e)"
  have old: "smap_get (w_registry w) (registery_id b) \<noteq> Some b"
  proof
    assume "smap_get (w_registry w) (registery_id b) = Some b"
    then have "(registery_id b, b) \<in> set (w_registry w)" by (simp add: smap_get_def map_of_SomeD)
    with assms(1) have "?K b = Some KConnection" by (auto simp: world_ok_def registry_ok_def)
    with fresh_kinds [OF assms(1) b(1)] show False by simp
  qed
  from assms(2) consider
    "list_all (effect_ok ?K) es"
  | c es' where "es = Spawn ?f (SpawnLogin c) # es'" "list_all (effect_ok (?K(?f := Some KLogin))) es'"
  | wl n es' where "es = Spawn ?f (SpawnConnection wl n) # es'" "0 < n"
      "list_all (effect_ok (?K(?f := Some KConnection))) es'"
    unfolding outcome_ok_def by blast
  then show ?thesis
  proof cases
    case 1
    with foldl_effects_quiet [OF 1 assms(3), of ?sp w] old b(2) show ?thesis by (simp add: w' run_effects_def)
  next
    case 2
    let ?w = "birth ?f (Login (login_new RECORDER_ID c)) w"
    have "w' = foldl (run_effect ?sp) ?w es'"
      by (simp add: w' run_effects_def 2(1) run_effect_def spawn_login_any)
    with 2 assms(3) foldl_effects_quiet [OF 2(2), of ?sp ?w] old b(2) show ?thesis by simp
  next
    case 3
    from spawn_connection_any [OF 3(2)] obtain sk where
      sp: "?sp ?f (SpawnConnection wl n) w = connection_births ?f n sk w" by metis
    let ?w = "connection_births ?f n sk w"
    have "w' = foldl (run_effect ?sp) ?w es'" by (simp add: w' run_effects_def 3(1) run_effect_def sp)
    moreover have "\<not> list_ex names_actor es'" using assms(3) 3(1) by simp
    ultimately have w'': "w_registry w' = w_registry ?w" "w_actors w' = w_actors ?w"
      using foldl_effects_quiet [OF 3(3), of ?sp ?w] by simp_all
    have "w_registry ?w = smap_put (registery_id ?f) ?f (w_registry w)" by (simp add: connection_births_def)
    with b(2) old have "b = ?f" unfolding w'' by (metis registery_id_inj smap_get_put)
    then show ?thesis unfolding w'' by (simp add: connection_births_def)
  qed
qed

lemma deliver_registered_live:
  assumes w: "world_ok w" "registered_live w" "w_actors w a = Some st" "handled_by (kind_of st) m" "step_env_ok e"
    and d: "w' = deliver ops (mud_of cfg) e a st m w"
  shows "registered_live w'"
  unfolding registered_live_def
proof (intro allI impI)
  fix b assume b: "smap_get (w_registry w') (registery_id b) = Some b"
  let ?r = "\<lambda>es. run_effects (mud_of cfg) e w es"
  obtain st' es where h: "handle_actor ops e (w_next w) a st m = Inr (st', es)" "actor_ok (w_kinds w) a st"
    and out: "outcome_ok (w_kinds w) (w_next w) a st' es"
    and w': "w' = (?r es)\<lparr>w_actors := (w_actors (?r es))(a := Some st')\<rparr>"
    by (rule deliver_eq [OF w(1,3-5) d])
  have a': "w_actors w' a = Some st'" and reg: "w_registry w' = w_registry (?r es)"
    and other: "b \<noteq> a \<Longrightarrow> w_actors w' b = w_actors (?r es) b" for b by (simp_all add: w')
  have old: "b < w_next w \<Longrightarrow> b \<noteq> a \<Longrightarrow> w_actors w' b = w_actors w b" for b
    using run_outcome_frame(1) [OF w(1) out _ refl, of b cfg e] by (simp add: w')
  note closed = handle_actor_closed [OF h]
  have less: "a < w_next w" using actors_below [OF w(1,3)] .
  have live: "\<exists>cn sk. w_actors w' b = Some (Connection cn sk)"
    if "smap_get (w_registry w) (registery_id b) = Some b" "b \<noteq> a \<or> kind_of st' = KConnection"
  proof -
    from w(2) that(1) obtain cn sk where c: "w_actors w b = Some (Connection cn sk)" by (auto simp: registered_live_def)
    from actors_below [OF w(1) this] old [of b] c that(2) a' show ?thesis by (cases "b = a"; cases st') auto
  qed
  show "\<exists>cn sk. w_actors w' b = Some (Connection cn sk)"
  proof (cases "list_ex names_actor es")
    case quiet: False
    show ?thesis
    proof (cases "b < w_next w")
      case True
      with run_outcome_registry(1) [OF w(1) out quiet refl True, of cfg e] b reg
      have r: "smap_get (w_registry w) (registery_id b) = Some b" by simp
      with w(2) obtain cn sk where "w_actors w b = Some (Connection cn sk)" by (auto simp: registered_live_def)
      with closed w(3) have "b \<noteq> a \<or> kind_of st' = KConnection" by (auto split: if_splits)
      with live [OF r] show ?thesis by blast
    next
      case False
      with run_outcome_registered [OF w(1) out quiet refl, of b cfg e] b reg other [of b] less show ?thesis by auto
    qed
  next
    case True
    with closed obtain cn sk cn' sk' where c: "st' = Connection cn' sk'" "es = [RegistryErase (registery_id a), SendExit (Some a)]"
      by (cases st) (auto split: if_splits)
    have "w_registry w' = smap_erase (registery_id a) (w_registry w)"
      by (simp add: reg c run_effects_def run_effect_def)
    with b have "smap_get (w_registry w) (registery_id b) = Some b"
      by (auto simp: smap_get_erase split: if_splits)
    with live c show ?thesis by simp
  qed
qed

lemma step_registered_live:
  "step ops cfg w w' \<Longrightarrow> world_ok w \<Longrightarrow> registry_exact w \<Longrightarrow> exits_closed w \<Longrightarrow> registered_live w \<Longrightarrow> registered_live w'"
proof (induction rule: step.induct)
  case (step_message w a st m rest e)
  let ?w = "w\<lparr>w_mail := (w_mail w)(a := rest)\<rparr>"
  have "world_ok ?w" using step_message by (intro world_ok_pop) auto
  moreover have "handled_by (kind_of st) m"
    using step_message unfolding world_ok_def actors_ok_def mails_ok_def
    by (metis list.set_intros(1) option.inject)
  moreover have "registered_live ?w" using step_message(7) by (simp add: registered_live_def)
  ultimately show ?case using step_message by (intro deliver_registered_live [OF _ _ _ _ _ refl]) simp_all
next
  case (step_exit w a st rest e)
  have "smap_get (w_registry w) (registery_id a) \<noteq> Some a"
  proof
    assume r: "smap_get (w_registry w) (registery_id a) = Some a"
    with step_exit(6) obtain cn sk where c: "w_actors w a = Some (Connection cn sk)" by (auto simp: registered_live_def)
    from step_exit(2) have "ExitMsg \<in> set (w_mail w a)" by simp
    with step_exit(5) c have "sk_closed sk" unfolding exits_closed_def by blast
    with c r step_exit(4) show False by (simp add: registry_exact_def)
  qed
  with step_exit(6) show ?case
    unfolding registered_live_def end_actor_views(1,3) by (metis fun_upd_other)
next
  case (step_quit w e)
  from quit_views [OF step_quit(1) refl, where cfg = cfg and e = e] step_quit(4) show ?case by (simp add: registered_live_def)
next
  case (step_kill_server w)
  then show ?case by (simp add: registered_live_def)
qed

lemma reachable_registered_live: "reachable ops cfg s w \<Longrightarrow> registered_live w"
proof (induction rule: reachable.induct)
  case reachable_start
  show ?case by (auto simp: registered_live_def start_world_def smap_get_def)
next
  case (reachable_step w w')
  then show ?case using step_registered_live reachable_ok reachable_registry reachable_exits_closed by blast
qed

section \<open>The goodbye arrives\<close>

text \<open>The actor has ended or its socket is closed.\<close>

definition gone :: "actor_id \<Rightarrow> 's world \<Rightarrow> bool" where
  "gone a w \<longleftrightarrow> w_actors w a = None \<or> (\<exists>cn sk. w_actors w a = Some (Connection cn sk) \<and> sk_closed sk)"

text \<open>The goodbye is among the next \<open>n\<close> messages, or it has been said.\<close>

definition told :: "actor_id \<Rightarrow> nat \<Rightarrow> 's world \<Rightarrow> bool" where
  "told a n w \<longleftrightarrow> gone a w \<or> (\<exists>i < n. i < length (w_mail w a) \<and> w_mail w a ! i = Msg GoodbyeConnection)"

lemma told_mono: "told a n w \<Longrightarrow> n \<le> n' \<Longrightarrow> told a n' w"
  by (auto simp: told_def intro: less_le_trans)

lemma told_prefix: "told a n w \<Longrightarrow> w_actors w' a = w_actors w a \<Longrightarrow> prefix (w_mail w a) (w_mail w' a) \<Longrightarrow> told a n w'"
  by (auto simp: told_def gone_def prefix_def nth_append)

lemma message_views:
  assumes "world_ok w" "w_actors w a = Some st" "w_mail w a = Msg m # rest" "step_env_ok e"
    and w': "w' = deliver ops (mud_of cfg) e a st m (w\<lparr>w_mail := (w_mail w)(a := rest)\<rparr>)"
  obtains st' es where "handle_actor ops e (w_next w) a st m = Inr (st', es)" "actor_ok (w_kinds w) a st"
    "w_actors w' a = Some st'" "prefix rest (w_mail w' a)" "w_kinds w \<subseteq>\<^sub>m w_kinds w'"
    "\<And>b. b < w_next w \<Longrightarrow> b \<noteq> a \<Longrightarrow> w_actors w' b = w_actors w b \<and> prefix (w_mail w b) (w_mail w' b)"
    "\<And>b x. x \<in> set (w_mail w' b) \<Longrightarrow> x \<in> set (w_mail w b) \<or> carries b x \<in> set es"
proof -
  let ?w = "w\<lparr>w_mail := (w_mail w)(a := rest)\<rparr>"
  have w: "world_ok ?w" using assms(1,3) by (intro world_ok_pop) auto
  have m: "handled_by (kind_of st) m"
    using assms(1-3) unfolding world_ok_def actors_ok_def mails_ok_def by (metis list.set_intros(1) option.inject)
  have st: "w_actors ?w a = Some st" using assms(2) by simp
  show thesis
  proof (rule deliver_views [OF w st m assms(4) w'])
    fix st' es
    assume h: "handle_actor ops e (w_next ?w) a st m = Inr (st', es)" "actor_ok (w_kinds ?w) a st"
      "w_actors w' a = Some st'" "prefix (w_mail ?w a) (w_mail w' a)" "w_kinds ?w \<subseteq>\<^sub>m w_kinds w'"
      and other: "\<And>b. b < w_next ?w \<Longrightarrow> b \<noteq> a \<Longrightarrow> w_actors w' b = w_actors ?w b \<and> prefix (w_mail ?w b) (w_mail w' b)"
      and mail: "\<And>b x. x \<in> set (w_mail w' b) \<Longrightarrow> x \<in> set (w_mail ?w b) \<or> carries b x \<in> set es"
    show thesis
    proof (rule that [of st' es])
      fix b x assume "x \<in> set (w_mail w' b)"
      with mail [of x b] show "x \<in> set (w_mail w b) \<or> carries b x \<in> set es"
        using assms(3) by (auto split: if_splits)
    next
      fix b assume "b < w_next w" "b \<noteq> a"
      then show "w_actors w' b = w_actors w b \<and> prefix (w_mail w b) (w_mail w' b)" using other [of b] by simp
    qed (use h in simp_all)
  qed
qed

lemma step_kinds: "step ops cfg w w' \<Longrightarrow> world_ok w \<Longrightarrow> w_kinds w \<subseteq>\<^sub>m w_kinds w'"
proof (induction rule: step.induct)
  case (step_message w a st m rest e)
  show ?case by (rule message_views [OF step_message(4,1-3) refl])
next
  case (step_exit w a st rest e)
  then show ?case by (simp add: end_actor_views(2))
next
  case (step_quit w e)
  show ?case using quit_views(3) [OF step_quit refl, where cfg = cfg and e = e] by simp
qed simp

lemma told_turn:
  assumes "turn_of ops cfg a w w'" "world_ok w" "w_kinds w a = Some KConnection" "told a (Suc n) w"
  shows "told a n w'"
  using assms(1)
proof (rule turn_ofE)
  fix st m rest e
  assume w': "w' = deliver ops (mud_of cfg) e a st m (w\<lparr>w_mail := (w_mail w)(a := rest)\<rparr>)"
    and t: "w_actors w a = Some st" "w_mail w a = Msg m # rest" "step_env_ok e"
  obtain st' es where h: "handle_actor ops e (w_next w) a st m = Inr (st', es)" "actor_ok (w_kinds w) a st"
    and a': "w_actors w' a = Some st'" "prefix rest (w_mail w' a)"
    by (rule message_views [OF assms(2) t w']) (erule (3) that)
  have "kind_of st = KConnection" using assms(2,3) t(1) by (auto simp: world_ok_def actors_ok_def)
  with handle_actor_closed [OF h] obtain cn sk cn' sk' where c: "st = Connection cn sk" "st' = Connection cn' sk'"
    "if m = GoodbyeConnection then sk_closed sk' else sk_closed sk' = sk_closed sk"
    by (cases st) (auto split: if_splits)
  show "told a n w'"
  proof (cases "m = GoodbyeConnection \<or> sk_closed sk")
    case True
    with c a'(1) show ?thesis by (auto simp: told_def gone_def split: if_splits)
  next
    case False
    with assms(4) t c obtain i where i: "i < Suc n" "i < length (Msg m # rest)" "(Msg m # rest) ! i = Msg GoodbyeConnection"
      by (auto simp: told_def gone_def)
    with False obtain j where "i = Suc j" by (cases i) auto
    with i a'(2) have "j < n \<and> j < length (w_mail w' a) \<and> w_mail w' a ! j = Msg GoodbyeConnection"
      by (auto simp: prefix_def nth_append)
    then show ?thesis by (auto simp: told_def)
  qed
next
  fix st rest e
  assume "w' = end_actor (mud_of cfg) e a st w"
  then show ?thesis by (simp add: told_def gone_def end_actor_views(1))
qed

lemma told_step:
  assumes "step ops cfg w w'" "world_ok w" "w_kinds w a = Some KConnection" "told a n w"
  shows "told a n w'"
  using assms
proof (induction rule: step.induct)
  case (step_message w b st m rest e)
  show ?case
  proof (cases "b = a")
    case True
    with step_message have "turn_of ops cfg a w (deliver ops (mud_of cfg) e b st m (w\<lparr>w_mail := (w_mail w)(b := rest)\<rparr>))"
      by (auto intro: turn_message)
    from told_turn [OF this step_message(4,5) told_mono [OF step_message(6)]] show ?thesis by simp
  next
    case False
    have less: "a < w_next w" using step_message(4,5) by (auto simp: world_ok_def)
    show ?thesis
    proof (rule message_views [OF step_message(4,1-3) refl, of ops cfg])
      assume "\<And>c. c < w_next w \<Longrightarrow> c \<noteq> b \<Longrightarrow>
          w_actors (deliver ops (mud_of cfg) e b st m (w\<lparr>w_mail := (w_mail w)(b := rest)\<rparr>)) c = w_actors w c \<and>
          prefix (w_mail w c) (w_mail (deliver ops (mud_of cfg) e b st m (w\<lparr>w_mail := (w_mail w)(b := rest)\<rparr>)) c)"
      from this [OF less] False show ?thesis by (intro told_prefix [OF step_message(6)]) simp_all
    qed
  qed
next
  case (step_exit w b st rest e)
  show ?case
  proof (cases "b = a")
    case True
    then show ?thesis by (simp add: told_def gone_def end_actor_views(1))
  next
    case False
    then show ?thesis
      by (intro told_prefix [OF step_exit(5)]) (simp_all add: end_actor_views(1,5))
  qed
next
  case (step_quit w e)
  note views = quit_views [OF step_quit(1) refl, where cfg = cfg and e = e]
  show ?case by (rule told_prefix [OF step_quit(3)]) (simp_all add: views(1,5))
next
  case (step_kill_server w)
  show ?case by (rule told_prefix [OF step_kill_server(3)]) (simp_all add: post_def)
qed

lemma run_told:
  "run_with ops cfg a k w w' \<Longrightarrow> world_ok w \<Longrightarrow> w_kinds w a = Some KConnection \<Longrightarrow> told a n w \<Longrightarrow>
   told a (n - k) w' \<and> world_ok w' \<and> w_kinds w' a = Some KConnection"
proof (induction rule: run_with.induct)
  case (run_turn k w w1 w2)
  then have w1: "told a (n - k) w1" "world_ok w1" "w_kinds w1 a = Some KConnection" by simp_all
  from turn_of_step [OF run_turn(2)] have s: "step ops cfg w1 w2" .
  have "told a (n - Suc k) w2"
  proof (cases "n - k")
    case 0
    with told_step [OF s w1(2,3,1)] show ?thesis by simp
  next
    case (Suc j)
    with told_turn [OF run_turn(2) w1(2,3)] w1(1) show ?thesis by (metis Suc_eq_plus1 diff_Suc_1 diff_diff_left)
  qed
  moreover from step_kinds [OF s w1(2)] w1(3) have "w_kinds w2 a = Some KConnection" by (rule map_le_Some)
  ultimately show ?case using step_ok [OF s w1(2)] by simp
next
  case (run_other k w w1 w2)
  then have w1: "told a (n - k) w1" "world_ok w1" "w_kinds w1 a = Some KConnection" by simp_all
  moreover from step_kinds [OF run_other(2) w1(2)] w1(3) have "w_kinds w2 a = Some KConnection" by (rule map_le_Some)
  ultimately show ?case using told_step [OF run_other(2) w1(2,3,1)] step_ok [OF run_other(2) w1(2)] by simp
qed simp

lemma run_with_first: "run_with ops cfg a n w1 w2 \<Longrightarrow> turn_of ops cfg a w w1 \<Longrightarrow> run_with ops cfg a (Suc n) w w2"
proof (induction rule: run_with.induct)
  case run_start
  then show ?case using run_with.run_turn [OF run_with.run_start] by blast
qed (blast intro: run_with.intros)+

text \<open>As long as it is not gone, the actor has a turn to take.\<close>

lemma told_run:
  "told a n w \<Longrightarrow> world_ok w \<Longrightarrow> w_kinds w a = Some KConnection \<Longrightarrow> \<exists>k \<le> n. \<exists>w'. run_with ops cfg a k w w' \<and> gone a w'"
proof (induction n arbitrary: w)
  case 0
  then have "gone a w" by (simp add: told_def)
  then show ?case using run_start by blast
next
  case (Suc n)
  show ?case
  proof (cases "gone a w")
    case True
    then show ?thesis using run_start by blast
  next
    case False
    with Suc.prems(1) have "w_actors w a \<noteq> None" "w_mail w a \<noteq> []" by (auto simp: told_def gone_def)
    then obtain st where "w_actors w a = Some st" "w_mail w a \<noteq> []" by blast
    from turn_enabled [OF this] obtain w1 where t: "turn_of ops cfg a w w1" by blast
    note s = turn_of_step [OF t]
    have "w_kinds w1 a = Some KConnection" using step_kinds [OF s Suc.prems(2)] Suc.prems(3) by (rule map_le_Some)
    from Suc.IH [OF told_turn [OF t Suc.prems(2,3,1)] step_ok [OF s Suc.prems(2)] this] obtain k w' where
      "k \<le> n" "run_with ops cfg a k w1 w'" "gone a w'" by blast
    with run_with_first [OF _ t] show ?thesis by (metis Suc_le_mono)
  qed
qed

lemma goodbyes_mail:
  "\<forall>x \<in> set es. \<exists>b. x = Send b GoodbyeConnection \<Longrightarrow>
   \<exists>k. w_mail (foldl (run_effect sp) w es) a = w_mail w a @ replicate k (Msg GoodbyeConnection)"
proof (induction es arbitrary: w)
  case Nil
  then show ?case by (auto intro: exI [of _ 0])
next
  case (Cons x es)
  then obtain b where x: "x = Send b GoodbyeConnection" by auto
  from Cons obtain k where "w_mail (foldl (run_effect sp) (run_effect sp w x) es) a =
      w_mail (run_effect sp w x) a @ replicate k (Msg GoodbyeConnection)" by fastforce
  moreover have "w_mail (run_effect sp w x) a \<in> {w_mail w a, w_mail w a @ [Msg GoodbyeConnection]}"
    by (simp add: x run_effect_def post_def split: option.split)
  ultimately show ?case by (auto intro: exI [of _ k] exI [of _ "Suc k"])
qed

lemma quit_tells:
  assumes "registry_exact w" "w_actors w a = Some (Connection cn sk)" "\<not> sk_closed sk"
  shows "told a (Suc (length (w_mail w a))) (run_effects (mud_of cfg) e w (quit_connection_actors (w_registry w)))"
proof -
  let ?es = "quit_connection_actors (w_registry w)" and ?sp = "spawn_actor (mud_of cfg) (ev_answers e)"
  have "smap_get (w_registry w) (registery_id a) = Some a" using assms by (simp add: registry_exact_def)
  with run_sends_mail [OF quit_sends assms(2)] quit_reaches
  have g: "Msg GoodbyeConnection \<in> set (w_mail (foldl (run_effect ?sp) w ?es) a)" by blast
  have "\<forall>x \<in> set ?es. \<exists>b. x = Send b GoodbyeConnection" by (auto simp: quit_connection_actors_def split: if_splits)
  from goodbyes_mail [OF this, of ?sp w a] obtain k where
    k: "w_mail (foldl (run_effect ?sp) w ?es) a = w_mail w a @ replicate k (Msg GoodbyeConnection)" by blast
  have "\<exists>i < Suc (length (w_mail w a)). i < length (w_mail w a @ replicate k (Msg GoodbyeConnection)) \<and>
      (w_mail w a @ replicate k (Msg GoodbyeConnection)) ! i = Msg GoodbyeConnection"
  proof (cases k)
    case 0
    with g k show ?thesis by (metis append_Nil2 in_set_conv_nth less_SucI replicate_0)
  next
    case (Suc j)
    then show ?thesis by (intro exI [of _ "length (w_mail w a)"]) simp
  qed
  then show ?thesis by (simp add: told_def k run_effects_def)
qed

lemma gone_unregistered:
  assumes "reachable ops cfg s w" "gone a w"
  shows "smap_get (w_registry w) (registery_id a) \<noteq> Some a"
  using reachable_registered_live [OF assms(1)] reachable_registry [OF assms(1)] assms(2)
  by (auto simp: gone_def registered_live_def registry_exact_def)

text \<open>
  C3: The shutdown of the main thread ends every open connection, whatever the actors do in between. Once
  an actor that was connected has taken more turns than messages were waiting for it when the goodbyes were
  sent, it has closed its socket or has ended, and the registry does not name it any more; and as many turns
  are always left for it to take.
\<close>

theorem shutdown_closes_connections:
  assumes w: "reachable ops cfg s w" "w_actors w a = Some (Connection cn sk)" "\<not> sk_closed sk"
    and w1: "w1 = run_effects (mud_of cfg) e w (quit_connection_actors (w_registry w))"
  shows "(\<forall>n w'. run_with ops cfg a n w1 w' \<and> length (w_mail w a) < n \<longrightarrow>
      (w_actors w' a = None \<or> (\<exists>cn sk. w_actors w' a = Some (Connection cn sk) \<and> sk_closed sk)) \<and>
      smap_get (w_registry w') (registery_id a) \<noteq> Some a) \<and>
    (\<exists>n w'. n \<le> Suc (length (w_mail w a)) \<and> run_with ops cfg a n w1 w' \<and>
      (w_actors w' a = None \<or> (\<exists>cn sk. w_actors w' a = Some (Connection cn sk) \<and> sk_closed sk)))"
proof -
  have r: "reachable ops cfg s w1" unfolding w1 using w(1) by (rule reachable_step) (rule step_quit)
  have "w_kinds w a = Some KConnection" using reachable_ok [OF w(1)] w(2) by (auto simp: world_ok_def actors_ok_def)
  with quit_views(3) [OF reachable_ok [OF w(1)] w1] have k: "w_kinds w1 a = Some KConnection" by simp
  have t: "told a (Suc (length (w_mail w a))) w1"
    unfolding w1 using reachable_registry [OF w(1)] w(2,3) by (rule quit_tells)
  have ended: "gone a w' \<and> smap_get (w_registry w') (registery_id a) \<noteq> Some a"
    if run: "run_with ops cfg a n w1 w'" "length (w_mail w a) < n" for n w'
  proof -
    from run_told [OF run(1) reachable_ok [OF r] k t] run(2) have "gone a w'" by (simp add: told_def)
    with gone_unregistered [OF run_with_reachable [OF run(1) r] this] show ?thesis by simp
  qed
  from told_run [OF t reachable_ok [OF r] k, of ops cfg] ended show ?thesis unfolding gone_def by blast
qed

theorem shutdown_closes_connections_witness:
  "\<exists>w n w'. reachable mock_ops example_config None w \<and> w_actors w 4 \<noteq> None \<and>
     smap_get (w_registry w) ''Connection(4)'' = Some 4 \<and>
     run_with mock_ops example_config 4 n
       (run_effects (mud_of example_config) example_env w (quit_connection_actors (w_registry w))) w' \<and>
     (w_actors w' 4 = None \<or> (\<exists>cn sk. w_actors w' 4 = Some (Connection cn sk) \<and> sk_closed sk))"
proof -
  obtain w sk where w: "reachable mock_ops example_config None w"
    "w_actors w 4 = Some (Connection (fresh_connection 5 4 7) sk)" "\<not> sk_closed sk"
    using example_accepted by blast
  have "registery_id 4 = ''Connection(4)''" by code_simp
  with reachable_registry [OF w(1)] w(2,3) have "smap_get (w_registry w) ''Connection(4)'' = Some 4"
    unfolding registry_exact_def by metis
  with shutdown_closes_connections [OF w refl, of example_env] w(1,2) show ?thesis by blast
qed

text \<open>
  C4: No connection is lost: an actor whose connection is open is still there, as a connection, after any step
  of the network and of the main thread; it ends only after it has said goodbye and closed the socket.
\<close>

theorem no_open_connection_ends:
  assumes "reachable ops cfg s w" "w_actors w a = Some (Connection cn sk)" "\<not> sk_closed sk" "step ops cfg w w'"
  shows "\<exists>cn' sk'. w_actors w' a = Some (Connection cn' sk')"
  using assms(4)
proof (cases rule: step.cases)
  case (step_message b st m rest e)
  note w = reachable_ok [OF assms(1)]
  show ?thesis
  proof (rule message_views [OF w step_message(2-4,1)])
    fix st' es
    assume h: "handle_actor ops e (w_next w) b st m = Inr (st', es)" "actor_ok (w_kinds w) b st" "w_actors w' b = Some st'"
      and other: "\<And>c. c < w_next w \<Longrightarrow> c \<noteq> b \<Longrightarrow> w_actors w' c = w_actors w c \<and> prefix (w_mail w c) (w_mail w' c)"
    show ?thesis
    proof (cases "a = b")
      case True
      with handle_actor_closed [OF h(1,2)] h(3) assms(2) step_message(2) show ?thesis by (auto split: if_splits)
    next
      case False
      with other [OF actors_below [OF w assms(2)]] assms(2) show ?thesis by simp
    qed
  qed
next
  case (step_exit b st rest e)
  have "b \<noteq> a"
  proof
    assume "b = a"
    with step_exit(3) have "ExitMsg \<in> set (w_mail w a)" by simp
    with reachable_exits_closed [OF assms(1)] assms(2,3) show False unfolding exits_closed_def by blast
  qed
  with assms(2) step_exit(1) show ?thesis by (simp add: end_actor_views(1))
next
  case (step_quit e)
  with quit_views(1) [OF reachable_ok [OF assms(1)] step_quit] assms(2) show ?thesis by simp
next
  case step_kill_server
  with assms(2) show ?thesis by simp
qed

theorem no_open_connection_ends_witness:
  "\<exists>w w' cn sk. reachable mock_ops example_config None w \<and> step mock_ops example_config w w' \<and>
     smap_get (w_registry w) (registery_id 4) = Some 4 \<and> w_actors w' 4 = Some (Connection cn sk)"
proof -
  obtain w sk where w: "reachable mock_ops example_config None w"
    "w_actors w 4 = Some (Connection (fresh_connection 5 4 7) sk)" "\<not> sk_closed sk" "Msg PerformWelcome \<in> set (w_mail w 4)"
    using example_accepted by blast
  from w(4) have "w_mail w 4 \<noteq> []" by auto
  from turn_enabled [OF w(2) this] obtain w' where "step mock_ops example_config w w'" using turn_of_step by blast
  with no_open_connection_ends [OF w(1-3) this] reachable_registry [OF w(1)] w(1-3) show ?thesis
    unfolding registry_exact_def by blast
qed

section \<open>A connection that is told nothing\<close>

text \<open>
  A step of the actors, without the main thread, in which the socket of \<open>a\<close> has nothing to read: its client
  is connected and silent.
\<close>

inductive idle_step :: "'s storage_ops \<Rightarrow> mud_config \<Rightarrow> actor_id \<Rightarrow> 's world \<Rightarrow> 's world \<Rightarrow> bool"
  for ops cfg a where
  idle_turn:
    "w_actors w a = Some st \<Longrightarrow> w_mail w a = Msg m # rest \<Longrightarrow> step_env_ok e \<Longrightarrow> \<not> has_data (ev_input e) \<Longrightarrow>
     idle_step ops cfg a w (deliver ops (mud_of cfg) e a st m (w\<lparr>w_mail := (w_mail w)(a := rest)\<rparr>))"
| idle_exit:
    "w_actors w a = Some st \<Longrightarrow> w_mail w a = ExitMsg # rest \<Longrightarrow>
     idle_step ops cfg a w (end_actor (mud_of cfg) e a st w)"
| idle_other: "b \<noteq> a \<Longrightarrow> turn_of ops cfg b w w' \<Longrightarrow> idle_step ops cfg a w w'"

lemma idle_step_step: "idle_step ops cfg a w w' \<Longrightarrow> step ops cfg w w'"
  by (erule idle_step.cases) (auto intro: step_message step_exit turn_of_step)

definition untold :: "actor_id \<Rightarrow> 's world \<Rightarrow> bool" where
  "untold a w \<longleftrightarrow> (\<exists>cn sk. w_actors w a = Some (Connection cn sk) \<and> \<not> sk_closed sk) \<and>
     Msg GoodbyeConnection \<notin> set (w_mail w a) \<and> ExitMsg \<notin> set (w_mail w a)"

lemma untold_message:
  assumes w: "world_ok w" "w_actors w b = Some st" "w_mail w b = Msg m # rest" "step_env_ok e"
    and a: "untold a w" "b = a \<longrightarrow> \<not> has_data (ev_input e)"
    and w': "w' = deliver ops (mud_of cfg) e b st m (w\<lparr>w_mail := (w_mail w)(b := rest)\<rparr>)"
  shows "untold a w'"
proof (rule message_views [OF w w'])
  fix st' es
  assume h: "handle_actor ops e (w_next w) b st m = Inr (st', es)" "actor_ok (w_kinds w) b st" "w_actors w' b = Some st'"
    and other: "\<And>c. c < w_next w \<Longrightarrow> c \<noteq> b \<Longrightarrow> w_actors w' c = w_actors w c \<and> prefix (w_mail w c) (w_mail w' c)"
    and mail: "\<And>c x. x \<in> set (w_mail w' c) \<Longrightarrow> x \<in> set (w_mail w c) \<or> carries c x \<in> set es"
  from a(1) obtain cn sk where c: "w_actors w a = Some (Connection cn sk)" "\<not> sk_closed sk"
    and no: "Msg GoodbyeConnection \<notin> set (w_mail w a)" "ExitMsg \<notin> set (w_mail w a)" by (auto simp: untold_def)
  have K: "w_kinds w a = Some KConnection" using w(1) c by (auto simp: world_ok_def actors_ok_def)
  have m: "b = a \<Longrightarrow> m \<noteq> GoodbyeConnection \<and> st = Connection cn sk" using no(1) w(2,3) c by auto
  have "Msg GoodbyeConnection \<notin> set (w_mail w' a)"
    using mail [of "Msg GoodbyeConnection" a] no(1) handle_actor_goodbyes [OF h(1,2), of a] a(2) by auto
  moreover have "ExitMsg \<notin> set (w_mail w' a)"
    using mail [of ExitMsg a] no(2) handle_actor_exits [OF h(1,2), of a] m K by auto
  moreover have "\<exists>cn sk. w_actors w' a = Some (Connection cn sk) \<and> \<not> sk_closed sk"
  proof (cases "b = a")
    case True
    with handle_actor_closed [OF h(1,2)] h(3) m c(2) show ?thesis by auto
  next
    case False
    with other [OF actors_below [OF w(1) c(1)]] c show ?thesis by auto
  qed
  ultimately show ?thesis by (simp add: untold_def)
qed

lemma untold_exit:
  assumes "untold a w" "world_ok w" "w_actors w b = Some st" "w_mail w b = ExitMsg # rest"
  shows "untold a (end_actor (mud_of cfg) e b st w)"
proof -
  have "b \<noteq> a" using assms(1,4) by (auto simp: untold_def)
  have ok: "actor_ok (w_kinds w) b st" using assms(2,3) by (simp add: world_ok_def actors_ok_def)
  have K: "w_kinds w a = Some KConnection" using assms(1,2) by (auto simp: untold_def world_ok_def actors_ok_def)
  have "Send a GoodbyeConnection \<notin> set (exit_effects st)"
    by (cases st) (simp_all add: exit_effects_def connection_exit_def command_exit_def)
  with end_actor_views(6) [of "Msg GoodbyeConnection" "mud_of cfg" e b st w a]
    end_actor_views(6) [of ExitMsg "mud_of cfg" e b st w a] exit_effects_to [OF ok, of a] K assms(1) \<open>b \<noteq> a\<close>
  show ?thesis by (auto simp: untold_def end_actor_views(1))
qed

lemma idle_step_untold: "idle_step ops cfg a w w' \<Longrightarrow> world_ok w \<Longrightarrow> untold a w \<Longrightarrow> untold a w'"
proof (induction rule: idle_step.induct)
  case (idle_turn w st m rest e)
  then show ?case using untold_message [OF idle_turn(5,1-3,6) _ refl, of ops cfg] by simp
next
  case (idle_exit w st rest e)
  then show ?case by (intro untold_exit)
next
  case (idle_other b w w')
  from idle_other(2) show ?case
  proof (rule turn_ofE)
    fix st m rest e
    assume "w' = deliver ops (mud_of cfg) e b st m (w\<lparr>w_mail := (w_mail w)(b := rest)\<rparr>)"
      "w_actors w b = Some st" "w_mail w b = Msg m # rest" "step_env_ok e"
    with untold_message [OF idle_other(3) _ _ _ idle_other(4), of b st m rest e w' ops cfg] idle_other(1) show ?thesis by simp
  next
    fix st rest e
    assume "w' = end_actor (mud_of cfg) e b st w" "w_actors w b = Some st" "w_mail w b = ExitMsg # rest"
    with untold_exit [OF idle_other(4,3)] show ?thesis by simp
  qed
qed

lemma idle_run_untold: "(idle_step ops cfg a)\<^sup>*\<^sup>* w w' \<Longrightarrow> world_ok w \<Longrightarrow> untold a w \<Longrightarrow> untold a w' \<and> world_ok w'"
  by (induction rule: rtranclp_induct) (auto intro: idle_step_untold step_ok idle_step_step)

text \<open>
  C5: A connection that the server accepts between the goodbyes and its own end is told nothing. The main
  thread sends the goodbyes first and stops the server behind them; if the accept loop has a turn waiting
  and a client connects, that turn opens a connection which the goodbyes have missed, while the order to stop
  is still waiting. As long as the client stays connected and types nothing, its connection is there and open
  after whatever steps the actors take.
\<close>

theorem shutdown_misses_late_connection:
  assumes w: "reachable ops cfg s w" "w_actors w SERVER_ID = Some (Server sv)" "0 < sv_sockfd sv"
      "w_mail w SERVER_ID = Msg AcceptConnection # rest"
    and e: "step_env_ok e" "0 < ev_accept e"
    and w2: "w2 = post SERVER_ID (Msg GoodbyeServer)
      (run_effects (mud_of cfg) e w (quit_connection_actors (w_registry w)))"
  shows "\<exists>w3 cn sk. turn_of ops cfg SERVER_ID w2 w3 \<and>
    w_actors w3 (w_next w) = Some (Connection cn sk) \<and> \<not> sk_closed sk \<and>
    w_mail w3 (w_next w) = [Msg PerformWelcome] \<and> Msg GoodbyeServer \<in> set (w_mail w3 SERVER_ID) \<and>
    (\<forall>w4. (idle_step ops cfg (w_next w))\<^sup>*\<^sup>* w3 w4 \<longrightarrow>
      (\<exists>cn sk. w_actors w4 (w_next w) = Some (Connection cn sk) \<and> \<not> sk_closed sk))"
proof -
  let ?w1 = "run_effects (mud_of cfg) e w (quit_connection_actors (w_registry w))" and ?a = "w_next w"
  note q = quit_views [OF reachable_ok [OF w(1)] refl, where cfg = cfg and e = e]
  from q(5) [of SERVER_ID] w(4) obtain more where m1: "w_mail ?w1 SERVER_ID = Msg AcceptConnection # rest @ more"
    by (auto simp: prefix_def)
  have less: "SERVER_ID < ?a" using actors_below [OF reachable_ok [OF w(1)] w(2)] .
  have a2: "w_actors w2 SERVER_ID = Some (Server sv)" "w_next w2 = ?a" using q(1,4) w(2) by (simp_all add: w2 post_def)
  have m2: "w_mail w2 SERVER_ID = Msg AcceptConnection # (rest @ more @ [Msg GoodbyeServer])"
    using q(1) w(2) m1 by (simp add: w2 post_def)
  let ?p = "w2\<lparr>w_mail := (w_mail w2)(SERVER_ID := rest @ more @ [Msg GoodbyeServer])\<rparr>"
  let ?w3 = "deliver ops (mud_of cfg) e SERVER_ID (Server sv) AcceptConnection ?p"
  have t: "turn_of ops cfg SERVER_ID w2 ?w3" by (rule turn_message [OF a2(1) m2 e(1)])
  obtain sk where sp: "spawn_actor (mud_of cfg) (ev_answers e) ?a
      (SpawnConnection (server_welcome (ms_config (sv_mud sv))) (ev_accept e)) ?p = connection_births ?a (ev_accept e) sk ?p"
      "\<not> sk_closed sk"
    using spawn_connection_eq [OF e(2)] by blast
  have "w_actors ?w3 ?a = Some (Connection (fresh_connection (Suc ?a) ?a (ev_accept e)) sk) \<and>
      w_mail ?w3 ?a = [Msg PerformWelcome] \<and> Msg GoodbyeServer \<in> set (w_mail ?w3 SERVER_ID)"
    using a2 less sp(1) e(2) w(3)
    by (simp add: deliver_def handle_actor_def actor_defs run_effects_def run_effect_def Let_def
        post_def connection_births_def)
  moreover from this sp(2) have u: "untold ?a ?w3" by (simp add: untold_def)
  have "reachable ops cfg s ?w1" using w(1) by (rule reachable_step) (rule step_quit)
  then have "reachable ops cfg s w2" unfolding w2 by (rule reachable_step) (rule step_kill_server)
  then have "reachable ops cfg s ?w3" using turn_of_step [OF t] by (rule reachable_step)
  with idle_run_untold [OF _ reachable_ok u] have
    "(idle_step ops cfg ?a)\<^sup>*\<^sup>* ?w3 w4 \<Longrightarrow> \<exists>cn sk. w_actors w4 ?a = Some (Connection cn sk) \<and> \<not> sk_closed sk" for w4
    unfolding untold_def by blast
  ultimately show ?thesis using t sp(2) by blast
qed

theorem shutdown_misses_late_connection_witness:
  "\<exists>w w3 cn sk. reachable mock_ops example_config None w \<and>
    turn_of mock_ops example_config SERVER_ID
      (post SERVER_ID (Msg GoodbyeServer)
        (run_effects (mud_of example_config) example_env w (quit_connection_actors (w_registry w)))) w3 \<and>
    w_actors w3 4 = Some (Connection cn sk) \<and> Msg GoodbyeConnection \<notin> set (w_mail w3 4) \<and>
    (\<forall>w4. (idle_step mock_ops example_config 4)\<^sup>*\<^sup>* w3 w4 \<longrightarrow>
      (\<exists>cn sk. w_actors w4 4 = Some (Connection cn sk) \<and> \<not> sk_closed sk))"
proof -
  obtain w sv where w: "reachable mock_ops example_config None w" "w_mail w SERVER_ID = [Msg AcceptConnection]"
    "w_actors w SERVER_ID = Some (Server sv)" "sv_sockfd sv = 3" "w_next w = 4"
    using example_started by blast
  have "0 < sv_sockfd sv" using w(4) by simp
  moreover have "step_env_ok example_env" "0 < ev_accept example_env" by (simp_all add: step_env_ok_def example_env_def)
  ultimately obtain w3 cn sk where
    "turn_of mock_ops example_config SERVER_ID
      (post SERVER_ID (Msg GoodbyeServer)
        (run_effects (mud_of example_config) example_env w (quit_connection_actors (w_registry w)))) w3"
    "w_actors w3 4 = Some (Connection cn sk)" "w_mail w3 4 = [Msg PerformWelcome]"
    "\<forall>w4. (idle_step mock_ops example_config 4)\<^sup>*\<^sup>* w3 w4 \<longrightarrow>
      (\<exists>cn sk. w_actors w4 4 = Some (Connection cn sk) \<and> \<not> sk_closed sk)"
    using shutdown_misses_late_connection [OF w(1,3) _ w(2) _ _ refl, of example_env] w(5) by auto
  with w(1) show ?thesis by (intro exI [of _ w] exI [of _ w3] exI [of _ cn] exI [of _ sk]) simp
qed

end
