(* ===== verification/Text_Tools.thy ===== *)
theory Text_Tools
  imports Prelude
begin

text \<open>
  The helpers \<^verbatim>\<open>pmud/src/common/pmud_string.h\<close> (\<open>replace_all\<close>, which need not return) and
  \<^verbatim>\<open>pmud/src/common/pmud_io.h\<close> (the input of a command line tool).
\<close>

section \<open>Replacing\<close>

text \<open>\<open>s.find(t, at)\<close>: the first position from \<open>at\<close> on where \<open>t\<close> occurs; \<open>None\<close> is \<open>npos\<close>.\<close>

definition string_find :: "string \<Rightarrow> string \<Rightarrow> nat \<Rightarrow> nat option" where
  "string_find s t pos =
     List.find (\<lambda>i. i + length t \<le> length s \<and> take (length t) (drop i s) = t) [pos..<Suc (length s)]"

text \<open>\<open>s.replace(at, n, t)\<close> for a position inside the text.\<close>

definition string_replace :: "string \<Rightarrow> nat \<Rightarrow> nat \<Rightarrow> string \<Rightarrow> string" where
  "string_replace s pos n t = take pos s @ t @ drop (pos + n) s"

text \<open>The loop, whose next search starts at \<open>pos\<close>; \<open>None\<close> is a loop that does not end.\<close>

partial_function (option) replace_loop :: "string \<Rightarrow> string \<Rightarrow> string \<Rightarrow> nat \<Rightarrow> string option" where
  "replace_loop replaced from_text to_text pos =
     (if string_find replaced from_text pos = None then Some replaced
      else replace_loop
        (string_replace replaced (the (string_find replaced from_text pos)) (length from_text) to_text)
        from_text to_text (the (string_find replaced from_text pos) + length to_text))"

definition replace_all :: "string \<Rightarrow> string \<Rightarrow> string \<Rightarrow> string option" where
  "replace_all str from_text to_text =
     (let replaced = str in replace_loop replaced from_text to_text 0)"

text \<open>The reference: from left to right, each occurrence that does not overlap the one before.\<close>

function substitute :: "string \<Rightarrow> string \<Rightarrow> string \<Rightarrow> string" where
  "substitute from_text to_text s =
     (if s = [] \<or> from_text = [] then s
      else if take (length from_text) s = from_text
        then to_text @ substitute from_text to_text (drop (length from_text) s)
      else hd s # substitute from_text to_text (tl s))"
  by pat_completeness auto
termination
  by (relation "measure (\<lambda>(f, t, s). length s)") auto

declare substitute.simps [simp del]

section \<open>The input of a tool\<close>

text \<open>
  \<open>stdout_or_file\<close>: the standard input for a null or an empty name, else the file if it opens, and a null
  pointer if it does not. \<open>files\<close> gives the text of a file that opens.
\<close>

datatype input_stream = StandardInput | FileInput string

definition stdout_or_file :: "(string \<Rightarrow> string option) \<Rightarrow> string option \<Rightarrow> input_stream option" where
  "stdout_or_file files filename =
     (case filename of
        None \<Rightarrow> Some StandardInput
      | Some name \<Rightarrow>
          if name = [] then Some StandardInput
          else (case files name of None \<Rightarrow> None | Some contents \<Rightarrow> Some (FileInput contents)))"

definition stream_text :: "string \<Rightarrow> input_stream \<Rightarrow> string" where
  "stream_text cin s = (case s of StandardInput \<Rightarrow> cin | FileInput contents \<Rightarrow> contents)"

section \<open>What the search finds\<close>

lemma find_upt_Some:
  "List.find P [m..<n] = Some i \<longleftrightarrow> m \<le> i \<and> i < n \<and> P i \<and> (\<forall>j. m \<le> j \<and> j < i \<longrightarrow> \<not> P j)"
proof (induction "n - m" arbitrary: m)
  case 0
  then show ?case by auto
next
  case (Suc k)
  then have m: "[m..<n] = m # [Suc m..<n]" by (simp add: upt_conv_Cons)
  have "k = n - Suc m" using Suc.hyps(2) by simp
  from Suc.hyps(1) [OF this] show ?case
    unfolding m using Suc.hyps(2)
    by (auto simp: Suc_le_eq) (metis le_neq_implies_less)+
qed

lemma find_upt_None: "List.find P [m..<n] = None \<longleftrightarrow> (\<forall>j. m \<le> j \<and> j < n \<longrightarrow> \<not> P j)"
  by (auto simp: find_None_iff)

text \<open>An occurrence in a text behind a prefix.\<close>

definition occurs_at :: "string \<Rightarrow> string \<Rightarrow> nat \<Rightarrow> bool" where
  "occurs_at t s i \<longleftrightarrow> i + length t \<le> length s \<and> take (length t) (drop i s) = t"

lemma occurs_at_append:
  "occurs_at t (pre @ s) (length pre + i) = occurs_at t s i"
  by (simp add: occurs_at_def)

lemma occurs_at_Suc: "occurs_at t (c # s) (Suc i) = occurs_at t s i"
  by (simp add: occurs_at_def)

lemma substitute_none:
  "f \<noteq> [] \<Longrightarrow> \<forall>i. \<not> occurs_at f s i \<Longrightarrow> substitute f t s = s"
proof (induction s)
  case Nil
  then show ?case by (simp add: substitute.simps)
next
  case (Cons c s)
  have "take (length f) (c # s) \<noteq> f"
  proof
    assume a: "take (length f) (c # s) = f"
    then have "length f \<le> length (c # s)" by (metis length_take min.cobounded1)
    with a Cons.prems(2) show False by (auto simp: occurs_at_def dest: spec [where x = 0])
  qed
  moreover have "\<forall>i. \<not> occurs_at f s i" using Cons.prems(2) occurs_at_Suc by metis
  ultimately show ?case using Cons by (subst substitute.simps) simp
qed

lemma substitute_first:
  "f \<noteq> [] \<Longrightarrow> occurs_at f s i \<Longrightarrow> \<forall>j < i. \<not> occurs_at f s j \<Longrightarrow>
   substitute f t s = take i s @ t @ substitute f t (drop (i + length f) s)"
proof (induction i arbitrary: s)
  case 0
  then have "s \<noteq> []" by (auto simp: occurs_at_def)
  with 0 show ?case by (subst substitute.simps) (simp add: occurs_at_def)
next
  case (Suc i)
  then obtain c r where s: "s = c # r" by (cases s) (auto simp: occurs_at_def)
  have i: "occurs_at f r i" "\<forall>j < i. \<not> occurs_at f r j"
    using Suc.prems(2,3) unfolding s occurs_at_Suc by (auto simp: occurs_at_Suc)
  have "\<not> occurs_at f s 0" using Suc.prems(3) by blast
  then have "take (length f) s \<noteq> f"
    by (metis add_0 drop_0 length_take min.cobounded1 occurs_at_def)
  then have "substitute f t s = c # substitute f t r" using Suc.prems(1) by (subst substitute.simps) (simp add: s)
  with Suc.IH [OF Suc.prems(1) i] show ?case by (simp add: s)
qed

section \<open>What the loop leaves\<close>

text \<open>The part before the position of the search is final; the rest is still to be replaced.\<close>

lemma replace_loop_rest:
  "f \<noteq> [] \<Longrightarrow>
   replace_loop (pre @ s) f t (length pre) = Some (pre @ substitute f t s)"
proof (induction "length s" arbitrary: pre s rule: less_induct)
  case less
  have occ: "string_find (pre @ s) f (length pre) =
      List.find (occurs_at f (pre @ s)) [length pre..<Suc (length (pre @ s))]"
    by (simp add: string_find_def occurs_at_def [abs_def])
  show ?case
  proof (cases "string_find (pre @ s) f (length pre)")
    case None
    then have no: "\<not> occurs_at f (pre @ s) j" if "length pre \<le> j" "j < Suc (length (pre @ s))" for j
      using that unfolding occ find_upt_None by blast
    have "\<not> occurs_at f s i" for i
    proof (cases "i \<le> length s")
      case True
      then show ?thesis using no [of "length pre + i"] by (simp add: occurs_at_append)
    qed (simp add: occurs_at_def)
    then show ?thesis using None less.prems
      by (subst replace_loop.simps) (simp add: substitute_none)
  next
    case (Some p)
    from Some [unfolded occ find_upt_Some] have p: "length pre \<le> p" "occurs_at f (pre @ s) p"
      "\<And>j. length pre \<le> j \<Longrightarrow> j < p \<Longrightarrow> \<not> occurs_at f (pre @ s) j" by auto
    define i where "i = p - length pre"
    have pi: "p = length pre + i" using p(1) by (simp add: i_def)
    have i: "occurs_at f s i" "\<forall>j < i. \<not> occurs_at f s j"
      using p(2) p(3) [of "length pre + j" for j] by (auto simp: pi occurs_at_append)
    let ?pre = "pre @ take i s @ t" and ?s = "drop (i + length f) s"
    have len: "length ?s < length s" using i(1) less.prems by (cases f) (auto simp: occurs_at_def)
    have il: "i \<le> length s" using i(1) by (simp add: occurs_at_def)
    have repl: "string_replace (pre @ s) p (length f) t = ?pre @ ?s" "p + length t = length ?pre"
      using il by (simp_all add: string_replace_def pi add.assoc)
    have "replace_loop (pre @ s) f t (length pre) = replace_loop (?pre @ ?s) f t (length ?pre)"
      by (subst replace_loop.simps) (simp only: Some option.sel option.distinct if_False repl)
    also have "\<dots> = Some (?pre @ substitute f t ?s)" by (rule less.hyps [OF len less.prems])
    finally show ?thesis by (simp add: substitute_first [OF less.prems i])
  qed
qed

text \<open>For an empty \<open>from\<close> every search finds the position where it starts.\<close>

lemma string_find_empty: "pos \<le> length s \<Longrightarrow> string_find s [] pos = Some pos"
  by (simp add: string_find_def upt_conv_Cons del: upt_Suc)

text \<open>
  So every turn leaves a position inside the text. A property that the function has wherever it returns
  is shown by its induction rule: no run of this kind returns.
\<close>

lemma replace_loop_empty:
  assumes "replace_loop s f t pos = Some r"
  shows "f = [] \<Longrightarrow> length s < pos"
  using assms
proof (rule replace_loop.raw_induct [where P = "\<lambda>s f t pos r. f = [] \<longrightarrow> length s < pos", THEN mp, rotated])
  fix loop s f t pos r
  assume IH: "\<And>s f t pos r. loop s f t pos = Some r \<Longrightarrow> f = [] \<longrightarrow> length s < pos"
    and run: "(if string_find s f pos = None then Some s
      else loop (string_replace s (the (string_find s f pos)) (length f) t) f t
        (the (string_find s f pos) + length t)) = Some r"
  show "f = [] \<longrightarrow> length s < pos"
  proof (intro impI, rule ccontr)
    assume f: "f = []" and "\<not> length s < pos"
    then have pos: "pos \<le> length s" "string_find s f pos = Some pos" by (simp_all add: string_find_empty)
    with run have "loop (string_replace s pos 0 t) f t (pos + length t) = Some r" by (simp add: f)
    from IH [OF this] f pos(1) show False by (simp add: string_replace_def)
  qed
qed

section \<open>Properties\<close>

text \<open>
  C35: \<open>replace_all\<close> replaces, from left to right, every occurrence that does not overlap the one before,
  and never looks again at what it has put in, so that it returns even if the new text contains the old
  one. For an empty text to replace it never returns.
\<close>

theorem replace_all_substitutes:
  "replace_all str from_text to_text = (if from_text = [] then None else Some (substitute from_text to_text str))"
proof (cases "from_text = []")
  case True
  then show ?thesis
    using replace_loop_empty [of str from_text to_text 0]
    by (cases "replace_loop str from_text to_text 0") (auto simp: replace_all_def)
next
  case False
  with replace_loop_rest [OF False, of "[]" str to_text] show ?thesis by (simp add: replace_all_def)
qed

theorem replace_all_example:
  "replace_all ''a aa b'' ''a'' ''aa'' = Some ''aa aaaa b''"
  unfolding replace_all_substitutes by code_simp

end
