(* ===== verification/Redis_Tools.thy ===== *)
theory Redis_Tools
  imports Redis_Storage Yaml_Storage Text_Tools
begin

text \<open>
  The command line tools \<^verbatim>\<open>util/redis-keydump.cpp\<close>, \<^verbatim>\<open>yaml-redis-loader.cpp\<close> and \<^verbatim>\<open>yaml-print.cpp\<close>.
  The options are those that \<open>getopt\<close> reports, each with its argument; the answer of \<open>TYPE\<close> is what the
  server documents. A tool is its exit code and what it prints; the log library is left out.
\<close>

section \<open>Results\<close>

definition EXIT_SUCCESS :: int where "EXIT_SUCCESS = 0"
definition EXIT_FAILURE :: int where "EXIT_FAILURE = 1"

definition newline :: string where "newline = [CHR 0x0A]"

text \<open>Exit code, standard output and error output.\<close>

type_synonym tool_result = "int \<times> string \<times> string"

section \<open>Printing a key\<close>

definition keydump_usage :: string where
  "keydump_usage = ''Usage: redis-storage [-k key]'' @ newline @ newline @ ''NOTE:'' @ newline @
     ''    REDIS_HOST and REDIS_PORT should be set in environment.'' @ newline @ newline"

text \<open>The option loop: \<open>Inl\<close> is an early return after the usage message.\<close>

fun keydump_options :: "(char \<times> string) list \<Rightarrow> string \<Rightarrow> int + string" where
  "keydump_options [] key = Inr key"
| "keydump_options ((c, optarg) # opts) key =
     (if c = CHR ''k'' then keydump_options opts optarg
      else if c = CHR ''h'' then Inl EXIT_SUCCESS
      else Inl EXIT_FAILURE)"

definition dump_lines :: "string list \<Rightarrow> string" where
  "dump_lines vals = concat (map (\<lambda>val. val @ newline) vals)"

definition dump_failed :: "string \<Rightarrow> string \<Rightarrow> tool_result" where
  "dump_failed what key = (EXIT_FAILURE, what @ key @ newline, [])"

definition dump_key :: "'d redis_api \<Rightarrow> 'd \<Rightarrow> string \<Rightarrow> string \<Rightarrow> fault + tool_result" where
  "dump_key api d key key_type =
     (if key_type = ''string'' then
        bindE (redis_value_get api d key) (\<lambda>result.
          case result of
            None \<Rightarrow> Inr (dump_failed ''Error, could not get key '' key)
          | Some v \<Rightarrow> Inr (EXIT_SUCCESS, v @ newline, []))
      else if key_type = ''list'' then
        bindE (redis_list_get api d key) (\<lambda>result.
          case result of
            None \<Rightarrow> Inr (dump_failed ''Error, could not get key '' key)
          | Some vs \<Rightarrow> Inr (EXIT_SUCCESS, dump_lines vs, []))
      else if key_type = ''hash'' then
        bindE (redis_map_get api d key) (\<lambda>result.
          case result of
            None \<Rightarrow> Inr (dump_failed ''Error, could not get hash key '' key)
          | Some m \<Rightarrow> Inr (EXIT_SUCCESS, dump_lines (map (\<lambda>(k, v). k @ ''='' @ v) m), []))
      else if key_type = ''set'' then
        bindE (redis_set_get api d key) (\<lambda>result.
          case result of
            None \<Rightarrow> Inr (dump_failed ''Error, could not get key '' key)
          | Some vs \<Rightarrow> Inr (EXIT_SUCCESS, dump_lines vs, []))
      else Inr (EXIT_SUCCESS, [], ''Error, unsupported type: '' @ key_type @ newline))"

definition keydump_main :: "'d redis_api \<Rightarrow> 'd redis_env \<Rightarrow> (char \<times> string) list \<Rightarrow> fault + tool_result" where
  "keydump_main api env opts =
     (case keydump_options opts [] of
        Inl code \<Rightarrow> Inr (code, keydump_usage, [])
      | Inr key \<Rightarrow>
          if key = [] then Inr (EXIT_FAILURE, [], [])
          else bindE (initialize_redis_storage api env) (\<lambda>storage.
            case storage of
              None \<Rightarrow> Inr (EXIT_FAILURE, [], [])
            | Some redis \<Rightarrow>
                (case ro_context redis of
                   None \<Rightarrow> Inl NullPointer
                 | Some d \<Rightarrow>
                     (let (reply, d) = redis_raw api d (''TYPE '' @ key) in
                      case reply of
                        None \<Rightarrow> Inr (EXIT_FAILURE, [], ''Could not retrieve key '' @ key @ '', aborting!'' @ newline)
                      | Some reply \<Rightarrow> bindE (reply_str reply) (\<lambda>key_type. dump_key api d key key_type)))))"

section \<open>Loading a document\<close>

definition loader_usage :: string where
  "loader_usage = ''Usage: yaml-redis-loader [-f filename] [-p prefix]'' @ newline @ newline @ ''NOTE:'' @ newline @
     ''    REDIS_HOST and REDIS_PORT should be set in environment.'' @ newline @ newline"

fun loader_options :: "(char \<times> string) list \<Rightarrow> string \<times> string \<Rightarrow> int + string \<times> string" where
  "loader_options [] st = Inr st"
| "loader_options ((c, optarg) # opts) (filename, prefix) =
     (if c = CHR ''f'' then loader_options opts (optarg, prefix)
      else if c = CHR ''p'' then loader_options opts (filename, optarg)
      else if c = CHR ''h'' then Inl EXIT_SUCCESS
      else Inl EXIT_FAILURE)"

text \<open>What a YAML library, the files and the standard input give to a tool.\<close>

record document_source =
  ds_files :: "string \<Rightarrow> string option"
  ds_cin :: string
  ds_load :: "string \<Rightarrow> fault + yaml"
  ds_conv :: "yaml \<Rightarrow> fault + string"

text \<open>The result and the connection that is left, if one was made.\<close>

definition loader_main ::
  "'d redis_api \<Rightarrow> 'd redis_env \<Rightarrow> document_source \<Rightarrow> (char \<times> string) list \<Rightarrow> fault + tool_result \<times> 'd option" where
  "loader_main api env src opts =
     (case loader_options opts ([], ''pmud'') of
        Inl code \<Rightarrow> Inr ((code, loader_usage, []), None)
      | Inr (filename, prefix) \<Rightarrow>
          bindE (initialize_redis_storage api env) (\<lambda>storage.
            case storage of
              None \<Rightarrow> Inr ((EXIT_FAILURE, [], []), None)
            | Some redis \<Rightarrow>
                (case ro_context redis of
                   None \<Rightarrow> Inl NullPointer
                 | Some d \<Rightarrow>
                     (case stdout_or_file (ds_files src) (Some (c_str filename)) of
                        None \<Rightarrow> Inr ((EXIT_FAILURE, [], []), Some d)
                      | Some input \<Rightarrow>
                          bindE (ds_load src (stream_text (ds_cin src) input)) (\<lambda>config.
                          bindE (yaml_to_storage (redis_ops api (\<lambda>d. (True, d))) (ds_conv src) d prefix config True)
                            (\<lambda>d. Inr ((EXIT_SUCCESS, [], []), Some d)))))))"

section \<open>Printing a document\<close>

definition yaml_print_usage :: string where
  "yaml_print_usage = ''Usage: yaml-print [-f filename]'' @ newline @ newline"

text \<open>\<open>-p\<close> has an argument for \<open>getopt\<close>, but no case in the switch.\<close>

fun yaml_print_options :: "(char \<times> string) list \<Rightarrow> string \<Rightarrow> int + string" where
  "yaml_print_options [] filename = Inr filename"
| "yaml_print_options ((c, optarg) # opts) filename =
     (if c = CHR ''f'' then yaml_print_options opts optarg
      else if c = CHR ''h'' then Inl EXIT_SUCCESS
      else Inl EXIT_FAILURE)"

text \<open>A \<open>char*\<close> into an array: the text up to the first NUL, which must be inside the array.\<close>

definition text_at :: "string \<Rightarrow> fault + string" where
  "text_at mem = (if CHR 0x00 \<in> set mem then Inr (c_str mem) else Inl OutOfBounds)"

text \<open>
  The buffer is printed through a pointer to its memory, in which \<open>spare\<close>, the part that is allocated and
  not yet written, follows the text. An input that did not open is a null pointer that is dereferenced.
\<close>

definition yaml_print_main :: "document_source \<Rightarrow> (string \<Rightarrow> string) \<Rightarrow> (char \<times> string) list \<Rightarrow> fault + tool_result" where
  "yaml_print_main src spare opts =
     (case yaml_print_options opts [] of
        Inl code \<Rightarrow> Inr (code, yaml_print_usage, [])
      | Inr filename \<Rightarrow>
          (case stdout_or_file (ds_files src) (Some (c_str filename)) of
             None \<Rightarrow> Inl NullPointer
           | Some input \<Rightarrow>
               bindE (ds_load src (stream_text (ds_cin src) input)) (\<lambda>config.
               bindE (yaml_to_buffer (ds_conv src) [] config []) (\<lambda>buffer.
               bindE (text_at (buffer @ spare buffer)) (\<lambda>printed.
                 Inr (EXIT_SUCCESS, printed, []))))))"

section \<open>A server that answers \<open>TYPE\<close>\<close>

text \<open>
  A text that the client library takes for one word of a command: the command is split at blanks, and a
  percent sign starts a directive.
\<close>

definition plain_word :: "string \<Rightarrow> bool" where
  "plain_word s \<longleftrightarrow> s \<noteq> [] \<and> set s \<inter> {CHR '' '', CHR ''%'', CHR 0x00} = {}"

locale redis_types = redis_server +
  assumes cmd_type: "plain_word k \<Longrightarrow> redisCommand api d (''TYPE '' @ k) [] = (r, d') \<Longrightarrow>
    r = Some (RedisStatus (type_name (db d k))) \<and> db d' = db d"

lemma memory_redis_types: "redis_types memory_redis (\<lambda>m. m)"
proof (unfold_locales, goal_cases)
  case (1 k d r d')
  then show ?case by (auto simp: memory_redis_def memory_command_def)
qed

interpretation memory_types: redis_types memory_redis "\<lambda>m. m"
  by (rule memory_redis_types)

lemma plain_nul_free: "plain_word s \<Longrightarrow> nul_free s"
  by (auto simp: plain_word_def nul_free_def)

text \<open>Every contents uses each key for the kind that it holds.\<close>

definition own_kind :: "redis_db \<Rightarrow> string \<Rightarrow> store_kind" where
  "own_kind m k = (case m k of Some (RHash h) \<Rightarrow> KMap | Some (RList l) \<Rightarrow> KList | Some (RSet t) \<Rightarrow> KSet | _ \<Rightarrow> KValue)"

lemma view_own_kind: "view_typed (own_kind m) (redis_view m)"
  by (auto simp: view_typed_def redis_view_def own_kind_def split: option.split redis_value.split)

section \<open>What is printed\<close>

text \<open>The result of dumping a key that holds \<open>x\<close>.\<close>

fun dumped :: "redis_value option \<Rightarrow> tool_result" where
  "dumped None = (EXIT_SUCCESS, [], ''Error, unsupported type: none'' @ newline)"
| "dumped (Some (RString v)) = (EXIT_SUCCESS, v @ newline, [])"
| "dumped (Some (RHash h)) = (EXIT_SUCCESS, dump_lines (map (\<lambda>(k, v). k @ ''='' @ v) h), [])"
| "dumped (Some (RList l)) = (EXIT_SUCCESS, dump_lines l, [])"
| "dumped (Some (RSet t)) = (EXIT_SUCCESS, dump_lines t, [])"

context redis_types
begin

lemma dump_key_prints:
  assumes ok: "redis_db_ok (db d)" and k: "plain_word k"
  shows "dump_key api d k (type_name (db d k)) = Inr (dumped (db d k))"
proof -
  note n = plain_nul_free [OF k] and ty = view_own_kind [of "db d"]
  show ?thesis
  proof (cases "db d k")
    case None
    then show ?thesis by (simp add: dump_key_def)
  next
    case (Some x)
    show ?thesis
    proof (cases x)
      case (RString v)
      with redis_value_get_reads [OF ok n] Some show ?thesis by (simp add: dump_key_def redis_view_def)
    next
      case (RHash h)
      then have "own_kind (db d) k = KMap" by (simp add: own_kind_def Some)
      from redis_map_get_reads [OF ok n ty this] RHash Some have "redis_map_get api d k = Inr (Some h)"
        by (auto simp: redis_view_def reads_as_def)
      then show ?thesis by (simp add: dump_key_def Some RHash)
    next
      case (RList l)
      then have "own_kind (db d) k = KList" by (simp add: own_kind_def Some)
      from redis_list_get_reads [OF ok n ty this] RList Some have "redis_list_get api d k = Inr (Some l)"
        by (auto simp: redis_view_def reads_as_def)
      then show ?thesis by (simp add: dump_key_def Some RList)
    next
      case (RSet t)
      then have "own_kind (db d) k = KSet" by (simp add: own_kind_def Some)
      from redis_set_get_reads [OF ok n ty this] RSet Some have "redis_set_get api d k = Inr (Some t)"
        by (auto simp: redis_view_def reads_as_def)
      then show ?thesis by (simp add: dump_key_def Some RSet)
    qed
  qed
qed

lemma keydump_prints:
  assumes "keydump_options opts [] = Inr k" "plain_word k"
    and "initialize_redis_storage api env = Inr (Some r)" "ro_context r = Some d" "redis_db_ok (db d)"
  shows "keydump_main api env opts = Inr (dumped (db d k))"
proof -
  obtain reply d' where raw: "redisCommand api d (''TYPE '' @ k) [] = (reply, d')" by fastforce
  from cmd_type [OF assms(2) raw] have d': "reply = Some (RedisStatus (type_name (db d k)))" "db d' = db d"
    by simp_all
  have "nul_free (''TYPE '' @ k)" using plain_nul_free [OF assms(2)] by (auto simp: nul_free_def)
  then have "redis_raw api d (''TYPE '' @ k) = (reply, d')" using raw by (simp add: redis_raw_def)
  moreover have "reply_str (RedisStatus (type_name x)) = Inr (type_name x)" for x
    by (cases x rule: type_name.cases) (simp_all add: reply_str_def c_str_def)
  moreover have "k \<noteq> []" using assms(2) by (simp add: plain_word_def)
  ultimately show ?thesis
    using assms(1,3,4) d' dump_key_prints [of d' k] assms(2,5) by (simp add: keydump_main_def)
qed

end

text \<open>Storing entries of a hash, as a load does for a map of scalars.\<close>

definition put_entries :: "(string \<times> string) list \<Rightarrow> map_t \<Rightarrow> map_t" where
  "put_entries ps h = foldl (\<lambda>h (k, v). smap_put k v h) h ps"

context redis_server
begin

lemma map_store_puts:
  assumes "db_hash (db d n) = Some h" "nul_free n" "nul_free k" "nul_free v"
  shows "db (snd (redis_map_store api d n k v)) = (db d)(n \<mapsto> RHash (smap_put k v h))"
  using cmd_hset [of d n k v] assms writes_some by (fastforce simp: redis_map_store_def split: prod.split)

lemma yaml_map_puts:
  assumes "nul_free n" "list_all (\<lambda>(k, v). nul_free k \<and> nul_free v) ps"
    and "\<forall>(k, v) \<in> set ps. conv (YScalar k) = Inr k \<and> conv (YScalar v) = Inr v"
    and "db_hash (db d n) = Some h" "ps \<noteq> []"
  shows "\<exists>d'. yaml_map (redis_ops api i) conv d n (map (\<lambda>(k, v). (YScalar k, YScalar v)) ps) idem virgin = Inr d' \<and>
    db d' = (db d)(n \<mapsto> RHash (put_entries ps h))"
  using assms(2-)
proof (induction ps arbitrary: d h)
  case Nil
  then show ?case by simp
next
  case (Cons p ps)
  obtain k v where p: "p = (k, v)" by (cases p)
  let ?d = "snd (redis_map_store api d n k v)"
  have d: "db ?d = (db d)(n \<mapsto> RHash (smap_put k v h))"
    using map_store_puts [OF Cons.prems(3) assms(1)] Cons.prems(1) by (simp add: p)
  show ?case
  proof (cases "ps = []")
    case True
    with d Cons.prems show ?thesis by (simp add: p is_scalar_def put_entries_def fun_eq_iff)
  next
    case False
    have "db_hash (db ?d n) = Some (smap_put k v h)" by (simp add: d)
    from Cons.IH [OF _ _ this False] Cons.prems d show ?thesis
      by (auto simp: p is_scalar_def put_entries_def fun_eq_iff)
  qed
qed

end

text \<open>A tool that connects to the server in the state \<open>d\<close>.\<close>

definition connects :: "'d redis_api \<Rightarrow> 'd redis_env \<Rightarrow> 'd \<Rightarrow> bool" where
  "connects api env d \<longleftrightarrow> (\<forall>ip port. re_connect env ip port = Some (d, False)) \<and>
     (\<exists>r. initialize_redis_storage api env = Inr (Some r))"

definition last_connected :: "'d redis_env \<Rightarrow> redis_value" where
  "last_connected env = RString (string_of_int (re_time env))"

lemma nul_free_string_of_int: "nul_free (string_of_int i)"
proof -
  have "CHR 0x00 \<notin> set (string_of_nat n)" for n
    using string_of_nat_digits [of n] by (auto simp: is_digit_def)
  then show ?thesis by (simp add: nul_free_def string_of_int_def)
qed

lemma put_entries_ok:
  "redis_value_ok (RHash h) \<Longrightarrow> list_all (\<lambda>(k, v). nul_free k \<and> nul_free v) ps \<Longrightarrow>
   redis_value_ok (RHash (put_entries ps h))"
proof (induction ps arbitrary: h)
  case Nil
  then show ?case by (simp add: put_entries_def)
next
  case (Cons p ps)
  obtain k v where p: "p = (k, v)" by (cases p)
  with Cons.prems have "redis_value_ok (RHash (smap_put k v h))" by (intro hash_put_ok) simp_all
  with Cons.IH Cons.prems(2) have "redis_value_ok (RHash (put_entries ps (smap_put k v h)))"
    by (simp only: p list.pred_inject(2))
  then show ?case by (simp only: p put_entries_def foldl_Cons prod.case)
qed

context redis_server
begin

lemma connects_initialized:
  assumes "connects api env d0"
  shows "\<exists>r d. initialize_redis_storage api env = Inr (Some r) \<and> ro_context r = Some d \<and>
    db d = (db d0)(''server_last_connected'' \<mapsto> last_connected env)"
proof -
  let ?set = "redis_value_store api d0 ''server_last_connected'' (string_of_int (re_time env))"
  from assms obtain r where r: "initialize_redis_storage api env = Inr (Some r)"
    and conn: "\<And>ip port. re_connect env ip port = Some (d0, False)" by (auto simp: connects_def)
  then have "ro_context r = Some (snd ?set)"
    by (auto simp: initialize_redis_storage_def redis_init_def bindE_eq_Inr Let_def split: prod.splits if_splits)
  moreover have "db (snd ?set) = (db d0)(''server_last_connected'' \<mapsto> last_connected env)"
  proof -
    have "nul_free ''server_last_connected''" by (simp add: nul_free_def)
    then show ?thesis
      using writes_some [OF cmd_set [of d0 "''server_last_connected''" "string_of_int (re_time env)"]]
      by (simp add: redis_value_store_def nul_free_string_of_int last_connected_def case_prod_unfold Let_def)
  qed
  ultimately show ?thesis using r by blast
qed

end

lemma last_connected_ok: "redis_db_ok m \<Longrightarrow> redis_db_ok (m(k \<mapsto> last_connected env))"
  by (rule map_update_ok) (simp_all add: last_connected_def nul_free_string_of_int)

lemma c_str_append: "CHR 0x00 \<notin> set s \<Longrightarrow> c_str (s @ r) = s @ c_str r"
  unfolding c_str_def by (rule takeWhile_append2) auto

section \<open>Properties\<close>

text \<open>
  C17: Over a server that does what Redis documents, \<open>redis-keydump -k key\<close> prints what the key holds: the
  value, the elements of a list in order, the entries of a hash or the members of a set in the order of
  their keys, one to a line. A key that does not exist is reported on the error output as a type that is
  not supported, and the exit code says success.
\<close>

theorem keydump_prints_key:
  assumes "redis_types api db" "redis_db_ok (db d)" "connects api env d" "plain_word k"
    and "keydump_options opts [] = Inr k" "k \<noteq> ''server_last_connected''"
  shows "keydump_main api env opts = Inr (dumped (db d k))"
proof -
  have server: "redis_server api db" using assms(1) by (simp add: redis_types_def)
  from redis_server.connects_initialized [OF server assms(3)] obtain r d' where
    r: "initialize_redis_storage api env = Inr (Some r)" "ro_context r = Some d'"
      "db d' = (db d)(''server_last_connected'' \<mapsto> last_connected env)" by blast
  then have "redis_db_ok (db d')" using last_connected_ok [OF assms(2)] by simp
  from redis_types.keydump_prints [OF assms(1,5,4) r(1,2) this] assms(6) r(3) show ?thesis by simp
qed

definition tool_env :: "redis_db \<Rightarrow> redis_db redis_env" where
  "tool_env d = \<lparr>re_inet_addr = (\<lambda>_. 1), re_gethostbyname = (\<lambda>_. None),
     re_connect = (\<lambda>ip port. Some (d, False)), re_time = 0, re_getenv = (\<lambda>_. None)\<rparr>"

lemma tool_env_connects: "connects memory_redis (tool_env d) d"
  by (simp add: connects_def initialize_redis_storage_def tool_env_def redis_init_def redis_storage_new_def
      hostname_to_ip_def split: prod.split)

theorem keydump_prints_key_witness:
  "keydump_main memory_redis (tool_env [''users'' \<mapsto> RHash [(''ann'', ''1''), (''bob'', ''2'')]]) [(CHR ''k'', ''users'')] =
   Inr (0, ''ann=1'' @ newline @ ''bob=2'' @ newline, [])"
proof -
  define d where "d = [''users'' \<mapsto> RHash [(''ann'', ''1''), (''bob'', ''2'')]]"
  have dk: "d ''users'' = Some (RHash [(''ann'', ''1''), (''bob'', ''2'')])" by (simp add: d_def)
  have "redis_db_ok d" by (simp add: d_def redis_db_ok_def smap_ok_def nul_free_def)
  from keydump_prints_key [OF memory_redis_types this tool_env_connects, of "''users''" "[(CHR ''k'', ''users'')]"]
  have "keydump_main memory_redis (tool_env d) [(CHR ''k'', ''users'')] =
      Inr (dumped (Some (RHash [(''ann'', ''1''), (''bob'', ''2'')])))"
    by (simp add: plain_word_def dk del: dumped.simps)
  then show ?thesis unfolding d_def by (simp add: EXIT_SUCCESS_def dump_lines_def)
qed

text \<open>
  C16: Loading a flat map and printing it: a document that is a non-empty map of scalars, loaded by
  \<open>yaml-redis-loader\<close> under a prefix that is a plain word and that the server does not use yet, is printed by
  a later \<open>redis-keydump\<close> of that prefix as its entries, sorted by their keys, a repeated key with its last
  value. Sequences and maps of maps, which the loader stores under keys below the prefix, are not part of it.
\<close>

theorem load_then_dump:
  assumes "redis_types api db" "redis_db_ok (db d)" "connects api env d"
    and "loader_options lopts ([], ''pmud'') = Inr (name, prefix)" "plain_word prefix"
    and "prefix \<noteq> ''server_last_connected''" "db d prefix = None"
    and "stdout_or_file (ds_files src) (Some (c_str name)) = Some source"
    and "ds_load src (stream_text (ds_cin src) source) = Inr (YMap (map (\<lambda>(k, v). (YScalar k, YScalar v)) ps))"
    and "\<forall>(k, v) \<in> set ps. ds_conv src (YScalar k) = Inr k \<and> ds_conv src (YScalar v) = Inr v"
    and "list_all (\<lambda>(k, v). nul_free k \<and> nul_free v) ps" "ps \<noteq> []"
    and "keydump_options kopts [] = Inr prefix"
  shows "\<exists>d1. loader_main api env src lopts = Inr ((EXIT_SUCCESS, [], []), Some d1) \<and>
    (\<forall>env'. connects api env' d1 \<longrightarrow> keydump_main api env' kopts =
      Inr (EXIT_SUCCESS, dump_lines (map (\<lambda>(k, v). k @ ''='' @ v) (put_entries ps [])), []))"
proof -
  have server: "redis_server api db" using assms(1) by (simp add: redis_types_def)
  from redis_server.connects_initialized [OF server assms(3)] obtain r d0 where
    r: "initialize_redis_storage api env = Inr (Some r)" "ro_context r = Some d0"
      "db d0 = (db d)(''server_last_connected'' \<mapsto> last_connected env)" by blast
  have "db_hash (db d0 prefix) = Some []" using r(3) assms(6,7) by simp
  from redis_server.yaml_map_puts [OF server plain_nul_free [OF assms(5)] assms(11,10) this assms(12), where idem = True
      and virgin = True and i = "\<lambda>d. (True, d)"]
  obtain d1 where d1: "yaml_map (redis_ops api (\<lambda>d. (True, d))) (ds_conv src) d0 prefix
      (map (\<lambda>(k, v). (YScalar k, YScalar v)) ps) True True = Inr d1"
    "db d1 = (db d0)(prefix \<mapsto> RHash (put_entries ps []))" by blast
  have "loader_main api env src lopts = Inr ((EXIT_SUCCESS, [], []), Some d1)"
    using assms(4,8,9) r(1,2) d1(1) by (simp add: loader_main_def)
  moreover have "redis_value_ok (RHash (put_entries ps []))"
    by (rule put_entries_ok [OF _ assms(11)]) (simp add: smap_ok_def)
  then have "redis_db_ok (db d1)"
    unfolding d1(2) r(3) using assms(2) by (intro map_update_ok last_connected_ok)
  then have "keydump_main api env' kopts = Inr (dumped (db d1 prefix))" if "connects api env' d1" for env'
    by (rule keydump_prints_key [OF assms(1) _ that assms(5,13,6)])
  ultimately show ?thesis by (auto simp: d1(2))
qed

definition example_source :: document_source where
  "example_source = \<lparr>ds_files = (\<lambda>_. None), ds_cin = ''b: 2, a: 1'',
     ds_load = (\<lambda>t. Inr (YMap [(YScalar ''b'', YScalar ''2''), (YScalar ''a'', YScalar ''1'')])),
     ds_conv = (\<lambda>n. case n of YScalar t \<Rightarrow> Inr t | _ \<Rightarrow> Inl (Thrown ''bad conversion''))\<rparr>"

theorem load_then_dump_witness:
  "\<exists>d1. loader_main memory_redis (tool_env Map.empty) example_source [] = Inr ((0, [], []), Some d1) \<and>
    keydump_main memory_redis (tool_env d1) [(CHR ''k'', ''pmud'')] =
      Inr (0, ''a=1'' @ newline @ ''b=2'' @ newline, [])"
proof -
  let ?ps = "[(''b'', ''2''), (''a'', ''1'')]"
  have entries: "dump_lines (map (\<lambda>(k, v). k @ ''='' @ v) (put_entries ?ps [])) =
      ''a=1'' @ newline @ ''b=2'' @ newline"
    by (simp add: put_entries_def dump_lines_def)
  have "\<exists>d1. loader_main memory_redis (tool_env Map.empty) example_source [] = Inr ((EXIT_SUCCESS, [], []), Some d1) \<and>
    (\<forall>env'. connects memory_redis env' d1 \<longrightarrow> keydump_main memory_redis env' [(CHR ''k'', ''pmud'')] =
      Inr (EXIT_SUCCESS, dump_lines (map (\<lambda>(k, v). k @ ''='' @ v) (put_entries ?ps [])), []))"
    by (rule load_then_dump [where name = "[]" and source = StandardInput, OF memory_redis_types _ tool_env_connects])
       (simp_all add: redis_db_ok_def plain_word_def stdout_or_file_def c_str_def example_source_def nul_free_def)
  then show ?thesis unfolding entries using tool_env_connects by (auto simp: EXIT_SUCCESS_def)
qed

text \<open>
  \<open>yaml-print\<close> hands the memory of its buffer to the printing function as a C string, although nothing
  ends it: what comes out is the document followed by whatever the memory behind it holds up to a NUL,
  and outside the array if there is none. A file that does not open is dereferenced all the same.
\<close>

theorem yaml_print_runs_on:
  assumes "yaml_print_options opts [] = Inr file"
  shows "case stdout_or_file (ds_files src) (Some (c_str file)) of
      None \<Rightarrow> yaml_print_main src spare opts = Inl NullPointer
    | Some input \<Rightarrow> \<forall>config out.
        ds_load src (stream_text (ds_cin src) input) = Inr config \<longrightarrow>
        yaml_to_buffer (ds_conv src) [] config [] = Inr out \<longrightarrow> nul_free out \<longrightarrow>
        yaml_print_main src spare opts =
          (if nul_free (spare out) then Inl OutOfBounds else Inr (EXIT_SUCCESS, out @ c_str (spare out), []))"
proof (cases "stdout_or_file (ds_files src) (Some (c_str file))")
  case None
  with assms show ?thesis by (simp add: yaml_print_main_def)
next
  case (Some input)
  have "text_at (out @ spare out) = (if nul_free (spare out) then Inl OutOfBounds else Inr (out @ c_str (spare out)))"
    if "nul_free out" for out
    using that by (auto simp: text_at_def nul_free_def c_str_append)
  with assms Some show ?thesis by (simp add: yaml_print_main_def)
qed

theorem yaml_print_runs_on_witness:
  "yaml_print_main (example_source\<lparr>ds_load := (\<lambda>t. Inr (YScalar ''x''))\<rparr>) (\<lambda>_. ''old'' @ [CHR 0x00]) [] =
     Inr (0, ''xold'', [])"
  using yaml_print_runs_on [of "[]" "[]" "example_source\<lparr>ds_load := (\<lambda>t. Inr (YScalar ''x''))\<rparr>"
      "\<lambda>_. ''old'' @ [CHR 0x00]"]
  by (simp add: example_source_def stdout_or_file_def c_str_def nul_free_def EXIT_SUCCESS_def)

end
