(* ===== verification/Stream_Tools.thy ===== *)
theory Stream_Tools
  imports Redis_Tools "HOL-Library.Sublist"
begin

text \<open>
  The benchmark pair \<^verbatim>\<open>util/redis-stream-in.cpp\<close>, which appends numbered records to a stream for ever,
  and \<^verbatim>\<open>util/redis-stream-out.cpp\<close>, which reads it in batches and reports one record of each batch. Both
  loops are endless: a model of a run has the number of its turns. What the server documents of \<open>XADD\<close>
  and \<open>XREAD\<close> is the locale \<open>stream_server\<close>.
\<close>

section \<open>Writing a stream\<close>

definition stream_in_usage :: string where
  "stream_in_usage = ''Usage: redis-stream-in [-s stream-name]'' @ newline @ newline @ ''NOTE:'' @ newline @
     ''    REDIS_HOST and REDIS_PORT should be set in environment.'' @ newline @ newline"

fun stream_in_options :: "(char \<times> string) list \<Rightarrow> string \<Rightarrow> int + string" where
  "stream_in_options [] stream_name = Inr stream_name"
| "stream_in_options ((c, optarg) # opts) stream_name =
     (if c = CHR ''s'' then stream_in_options opts optarg
      else if c = CHR ''h'' then Inl EXIT_SUCCESS
      else Inl EXIT_FAILURE)"

text \<open>One turn: the connection, the counter, and the numbers of records that the log has claimed.\<close>

definition xadd_command :: "string \<Rightarrow> nat \<Rightarrow> string" where
  "xadd_command stream_name counter =
     ''XADD '' @ stream_name @ '' * sensor-id 1234 temperature '' @ string_of_nat counter"

definition stream_in_turn :: "'d redis_api \<Rightarrow> string \<Rightarrow> 'd \<times> nat \<times> nat list \<Rightarrow> 'd \<times> nat \<times> nat list" where
  "stream_in_turn api stream_name = (\<lambda>(d, counter, claims).
     let (reply, d) = redis_raw api d (xadd_command stream_name counter);
         counter = counter + 1
     in (d, counter, if counter mod 1000 = 0 then claims @ [counter] else claims))"

datatype 'a stream_end = StreamExits tool_result | StreamRuns 'a

definition stream_in_main ::
  "'d redis_api \<Rightarrow> 'd redis_env \<Rightarrow> (char \<times> string) list \<Rightarrow> nat \<Rightarrow> fault + ('d \<times> nat \<times> nat list) stream_end" where
  "stream_in_main api env opts turns =
     (case stream_in_options opts [] of
        Inl code \<Rightarrow> Inr (StreamExits (code, stream_in_usage, []))
      | Inr stream_name \<Rightarrow>
          if stream_name = [] then Inr (StreamExits (EXIT_FAILURE, [], []))
          else bindE (initialize_redis_storage api env) (\<lambda>storage.
            case storage of
              None \<Rightarrow> Inr (StreamExits (EXIT_FAILURE, [], []))
            | Some redis \<Rightarrow>
                (case ro_context redis of
                   None \<Rightarrow> Inl NullPointer
                 | Some d \<Rightarrow> Inr (StreamRuns ((stream_in_turn api stream_name ^^ turns) (d, 1, []))))))"

section \<open>Reading a stream\<close>

definition stream_out_usage :: string where
  "stream_out_usage = ''Usage: redis-stream-out [-s stream-name]'' @ newline @ newline @ ''NOTE:'' @ newline @
     ''    REDIS_HOST and REDIS_PORT should be set in environment.'' @ newline @ newline"

definition DEFAULT_BATCH_SIZE :: nat where "DEFAULT_BATCH_SIZE = 10000"

text \<open>\<open>atoi\<close> converted to a \<open>size_t\<close>.\<close>

fun stream_out_options :: "(char \<times> string) list \<Rightarrow> string \<times> nat \<Rightarrow> int + string \<times> nat" where
  "stream_out_options [] st = Inr st"
| "stream_out_options ((c, optarg) # opts) (stream_name, batch_size) =
     (if c = CHR ''s'' then stream_out_options opts (optarg, batch_size)
      else if c = CHR ''b'' then stream_out_options opts (stream_name, nat (atoi optarg mod 2 ^ 64))
      else if c = CHR ''h'' then Inl EXIT_SUCCESS
      else Inl EXIT_FAILURE)"

text \<open>The counter, the position and the reports: a time stamp, the counter and a temperature.\<close>

type_synonym out_state = "nat \<times> string \<times> (string \<times> nat \<times> string) list"

text \<open>\<open>record.fields["temperature"]\<close> makes an empty text of a field that is not there.\<close>

definition temperature_of :: "stream_record \<Rightarrow> string" where
  "temperature_of r = (case smap_get (sr_fields r) ''temperature'' of None \<Rightarrow> [] | Some t \<Rightarrow> t)"

definition count_record :: "nat \<Rightarrow> stream_record \<Rightarrow> out_state \<Rightarrow> fault + out_state" where
  "count_record batch_size r = (\<lambda>(counter, position, reports).
     let counter = counter + 1; position = sr_timestamp r in
     if batch_size = 0 then Inl (Thrown ''division by zero'')
     else if counter mod batch_size = 0
       then Inr (counter, position, reports @ [(sr_timestamp r, counter, temperature_of r)])
     else Inr (counter, position, reports))"

definition xread_command :: "nat \<Rightarrow> string \<Rightarrow> string \<Rightarrow> string" where
  "xread_command batch_size stream_name position =
     ''XREAD BLOCK 0 COUNT '' @ string_of_nat batch_size @ '' STREAMS '' @ stream_name @ '' '' @ position"

text \<open>One turn over the state \<open>d\<close> in which the read finds the server.\<close>

definition stream_out_turn :: "'d redis_api \<Rightarrow> nat \<Rightarrow> string \<Rightarrow> 'd \<Rightarrow> out_state \<Rightarrow> fault + out_state" where
  "stream_out_turn api batch_size stream_name d = (\<lambda>(counter, position, reports).
     bindE (redis_read_stream_raw api d (xread_command batch_size stream_name position)) (\<lambda>responses.
       foldE (\<lambda>response st. foldE (count_record batch_size) (sp_records response) st) responses
         (counter, position, reports)))"

definition stream_out_run :: "'d redis_api \<Rightarrow> nat \<Rightarrow> string \<Rightarrow> 'd list \<Rightarrow> fault + out_state" where
  "stream_out_run api batch_size stream_name ds =
     foldE (stream_out_turn api batch_size stream_name) ds (0, ''0'', [])"

text \<open>\<open>later\<close> are the states in which the reads find the server, which others may have written meanwhile.\<close>

definition stream_out_main ::
  "'d redis_api \<Rightarrow> 'd redis_env \<Rightarrow> (char \<times> string) list \<Rightarrow> ('d \<Rightarrow> 'd list) \<Rightarrow> fault + out_state stream_end" where
  "stream_out_main api env opts later =
     (case stream_out_options opts ([], DEFAULT_BATCH_SIZE) of
        Inl code \<Rightarrow> Inr (StreamExits (code, stream_out_usage, []))
      | Inr (stream_name, batch_size) \<Rightarrow>
          if stream_name = [] then Inr (StreamExits (EXIT_FAILURE, [], []))
          else bindE (initialize_redis_storage api env) (\<lambda>storage.
            case storage of
              None \<Rightarrow> Inr (StreamExits (EXIT_FAILURE, [], []))
            | Some redis \<Rightarrow>
                (case ro_context redis of
                   None \<Rightarrow> Inl NullPointer
                 | Some d \<Rightarrow>
                     bindE (stream_out_run api batch_size stream_name (later d)) (\<lambda>st. Inr (StreamRuns st)))))"

section \<open>What the server is documented to do\<close>

text \<open>
  A stream is a list of records with different identifiers, of which \<open>0\<close> is none. \<open>XADD\<close> with \<open>*\<close> appends
  a record under a new one; \<open>XREAD\<close> answers with the first records behind a position, as many as \<open>COUNT\<close>
  allows. While there is none it blocks, of which nothing is assumed.
\<close>

definition stream_ok :: "stream_record list \<Rightarrow> bool" where
  "stream_ok rs \<longleftrightarrow> distinct (map sr_timestamp rs) \<and>
     list_all (\<lambda>r. plain_word (sr_timestamp r) \<and> sr_timestamp r \<noteq> ''0'' \<and> record_ok r) rs"

definition after :: "string \<Rightarrow> stream_record list \<Rightarrow> stream_record list" where
  "after pos rs = (if pos = ''0'' then rs else drop 1 (dropWhile (\<lambda>r. sr_timestamp r \<noteq> pos) rs))"

definition sensor_record :: "string \<Rightarrow> nat \<Rightarrow> stream_record" where
  "sensor_record ts n =
     \<lparr>sr_timestamp = ts, sr_fields = [(''sensor-id'', ''1234''), (''temperature'', string_of_nat n)]\<rparr>"

locale stream_server =
  fixes api :: "'d redis_api" and entries :: "'d \<Rightarrow> string \<Rightarrow> stream_record list"
  assumes cmd_xadd: "plain_word name \<Longrightarrow> redisCommand api d (xadd_command name n) [] = (r, d') \<Longrightarrow>
      \<exists>ts. entries d' = (entries d)(name := entries d name @ [sensor_record ts n]) \<and>
        (stream_ok (entries d name) \<longrightarrow> stream_ok (entries d' name))"
    and cmd_xread: "plain_word name \<Longrightarrow> 0 < b \<Longrightarrow> stream_ok (entries d name) \<Longrightarrow>
      pos = ''0'' \<or> pos \<in> sr_timestamp ` set (entries d name) \<Longrightarrow> after pos (entries d name) \<noteq> [] \<Longrightarrow>
      fst (redisCommand api d (xread_command b name pos) []) =
        Some (stream_reply [\<lparr>sp_stream_name = name, sp_records = take b (after pos (entries d name))\<rparr>])"

section \<open>Reading in batches\<close>

text \<open>The position after \<open>c\<close> records, and the reports that counting from \<open>c\<close> to \<open>c'\<close> makes.\<close>

definition position_of :: "stream_record list \<Rightarrow> nat \<Rightarrow> string" where
  "position_of S c = (if c = 0 then ''0'' else sr_timestamp (S ! (c - 1)))"

definition reports_between :: "nat \<Rightarrow> stream_record list \<Rightarrow> nat \<Rightarrow> nat \<Rightarrow> (string \<times> nat \<times> string) list" where
  "reports_between b S c c' =
     map (\<lambda>i. (sr_timestamp (S ! (i - 1)), i, temperature_of (S ! (i - 1)))) (filter (\<lambda>i. i mod b = 0) [Suc c..<Suc c'])"

lemma after_position:
  assumes "stream_ok S" "c \<le> length S"
  shows "after (position_of S c) S = drop c S"
proof (cases c)
  case 0
  then show ?thesis by (simp add: position_of_def after_def)
next
  case (Suc i)
  with assms(2) have i: "i < length S" by simp
  let ?ts = "sr_timestamp (S ! i)"
  have ne: "?ts \<noteq> ''0''" using assms(1) i by (auto simp: stream_ok_def list_all_length)
  have "sr_timestamp r \<noteq> ?ts" if r: "r \<in> set (take i S)" for r
  proof -
    from r obtain j where j: "j < i" "r = S ! j" by (auto simp: in_set_conv_nth)
    with i assms(1) show ?thesis
      by (auto simp: stream_ok_def distinct_conv_nth)
  qed
  then have "dropWhile (\<lambda>r. sr_timestamp r \<noteq> ?ts) (take i S @ S ! i # drop (Suc i) S) = S ! i # drop (Suc i) S"
    by (subst dropWhile_append2) auto
  then have "dropWhile (\<lambda>r. sr_timestamp r \<noteq> ?ts) S = S ! i # drop (Suc i) S"
    using id_take_nth_drop [OF i] by simp
  with ne show ?thesis by (simp add: Suc position_of_def after_def)
qed

lemma position_member:
  "c \<le> length S \<Longrightarrow> position_of S c = ''0'' \<or> position_of S c \<in> sr_timestamp ` set S"
  by (cases c) (auto simp: position_of_def)

lemma position_prefix: "c \<le> length S \<Longrightarrow> position_of (S @ X) c = position_of S c"
  by (auto simp: position_of_def nth_append)

lemma reports_prefix: "c' \<le> length S \<Longrightarrow> reports_between b (S @ X) c c' = reports_between b S c c'"
  by (auto simp: reports_between_def nth_append)

lemma reports_append:
  assumes "c \<le> c'" "c' \<le> c''"
  shows "reports_between b S c c' @ reports_between b S c' c'' = reports_between b S c c''"
proof -
  have "[Suc c..<Suc c'] @ [Suc c'..<Suc c''] = [Suc c..<Suc c'']"
    using upt_add_eq_append [of "Suc c" "Suc c'" "c'' - c'"] assms by simp
  then show ?thesis unfolding reports_between_def by (metis filter_append map_append)
qed

lemma count_record_next:
  assumes "0 < b" "c < length S"
  shows "count_record b (S ! c) (c, pos, reps) =
    Inr (Suc c, position_of S (Suc c), reps @ reports_between b S c (Suc c))"
  using assms by (simp add: count_record_def position_of_def reports_between_def Let_def)

lemma count_records:
  assumes "0 < b"
  shows "c + k \<le> length S \<Longrightarrow> foldE (count_record b) (take k (drop c S)) (c, position_of S c, reps) =
    Inr (c + k, position_of S (c + k), reps @ reports_between b S c (c + k))"
proof (induction k)
  case 0
  then show ?case by (simp add: reports_between_def)
next
  case (Suc k)
  then have take: "take (Suc k) (drop c S) = take k (drop c S) @ [S ! (c + k)]"
    by (subst take_Suc_conv_app_nth) simp_all
  from Suc have "foldE (count_record b) (take k (drop c S)) (c, position_of S c, reps) =
      Inr (c + k, position_of S (c + k), reps @ reports_between b S c (c + k))" by simp
  then show ?case
    unfolding take foldE_append using count_record_next [OF assms, of "c + k" S] Suc.prems
      reports_append [of c "c + k" "Suc (c + k)" b S] by simp
qed

text \<open>The counter after reads that find streams of these lengths, and that each read finds something new.\<close>

fun consumed :: "nat \<Rightarrow> nat \<Rightarrow> nat list \<Rightarrow> nat" where
  "consumed b c [] = c"
| "consumed b c (l # ls) = consumed b (min (c + b) l) ls"

fun supplied :: "nat \<Rightarrow> nat \<Rightarrow> nat list \<Rightarrow> bool" where
  "supplied b c [] = True"
| "supplied b c (l # ls) = (c < l \<and> supplied b (min (c + b) l) ls)"

lemma nul_free_append [simp]: "nul_free (s @ t) = (nul_free s \<and> nul_free t)"
  by (auto simp: nul_free_def)

lemma nul_free_nat: "nul_free (string_of_nat n)"
  using string_of_nat_digits [of n] by (auto simp: nul_free_def is_digit_def)

lemma plain_nat: "plain_word (string_of_nat n)"
  using string_of_nat_digits [of n] string_of_nat_nonempty [of n] by (auto simp: plain_word_def is_digit_def)

lemma nul_free_literals:
  "nul_free ''XADD ''" "nul_free '' * sensor-id 1234 temperature ''" "nul_free ''XREAD BLOCK 0 COUNT ''"
  "nul_free '' STREAMS ''" "nul_free '' ''" "nul_free ''0''"
  by (simp_all add: nul_free_def)

lemma stream_reply_single:
  assumes "plain_word name" "list_all record_ok rs"
  shows "construct_stream_responses (stream_reply [\<lparr>sp_stream_name = name, sp_records = rs\<rparr>]) =
    Inr [\<lparr>sp_stream_name = name, sp_records = rs\<rparr>]"
  by (rule construct_of_reply) (use assms plain_nul_free in \<open>simp add: response_ok_def\<close>)

context stream_server
begin

lemma out_turn:
  assumes name: "plain_word name" and b: "0 < b" and S: "entries d name = S" "stream_ok S" and c: "c < length S"
    and c': "c' = min (c + b) (length S)"
  shows "stream_out_turn api b name d (c, position_of S c, reps) =
    Inr (c', position_of S c', reps @ reports_between b S c c')"
proof -
  let ?pos = "position_of S c" and ?rs = "take b (drop c S)"
  have aft: "after ?pos S = drop c S" using after_position [OF S(2)] c by simp
  have pos: "?pos = ''0'' \<or> ?pos \<in> sr_timestamp ` set S" using position_member c by simp
  have read: "fst (redisCommand api d (xread_command b name ?pos) []) =
      Some (stream_reply [\<lparr>sp_stream_name = name, sp_records = ?rs\<rparr>])"
    using cmd_xread [OF name b, of d ?pos] S c pos by (simp add: aft)
  have "nul_free ?pos"
    using pos S(2) nul_free_literals(6) plain_nul_free by (auto simp: stream_ok_def list_all_iff)
  then have "nul_free (xread_command b name ?pos)"
    using plain_nul_free [OF name] nul_free_nat nul_free_literals unfolding xread_command_def nul_free_append by blast
  then have plain: "c_str (xread_command b name ?pos) = xread_command b name ?pos" by simp
  have "list_all record_ok ?rs"
    using S(2) by (auto simp: stream_ok_def list_all_iff dest!: in_set_takeD in_set_dropD)
  from stream_reply_single [OF name this] read plain
  have responses: "redis_read_stream_raw api d (xread_command b name ?pos) = Inr [\<lparr>sp_stream_name = name, sp_records = ?rs\<rparr>]"
    by (simp add: redis_read_stream_raw_def case_prod_unfold Let_def)
  have cb: "c + (c' - c) \<le> length S" "c \<le> c'" "?rs = take (c' - c) (drop c S)"
    using c b unfolding c' by (auto simp: min_def)
  have step: "foldE (count_record b) ?rs (c, ?pos, reps) = Inr (c', position_of S c', reps @ reports_between b S c c')"
    unfolding cb(3) using count_records [OF b cb(1)] cb(2) by simp
  show ?thesis by (simp add: stream_out_turn_def responses step)
qed

lemma out_run:
  assumes name: "plain_word name" and b: "0 < b"
  shows "\<forall>d \<in> set ds. stream_ok (entries d name) \<Longrightarrow> sorted_wrt (\<lambda>d d'. prefix (entries d name) (entries d' name)) ds \<Longrightarrow>
    ds \<noteq> [] \<Longrightarrow> supplied b c (map (\<lambda>d. length (entries d name)) ds) \<Longrightarrow>
    pos = position_of (entries (hd ds) name) c \<Longrightarrow>
    S = entries (last ds) name \<Longrightarrow> c' = consumed b c (map (\<lambda>d. length (entries d name)) ds) \<Longrightarrow>
    foldE (stream_out_turn api b name) ds (c, pos, reps) = Inr (c', position_of S c', reps @ reports_between b S c c') \<and>
    c < c' \<and> c' \<le> length S"
proof (induction ds arbitrary: c pos reps)
  case Nil
  then show ?case by simp
next
  case (Cons d ds)
  let ?T = "entries d name"
  define c1 where "c1 = min (c + b) (length ?T)"
  from Cons.prems have c: "c < length ?T" and ok: "stream_ok ?T" by simp_all
  then have c1: "c < c1" "c1 \<le> length ?T" using b by (simp_all add: c1_def)
  have turn: "stream_out_turn api b name d (c, pos, reps) = Inr (c1, position_of ?T c1, reps @ reports_between b ?T c c1)"
    using out_turn [OF name b refl ok c c1_def] Cons.prems(5) by simp
  show ?case
  proof (cases "ds = []")
    case True
    with turn c1 Cons.prems(6,7) show ?thesis by (simp add: c1_def)
  next
    case False
    obtain X where X: "entries (hd ds) name = ?T @ X" using Cons.prems(2) False by (cases ds) (auto simp: prefix_def)
    have "last ds \<in> set ds" using False by simp
    with Cons.prems(2) have "prefix ?T (entries (last ds) name)" by simp
    then obtain Y where Y: "S = ?T @ Y" using Cons.prems(6) False by (auto simp: prefix_def)
    have "foldE (stream_out_turn api b name) ds (c1, position_of ?T c1, reps @ reports_between b ?T c c1) =
        Inr (c', position_of S c', (reps @ reports_between b ?T c c1) @ reports_between b S c1 c') \<and> c1 < c' \<and> c' \<le> length S"
      by (rule Cons.IH)
         (use Cons.prems False c1 in \<open>simp_all add: c1_def [symmetric] X position_prefix\<close>)
    then show ?thesis
      using turn c1 reports_prefix [OF c1(2), of b Y c] reports_append [of c c1 c' b S] by (simp add: Y)
  qed
qed

end

section \<open>Writing numbered records\<close>

lemma mod_filter_Suc:
  "filter (\<lambda>i. i mod 1000 = 0) [2..<Suc (Suc n)] @ (if Suc (Suc n) mod 1000 = 0 then [Suc (Suc n)] else []) =
   filter (\<lambda>i. i mod 1000 = 0) [2..<Suc (Suc (Suc n))]"
  by simp

context stream_server
begin

lemma in_turn:
  assumes "plain_word name" "stream_ok (entries d name)"
  shows "\<exists>d' ts. stream_in_turn api name (d, n, claims) =
      (d', Suc n, if Suc n mod 1000 = 0 then claims @ [Suc n] else claims) \<and>
    entries d' = (entries d)(name := entries d name @ [sensor_record ts n]) \<and> stream_ok (entries d' name)"
proof -
  have "nul_free (xadd_command name n)"
    using plain_nul_free [OF assms(1)] nul_free_nat nul_free_literals unfolding xadd_command_def nul_free_append by blast
  then have raw: "redis_raw api d (xadd_command name n) = redisCommand api d (xadd_command name n) []"
    by (simp add: redis_raw_def)
  obtain r d' where cmd: "redisCommand api d (xadd_command name n) [] = (r, d')" by fastforce
  from cmd_xadd [OF assms(1) cmd] assms(2) obtain ts where
    "entries d' = (entries d)(name := entries d name @ [sensor_record ts n])" "stream_ok (entries d' name)" by blast
  with raw cmd show ?thesis by (auto simp: stream_in_turn_def)
qed

lemma in_run:
  assumes "plain_word name" "stream_ok (entries d name)"
  shows "\<exists>d' rs. (stream_in_turn api name ^^ n) (d, 1, []) =
      (d', Suc n, filter (\<lambda>i. i mod 1000 = 0) [2..<Suc (Suc n)]) \<and>
    entries d' = (entries d)(name := entries d name @ rs) \<and> stream_ok (entries d' name) \<and> length rs = n \<and>
    (\<forall>i < n. \<exists>ts. rs ! i = sensor_record ts (Suc i))"
proof (induction n)
  case 0
  then show ?case using assms(2) by (intro exI [of _ d] exI [of _ "[]"]) simp
next
  case (Suc n)
  then obtain d1 rs where IH: "(stream_in_turn api name ^^ n) (d, 1, []) =
      (d1, Suc n, filter (\<lambda>i. i mod 1000 = 0) [2..<Suc (Suc n)])"
    "entries d1 = (entries d)(name := entries d name @ rs)" "stream_ok (entries d1 name)" "length rs = n"
    "\<forall>i < n. \<exists>ts. rs ! i = sensor_record ts (Suc i)" by blast
  from in_turn [OF assms(1) IH(3), of "Suc n" "filter (\<lambda>i. i mod 1000 = 0) [2..<Suc (Suc n)]"]
  obtain d' ts where d': "stream_in_turn api name (d1, Suc n, filter (\<lambda>i. i mod 1000 = 0) [2..<Suc (Suc n)]) =
      (d', Suc (Suc n), filter (\<lambda>i. i mod 1000 = 0) [2..<Suc (Suc (Suc n))])"
    "entries d' = (entries d1)(name := entries d1 name @ [sensor_record ts (Suc n)])" "stream_ok (entries d' name)"
    using mod_filter_Suc [of n] by auto
  have run: "(stream_in_turn api name ^^ Suc n) (d, 1, []) =
      (d', Suc (Suc n), filter (\<lambda>i. i mod 1000 = 0) [2..<Suc (Suc (Suc n))])"
    using IH(1) d'(1) by simp
  have "\<exists>ts. (rs @ [sensor_record ts0 (Suc n)]) ! i = sensor_record ts (Suc i)" if "i < Suc n" for i ts0
    using IH(4,5) that by (cases "i = n") (auto simp: nth_append)
  with run d'(2,3) IH(2,4) show ?case
    by (intro exI [of _ d'] exI [of _ "rs @ [sensor_record ts (Suc n)]"]) simp
qed

end

section \<open>A server in memory\<close>

text \<open>A command as the client library splits it, at the blanks.\<close>

fun split_blanks :: "string \<Rightarrow> string list" where
  "split_blanks [] = [[]]"
| "split_blanks (c # cs) =
     (if c = CHR '' '' then [] # split_blanks cs
      else (case split_blanks cs of [] \<Rightarrow> [[c]] | w # ws \<Rightarrow> (c # w) # ws))"

lemma split_word: "CHR '' '' \<notin> set w \<Longrightarrow> split_blanks (w @ CHR '' '' # s) = w # split_blanks s"
  by (induction w) auto

lemma split_last_word: "CHR '' '' \<notin> set w \<Longrightarrow> split_blanks w = [w]"
  by (induction w) auto

lemma plain_no_blank: "plain_word w \<Longrightarrow> CHR '' '' \<notin> set w"
  by (auto simp: plain_word_def)

lemma digit_char_value: "d < 10 \<Longrightarrow> of_char (digit_char d) = 48 + d"
  by (simp add: digit_char_def)

lemma digits_value_string: "digits_value (string_of_nat n) = n"
proof (induction n rule: string_of_nat.induct)
  case (1 n)
  show ?case
  proof (cases "n < 10")
    case True
    then show ?thesis by (subst string_of_nat.simps) (simp add: digits_value_def digit_char_value)
  next
    case False
    with 1 show ?thesis by (subst string_of_nat.simps) (simp add: digits_value_def digit_char_value)
  qed
qed

type_synonym stream_db = "string \<Rightarrow> stream_record list"

text \<open>An identifier that is longer than all that are in use.\<close>

definition fresh_id :: "stream_record list \<Rightarrow> string" where
  "fresh_id rs = CHR ''1'' # concat (map sr_timestamp rs)"

definition memory_stream_command :: "stream_db \<Rightarrow> string \<Rightarrow> string list \<Rightarrow> redis_reply option \<times> stream_db" where
  "memory_stream_command m fmt args =
     (case split_blanks fmt of
        [cmd, name, star, f1, v1, f2, v2] \<Rightarrow>
          if cmd = ''XADD'' then
            (Some (RedisString (fresh_id (m name))),
             m(name := m name @ [\<lparr>sr_timestamp = fresh_id (m name), sr_fields = [(f1, v1), (f2, v2)]\<rparr>]))
          else (Some (RedisError ''ERR''), m)
      | [cmd, block, ms, count, n, streams, name, pos] \<Rightarrow>
          if cmd = ''XREAD'' then
            (Some (stream_reply [\<lparr>sp_stream_name = name, sp_records = take (digits_value n) (after pos (m name))\<rparr>]), m)
          else (Some (RedisError ''ERR''), m)
      | _ \<Rightarrow> (Some (RedisStatus ''OK''), m))"

definition memory_streams :: "stream_db redis_api" where
  "memory_streams = \<lparr>redisCommand = memory_stream_command, redisCommandArgv = (\<lambda>m args. (Some RedisNil, m))\<rparr>"

lemma split_xadd:
  "plain_word name \<Longrightarrow> split_blanks (xadd_command name n) =
     [''XADD'', name, ''*'', ''sensor-id'', ''1234'', ''temperature'', string_of_nat n]"
  using plain_no_blank [OF plain_nat [of n]] split_word [of name] plain_no_blank [of name]
  by (simp add: xadd_command_def split_last_word)

lemma split_xread:
  "plain_word name \<Longrightarrow> plain_word pos \<Longrightarrow> split_blanks (xread_command b name pos) =
     [''XREAD'', ''BLOCK'', ''0'', ''COUNT'', string_of_nat b, ''STREAMS'', name, pos]"
  using plain_no_blank [OF plain_nat [of b]] plain_no_blank [of name] plain_no_blank [of pos]
  by (simp add: xread_command_def split_last_word split_word)

lemma fresh_id_ok:
  assumes "stream_ok rs"
  shows "stream_ok (rs @ [sensor_record (fresh_id rs) n])"
proof -
  have longer: "length (sr_timestamp r) < length (fresh_id rs)" if "r \<in> set rs" for r
  proof -
    have "length (sr_timestamp r) \<le> sum_list (map (length \<circ> sr_timestamp) rs)"
      using that by (intro member_le_sum_list) auto
    then show ?thesis by (simp add: fresh_id_def length_concat)
  qed
  then have "fresh_id rs \<notin> sr_timestamp ` set rs" by force
  moreover have "plain_word (fresh_id rs)"
    using assms by (auto simp: stream_ok_def list_all_iff fresh_id_def plain_word_def)
  moreover from this have "record_ok (sensor_record (fresh_id rs) n)"
    using plain_nul_free nul_free_nat
    by (simp add: record_ok_def sensor_record_def smap_ok_def nul_free_def)
  moreover have "fresh_id rs \<noteq> ''0''" by (simp add: fresh_id_def)
  ultimately show ?thesis using assms by (simp add: stream_ok_def sensor_record_def)
qed

lemma memory_stream_server: "stream_server memory_streams (\<lambda>m. m)"
proof
  fix name d n r d'
  assume "plain_word name" "redisCommand memory_streams d (xadd_command name n) [] = (r, d')"
  then have "d' = d(name := d name @ [sensor_record (fresh_id (d name)) n])"
    by (simp add: memory_streams_def memory_stream_command_def split_xadd sensor_record_def)
  then show "\<exists>ts. d' = d(name := d name @ [sensor_record ts n]) \<and> (stream_ok (d name) \<longrightarrow> stream_ok (d' name))"
    using fresh_id_ok by (intro exI [of _ "fresh_id (d name)"]) simp
next
  fix name pos :: string and b :: nat and d :: stream_db
  assume name: "plain_word name" and b: "0 < b" and ok: "stream_ok (d name)"
    and pos: "pos = ''0'' \<or> pos \<in> sr_timestamp ` set (d name)"
  have "plain_word pos"
    using pos ok by (auto simp: stream_ok_def list_all_iff plain_word_def)
  then show "fst (redisCommand memory_streams d (xread_command b name pos) []) =
      Some (stream_reply [\<lparr>sp_stream_name = name, sp_records = take b (after pos (d name))\<rparr>])"
    using name by (simp add: memory_streams_def memory_stream_command_def split_xread digits_value_string)
qed

interpretation memory_streams: stream_server memory_streams "\<lambda>m. m"
  by (rule memory_stream_server)

section \<open>Properties\<close>

lemma temperature_of_sensor [simp]: "temperature_of (sensor_record ts n) = string_of_nat n"
  by (simp add: temperature_of_def sensor_record_def smap_get_def)

lemma batches:
  "c \<le> n \<Longrightarrow> consumed b c (replicate k n) = min (c + k * b) n"
  "c + k * b < n + b \<Longrightarrow> supplied b c (replicate k n)"
proof -
  show "c \<le> n \<Longrightarrow> consumed b c (replicate k n) = min (c + k * b) n"
    by (induction k arbitrary: c) (simp_all add: min_def)
  show "c + k * b < n + b \<Longrightarrow> supplied b c (replicate k n)"
  proof (induction k arbitrary: c)
    case (Suc k)
    show ?case
    proof (cases "c + b \<le> n")
      case False
      with Suc.prems have "k = 0" by (cases k) auto
      with False Suc.prems show ?thesis by simp
    qed (use Suc in simp)
  qed simp
qed

text \<open>The number of reads of \<open>b\<close> that \<open>n\<close> records need.\<close>

definition reads_for :: "nat \<Rightarrow> nat \<Rightarrow> nat" where
  "reads_for b n = (n + b - 1) div b"

lemma reads_for_all:
  assumes "0 < b" "0 < n"
  shows "0 < reads_for b n" "consumed b 0 (replicate (reads_for b n) n) = n" "supplied b 0 (replicate (reads_for b n) n)"
proof -
  have "(n + b - 1) div b * b + (n + b - 1) mod b = n + b - 1" "(n + b - 1) mod b < b" using assms(1) by simp_all
  then have bounds: "n \<le> reads_for b n * b" "reads_for b n * b < n + b"
    using assms unfolding reads_for_def by linarith+
  then show "0 < reads_for b n" using assms(2) by (metis gr0I le_zero_eq mult_0 neq0_conv)
  show "consumed b 0 (replicate (reads_for b n) n) = n" using batches(1) [of 0 n b "reads_for b n"] bounds(1) by simp
  show "supplied b 0 (replicate (reads_for b n) n)" using batches(2) [of 0 "reads_for b n" b n] bounds(2) by simp
qed

lemma out_run_from_start:
  assumes "stream_server api entries" "plain_word name" "0 < b" "ds \<noteq> []"
    and "\<forall>d \<in> set ds. stream_ok (entries d name)"
    and "sorted_wrt (\<lambda>d d'. prefix (entries d name) (entries d' name)) ds"
    and "supplied b 0 (map (\<lambda>d. length (entries d name)) ds)"
    and "S = entries (last ds) name" "c = consumed b 0 (map (\<lambda>d. length (entries d name)) ds)"
  shows "0 < c \<and> c \<le> length S \<and> stream_out_run api b name ds = Inr (c, sr_timestamp (S ! (c - 1)),
    map (\<lambda>i. (sr_timestamp (S ! (i - 1)), i, temperature_of (S ! (i - 1)))) (filter (\<lambda>i. i mod b = 0) [1..<Suc c]))"
  using stream_server.out_run [OF assms(1-3,5,6,4,7), of "''0''" S c "[]"] assms(8,9)
  by (simp add: stream_out_run_def position_of_def reports_between_def)

text \<open>
  C12: \<open>redis-stream-out\<close> misses no record and counts none twice: while others append to the stream between
  its reads, with something new for each read, the counter is the number of records up to its position,
  and the reports are those of every record whose number is a multiple of the batch size, in order.
\<close>

theorem stream_out_counts_every_record:
  assumes "stream_server api entries" "plain_word name" "0 < b" "ds \<noteq> []"
    and "\<forall>d \<in> set ds. stream_ok (entries d name)"
    and "sorted_wrt (\<lambda>d d'. prefix (entries d name) (entries d' name)) ds"
    and "supplied b 0 (map (\<lambda>d. length (entries d name)) ds)"
    and "S = entries (last ds) name" "c = consumed b 0 (map (\<lambda>d. length (entries d name)) ds)"
  shows "0 < c \<and> c \<le> length S \<and> stream_out_run api b name ds = Inr (c, sr_timestamp (S ! (c - 1)),
    map (\<lambda>i. (sr_timestamp (S ! (i - 1)), i, temperature_of (S ! (i - 1)))) (filter (\<lambda>i. i mod b = 0) [1..<Suc c]))"
  by (rule out_run_from_start [OF assms])

theorem stream_out_counts_every_record_witness:
  "let r = (\<lambda>i. sensor_record (replicate i (CHR ''1'')) i); m = (\<lambda>n k. map r [1..<Suc n])
   in stream_out_run memory_streams 2 ''s'' [m 1, m 4] = Inr (3, ''111'', [(''11'', 2, ''2'')])"
proof -
  define r where "r = (\<lambda>i. sensor_record (replicate i (CHR ''1'')) i)"
  define m :: "nat \<Rightarrow> stream_db" where "m = (\<lambda>n k. map r [1..<Suc n])"
  have ts: "sr_timestamp (r i) = replicate i (CHR ''1'')" for i by (simp add: r_def sensor_record_def)
  have two: "string_of_nat 2 = ''2''" by code_simp
  have ok: "stream_ok (m n k)" for n k
  proof -
    have "distinct (map (\<lambda>i. replicate i (CHR ''1'')) [1..<Suc n])"
      by (simp add: distinct_map inj_on_def replicate_eq_replicate)
    moreover have "plain_word (replicate i (CHR ''1''))" "record_ok (r i)" if "1 \<le> i" for i
      using that nul_free_nat [of i]
      by (auto simp: plain_word_def record_ok_def r_def sensor_record_def smap_ok_def nul_free_def)
    moreover have "replicate i (CHR ''1'') \<noteq> ''0''" for i
    proof
      assume "replicate i (CHR ''1'') = ''0''"
      then have "set (replicate i (CHR ''1'')) = {CHR ''0''}" by simp
      then show False by (cases i) auto
    qed
    ultimately show ?thesis by (auto simp: stream_ok_def m_def ts list_all_iff comp_def)
  qed
  have lists: "[1..<Suc 1] = [1 :: nat]" "[1..<Suc 4] = [1, 2, 3, 4 :: nat]" by code_simp+
  then have m: "m 1 ''s'' = [r 1]" "m 4 ''s'' = [r 1, r 2, r 3, r 4]" unfolding m_def by simp_all
  then have "prefix (m 1 ''s'') (m 4 ''s'')" by simp
  then have sorted: "sorted_wrt (\<lambda>d d'. prefix (d ''s'') (d' ''s'')) [m 1, m 4]" by simp
  have given: "supplied 2 0 (map (\<lambda>d. length (d ''s'')) [m 1, m 4])"
    "3 = consumed 2 0 (map (\<lambda>d. length (d ''s'')) [m 1, m 4])" unfolding list.map m by simp_all
  have "plain_word ''s''" by (simp add: plain_word_def)
  from stream_out_counts_every_record [OF memory_stream_server this _ _ _ sorted given(1) refl given(2)] ok
  have "stream_out_run memory_streams 2 ''s'' [m 1, m 4] = Inr (3, sr_timestamp (m 4 ''s'' ! 2),
    map (\<lambda>i. (sr_timestamp (m 4 ''s'' ! (i - 1)), i, temperature_of (m 4 ''s'' ! (i - 1))))
      (filter (\<lambda>i. i mod 2 = 0) [1..<4]))"
    by simp
  moreover have "filter (\<lambda>i. i mod 2 = 0) [1..<4] = [2 :: nat]" by code_simp
  moreover have "temperature_of (r 2) = ''2''" unfolding r_def by (simp add: two)
  moreover have "sr_timestamp (r 2) = ''11''" "sr_timestamp (r 3) = ''111''" by (simp_all add: ts numeral_eq_Suc)
  ultimately have "stream_out_run memory_streams 2 ''s'' [m 1, m 4] = Inr (3, ''111'', [(''11'', 2, ''2'')])"
    by (simp add: m(2))
  then show ?thesis unfolding Let_def m_def r_def .
qed

text \<open>
  C13: The two programs together: what \<open>redis-stream-in\<close> writes in \<open>n\<close> turns to an empty stream is \<open>n\<close> records
  that carry their own numbers as temperatures, and \<open>redis-stream-out\<close> then reads all of them in as many
  turns as they fill batches, the last of which may be short: its counter is \<open>n\<close>, its position is that of
  the last record, and its lines, one for every record whose number is a multiple of the batch size, name
  that record's place, number and temperature, in order. The writer's log claims a number of records one
  turn too early, when it has sent one less.
\<close>

theorem stream_in_then_out:
  assumes "stream_server api entries" "plain_word name" "entries d name = []" "0 < b"
    and "(stream_in_turn api name ^^ n) (d, 1, []) = (d', counter, claims)" "0 < n"
  shows "map temperature_of (entries d' name) = map string_of_nat [1..<Suc n] \<and>
    claims = filter (\<lambda>i. i mod 1000 = 0) [2..<n + 2] \<and>
    stream_out_run api b name (replicate (reads_for b n) d') = Inr (n, sr_timestamp (last (entries d' name)),
      map (\<lambda>i. (sr_timestamp (entries d' name ! (i - 1)), i, string_of_nat i)) (filter (\<lambda>i. i mod b = 0) [1..<Suc n]))"
proof -
  let ?k = "reads_for b n"
  have "stream_ok (entries d name)" by (simp add: assms(3) stream_ok_def)
  from stream_server.in_run [OF assms(1,2) this, of n] assms(3,5) obtain rs where
    rs: "entries d' name = rs" "stream_ok rs" "length rs = n" "\<forall>i < n. \<exists>ts. rs ! i = sensor_record ts (Suc i)"
    and claims: "claims = filter (\<lambda>i. i mod 1000 = 0) [2..<Suc (Suc n)]" by auto
  have temp: "temperature_of (rs ! i) = string_of_nat (Suc i)" if "i < n" for i
    using rs(4) that by fastforce
  have temps: "map temperature_of rs = map string_of_nat [1..<Suc n]"
    using temp rs(3) by (intro nth_equalityI) (simp_all del: upt_Suc)
  have len: "map (\<lambda>d. length (entries d name)) (replicate ?k d') = replicate ?k n" by (simp add: rs)
  note reads = reads_for_all [OF assms(4,6)]
  have same: "replicate ?k d' \<noteq> []" "last (replicate ?k d') = d'"
    "sorted_wrt (\<lambda>d d'. prefix (entries d name) (entries d' name)) (replicate ?k d')"
    "\<forall>d \<in> set (replicate ?k d'). stream_ok (entries d name)"
    using reads(1) rs(1,2) by (simp_all add: sorted_wrt_iff_nth_less)
  have run: "stream_out_run api b name (replicate ?k d') = Inr (n, sr_timestamp (rs ! (n - 1)),
    map (\<lambda>i. (sr_timestamp (rs ! (i - 1)), i, temperature_of (rs ! (i - 1)))) (filter (\<lambda>i. i mod b = 0) [1..<Suc n]))"
    by (rule out_run_from_start [OF assms(1,2,4) same(1,4,3), THEN conjunct2, THEN conjunct2])
       (simp_all only: same(2) len reads rs(1))
  have lines: "map (\<lambda>i. (sr_timestamp (rs ! (i - 1)), i, temperature_of (rs ! (i - 1)))) (filter (\<lambda>i. i mod b = 0) [1..<Suc n]) =
      map (\<lambda>i. (sr_timestamp (rs ! (i - 1)), i, string_of_nat i)) (filter (\<lambda>i. i mod b = 0) [1..<Suc n])"
  proof (rule map_cong [OF refl])
    fix i assume "i \<in> set (filter (\<lambda>i. i mod b = 0) [1..<Suc n])"
    then have "i - 1 < n" "Suc (i - 1) = i" by auto
    with temp [of "i - 1"] show "(sr_timestamp (rs ! (i - 1)), i, temperature_of (rs ! (i - 1))) =
      (sr_timestamp (rs ! (i - 1)), i, string_of_nat i)" by simp
  qed
  have "rs \<noteq> []" using rs(3) assms(6) by auto
  then have last: "rs ! (n - 1) = last rs" by (simp add: last_conv_nth rs(3))
  show ?thesis
    unfolding rs(1) by (intro conjI temps run [unfolded lines last]) (simp only: claims add_2_eq_Suc')
qed

theorem stream_in_then_out_witness:
  "\<exists>d' counter claims. (stream_in_turn memory_streams ''s'' ^^ 5) (\<lambda>_. [], 1, []) = (d', counter, claims) \<and>
     map temperature_of (d' ''s'') = [''1'', ''2'', ''3'', ''4'', ''5''] \<and>
     stream_out_run memory_streams 2 ''s'' [d', d', d'] = Inr (5, sr_timestamp (last (d' ''s'')),
       [(sr_timestamp (d' ''s'' ! 1), 2, ''2''), (sr_timestamp (d' ''s'' ! 3), 4, ''4'')])"
proof -
  obtain d' counter claims where run: "(stream_in_turn memory_streams ''s'' ^^ 5) (\<lambda>_. [], 1, []) = (d', counter, claims)"
    by (metis prod_cases3)
  have texts: "string_of_nat 2 = ''2''" "string_of_nat 4 = ''4''"
    "map string_of_nat [1..<Suc 5] = [''1'', ''2'', ''3'', ''4'', ''5'']" by code_simp+
  have "reads_for 2 5 = 3" by (simp add: reads_for_def)
  then have "replicate (reads_for 2 5) d' = [d', d', d']" by (simp only: numeral_3_eq_3 replicate.simps)
  moreover have "filter (\<lambda>i. i mod 2 = 0) [1..<Suc 5] = [2, 4 :: nat]" by code_simp
  moreover have "plain_word ''s''" by (simp add: plain_word_def)
  ultimately have "map temperature_of (d' ''s'') = [''1'', ''2'', ''3'', ''4'', ''5''] \<and>
     stream_out_run memory_streams 2 ''s'' [d', d', d'] = Inr (5, sr_timestamp (last (d' ''s'')),
       [(sr_timestamp (d' ''s'' ! 1), 2, ''2''), (sr_timestamp (d' ''s'' ! 3), 4, ''4'')])"
    using stream_in_then_out [OF memory_stream_server _ refl _ run, of 2]
    by (simp only: texts list.map) simp
  with run show ?thesis by (intro exI [of _ d'] exI [of _ counter] exI [of _ claims] conjI) simp_all
qed

text \<open>With the option \<open>-b 0\<close>, or any text without a digit, the first record is a division by zero.\<close>

lemma stream_out_zero_batch:
  "stream_out_options [(CHR ''b'', ''x''), (CHR ''s'', name)] st = Inr (name, 0)"
  "count_record 0 r st' = Inl (Thrown ''division by zero'')"
proof -
  show "stream_out_options [(CHR ''b'', ''x''), (CHR ''s'', name)] st = Inr (name, 0)"
    by (cases st) (simp add: atoi_def is_digit_def)
  show "count_record 0 r st' = Inl (Thrown ''division by zero'')" by (cases st') (simp add: count_record_def)
qed

end
