(* ===== verification/Graph.thy ===== *)
theory Graph
  imports Prelude
begin

text \<open>
  The graph library's data, \<^verbatim>\<open>pmud/graph/include/vertex.h\<close> and \<^verbatim>\<open>graph.h\<close>, and the helpers of
  \<^verbatim>\<open>common.h\<close>: adjacency lists over the indices 0..V-1. An index is an \<open>int\<close>; an access outside a
  vector is a fault. \<open>Graph<>\<close> is the instance whose vertices carry an optional \<open>int\<close>.
\<close>

section \<open>Vertices\<close>

record vertex =
  vx_index :: int
  vx_data :: "int option"
  vx_adj :: "int list"

definition vertex_new :: "int \<Rightarrow> vertex" where
  "vertex_new index = \<lparr>vx_index = index, vx_data = None, vx_adj = []\<rparr>"

definition index :: "vertex \<Rightarrow> int" where
  "index x = vx_index x"

definition adjSize :: "vertex \<Rightarrow> nat" where
  "adjSize x = length (vx_adj x)"

definition adj_at :: "vertex \<Rightarrow> nat \<Rightarrow> fault + int" where
  "adj_at x v = vec_at (vx_adj x) v"

definition addAdj :: "int \<Rightarrow> vertex \<Rightarrow> vertex" where
  "addAdj v x = x\<lparr>vx_adj := vx_adj x @ [v]\<rparr>"

definition clearAdj :: "vertex \<Rightarrow> vertex" where
  "clearAdj x = x\<lparr>vx_adj := []\<rparr>"

text \<open>\<open>output << vertex\<close>\<close>

definition show_vertex :: "vertex \<Rightarrow> string" where
  "show_vertex x = string_of_int (case vx_data x of None \<Rightarrow> vx_index x | Some d \<Rightarrow> d)"

section \<open>Graphs\<close>

datatype graph_type = GRAPHTYPE_DIRECTED | GRAPHTYPE_UNDIRECTED

record graph =
  g_vertices :: "vertex list"
  g_V :: int
  g_directed :: graph_type

definition graph_new :: "int \<Rightarrow> graph_type \<Rightarrow> graph" where
  "graph_new numVertices directed =
     \<lparr>g_vertices = map vertex_new [0..numVertices - 1], g_V = numVertices, g_directed = directed\<rparr>"

definition isDirected :: "graph \<Rightarrow> bool" where
  "isDirected g \<longleftrightarrow> g_directed g = GRAPHTYPE_DIRECTED"

definition numVertices :: "graph \<Rightarrow> int" where
  "numVertices g = g_V g"

definition graph_vertex :: "graph \<Rightarrow> int \<Rightarrow> fault + vertex" where
  "graph_vertex g u = ivec_at (g_vertices g) u"

definition addDirectedEdge :: "int \<Rightarrow> int \<Rightarrow> graph \<Rightarrow> fault + graph" where
  "addDirectedEdge u v g =
     bindE (ivec_at (g_vertices g) u) (\<lambda>x.
       if v \<notin> set (vx_adj x)
       then Inr (g\<lparr>g_vertices := (g_vertices g)[nat u := addAdj v x]\<rparr>)
       else Inr g)"

definition addEdge :: "int \<Rightarrow> int \<Rightarrow> graph \<Rightarrow> fault + graph" where
  "addEdge u v g =
     bindE (addDirectedEdge u v g) (\<lambda>g1.
       if g_directed g1 = GRAPHTYPE_UNDIRECTED then addDirectedEdge v u g1 else Inr g1)"

text \<open>The copy constructor.\<close>

definition graph_copy :: "graph \<Rightarrow> fault + graph" where
  "graph_copy rhs =
     foldE (\<lambda>x g. foldE (\<lambda>y g. addDirectedEdge (vx_index x) y g) (vx_adj x) g)
       (g_vertices rhs) (graph_new (g_V rhs) (g_directed rhs))"

text \<open>
  Move assignment: the target takes everything, and the source is left with its count \<open>V\<close> but without the
  vertices, which have been moved out.
\<close>

definition graph_move :: "graph \<Rightarrow> graph \<times> graph" where
  "graph_move other =
     (\<lparr>g_vertices = g_vertices other, g_V = g_V other, g_directed = g_directed other\<rparr>,
      other\<lparr>g_vertices := []\<rparr>)"

definition transpose_graph :: "graph \<Rightarrow> fault + graph" where
  "transpose_graph g =
     bindE (graph_copy g) (\<lambda>temp.
       if g_directed g = GRAPHTYPE_UNDIRECTED then Inr temp
       else
         foldE (\<lambda>x t. foldE (\<lambda>y t. addDirectedEdge y (vx_index x) t) (vx_adj x) t)
           (g_vertices g) (temp\<lparr>g_vertices := map clearAdj (g_vertices temp)\<rparr>))"

section \<open>Helpers\<close>

definition INVALID_VERTEX :: int where "INVALID_VERTEX = -1"

definition addEdgesAllConnect :: "graph \<Rightarrow> fault + graph" where
  "addEdgesAllConnect g =
     (let N = g_V g in
      foldE (\<lambda>i g. foldE (\<lambda>j g. if i \<noteq> j then addEdge i j g else Inr g) [0..N - 1] g) [0..N - 1] g)"

text \<open>\<open>rand\<close> is the environment: the draws in the order in which they are made.\<close>

fun addEdgesRandom :: "(int \<times> int) list \<Rightarrow> graph \<Rightarrow> fault + graph" where
  "addEdgesRandom [] g = Inr g"
| "addEdgesRandom ((r1, r2) # rs) g =
     (if g_V g = 0 then Inl (Thrown ''division by zero'')
      else bindE (addEdge (r1 mod g_V g) (r2 mod g_V g) g) (addEdgesRandom rs))"

section \<open>Well-formed graphs\<close>

definition vertex_ok :: "int \<Rightarrow> vertex \<Rightarrow> bool" where
  "vertex_ok n x \<longleftrightarrow> distinct (vx_adj x) \<and> (\<forall>v \<in> set (vx_adj x). 0 \<le> v \<and> v < n)"

definition graph_ok :: "graph \<Rightarrow> bool" where
  "graph_ok g \<longleftrightarrow>
     0 \<le> g_V g \<and> map vx_index (g_vertices g) = [0..g_V g - 1] \<and>
     (\<forall>x \<in> set (g_vertices g). vertex_ok (g_V g) x \<and> vx_data x = None)"

text \<open>The neighbours of an index, and the edges.\<close>

definition adj_of :: "graph \<Rightarrow> int \<Rightarrow> int list" where
  "adj_of g u = (if 0 \<le> u \<and> u < int (length (g_vertices g)) then vx_adj (g_vertices g ! nat u) else [])"

definition edges :: "graph \<Rightarrow> (int \<times> int) set" where
  "edges g = {(u, v). v \<in> set (adj_of g u)}"

lemma graph_ok_length: "graph_ok g \<Longrightarrow> int (length (g_vertices g)) = g_V g"
proof -
  assume "graph_ok g"
  then have "length (map vx_index (g_vertices g)) = length [0..g_V g - 1]" "0 \<le> g_V g"
    by (simp_all add: graph_ok_def)
  then show ?thesis by simp
qed

lemma graph_ok_index:
  assumes "graph_ok g" "i < length (g_vertices g)"
  shows "vx_index (g_vertices g ! i) = int i"
proof -
  have "map vx_index (g_vertices g) ! i = [0..g_V g - 1] ! i"
    using assms(1) by (simp add: graph_ok_def)
  moreover have "int i < g_V g" using assms graph_ok_length by fastforce
  ultimately show ?thesis using assms(2) by simp
qed

lemma vertex_in_range:
  assumes "graph_ok g" "0 \<le> u" "u < g_V g"
  shows "\<exists>x. ivec_at (g_vertices g) u = Inr x \<and> vx_adj x = adj_of g u \<and> vx_index x = u \<and>
    x \<in> set (g_vertices g)"
proof -
  have "u < int (length (g_vertices g))" using assms graph_ok_length by simp
  with assms graph_ok_index [OF assms(1), of "nat u"] show ?thesis by (auto simp: adj_of_def)
qed

lemma adj_in_range:
  assumes "graph_ok g" "v \<in> set (adj_of g u)"
  shows "0 \<le> v \<and> v < g_V g \<and> 0 \<le> u \<and> u < g_V g"
proof -
  have u: "0 \<le> u" "u < int (length (g_vertices g))" using assms(2) by (auto simp: adj_of_def split: if_splits)
  then have "g_vertices g ! nat u \<in> set (g_vertices g)" by simp
  with assms(1) have "vertex_ok (g_V g) (g_vertices g ! nat u)" by (simp add: graph_ok_def)
  with u assms graph_ok_length [OF assms(1)] show ?thesis by (simp add: adj_of_def vertex_ok_def)
qed

lemma graph_new_ok:
  "0 \<le> n \<Longrightarrow> graph_ok (graph_new n ty) \<and> edges (graph_new n ty) = {} \<and> g_V (graph_new n ty) = n \<and>
   g_directed (graph_new n ty) = ty"
  by (auto simp: graph_ok_def graph_new_def vertex_new_def comp_def vertex_ok_def edges_def adj_of_def)

text \<open>Adding one edge between vertices of the graph succeeds and adds exactly that edge.\<close>

lemma addDirectedEdge_ok:
  assumes "graph_ok g" "0 \<le> u" "u < g_V g" "0 \<le> v" "v < g_V g"
  shows "\<exists>g'. addDirectedEdge u v g = Inr g' \<and> graph_ok g' \<and> edges g' = insert (u, v) (edges g) \<and>
    g_V g' = g_V g \<and> g_directed g' = g_directed g"
proof -
  let ?x = "g_vertices g ! nat u"
  have len: "u < int (length (g_vertices g))" using assms graph_ok_length by simp
  show ?thesis
  proof (cases "v \<in> set (vx_adj ?x)")
    case True
    with assms len show ?thesis by (auto simp: addDirectedEdge_def edges_def adj_of_def)
  next
    case False
    let ?g = "g\<lparr>g_vertices := (g_vertices g)[nat u := addAdj v ?x]\<rparr>"
    have idx: "map vx_index (g_vertices ?g) = map vx_index (g_vertices g)"
    proof -
      have "vx_index (addAdj v ?x) = map vx_index (g_vertices g) ! nat u"
        using len assms(2) by (simp add: addAdj_def)
      then show ?thesis by (simp add: map_update del: nth_map)
    qed
    have "vertex_ok (g_V g) ?x \<and> vx_data ?x = None" using assms len by (simp add: graph_ok_def)
    then have "vertex_ok (g_V g) (addAdj v ?x) \<and> vx_data (addAdj v ?x) = None"
      using assms False by (simp add: vertex_ok_def addAdj_def)
    with assms(1) idx have "graph_ok ?g"
      by (auto simp: graph_ok_def dest: set_update_subset_insert [THEN subsetD])
    moreover have "edges ?g = insert (u, v) (edges g)"
      using assms len by (auto simp: edges_def adj_of_def addAdj_def nth_list_update split: if_splits)
    ultimately show ?thesis using assms len False by (simp add: addDirectedEdge_def)
  qed
qed

section \<open>Loops that add edges\<close>

lemma add_edges_ok:
  assumes "graph_ok g" "\<forall>(u, v) \<in> set es. 0 \<le> u \<and> u < g_V g \<and> 0 \<le> v \<and> v < g_V g"
  shows "\<exists>g'. foldE (\<lambda>(u, v). addDirectedEdge u v) es g = Inr g' \<and> graph_ok g' \<and>
    edges g' = set es \<union> edges g \<and> g_V g' = g_V g \<and> g_directed g' = g_directed g"
proof (rule foldE_visited [where I = "\<lambda>ys g'. graph_ok g' \<and> edges g' = set ys \<union> edges g \<and>
      g_V g' = g_V g \<and> g_directed g' = g_directed g"])
  show "graph_ok g \<and> edges g = set [] \<union> edges g \<and> g_V g = g_V g \<and> g_directed g = g_directed g"
    using assms(1) by simp
next
  fix ys e zs g1
  assume es: "es = ys @ e # zs" and g1: "graph_ok g1 \<and> edges g1 = set ys \<union> edges g \<and>
      g_V g1 = g_V g \<and> g_directed g1 = g_directed g"
  obtain u v where e: "e = (u, v)" by (cases e)
  have "0 \<le> u" "u < g_V g1" "0 \<le> v" "v < g_V g1" using assms(2) es e g1 by auto
  with addDirectedEdge_ok [of g1 u v] g1 obtain g2 where "addDirectedEdge u v g1 = Inr g2" "graph_ok g2"
    "edges g2 = insert (u, v) (edges g1)" "g_V g2 = g_V g1" "g_directed g2 = g_directed g1" by blast
  with g1 e show "\<exists>s'. (case e of (u, v) \<Rightarrow> addDirectedEdge u v) g1 = Inr s' \<and> graph_ok s' \<and>
      edges s' = set (ys @ [e]) \<union> edges g \<and> g_V s' = g_V g \<and> g_directed s' = g_directed g"
    by auto
qed

definition edge_list :: "graph \<Rightarrow> (int \<times> int) list" where
  "edge_list g = concat (map (\<lambda>x. map (Pair (vx_index x)) (vx_adj x)) (g_vertices g))"

lemma set_edge_list:
  assumes "graph_ok g"
  shows "set (edge_list g) = edges g"
proof -
  have "(u, v) \<in> set (edge_list g) \<longleftrightarrow> (u, v) \<in> edges g" for u v
  proof
    assume "(u, v) \<in> set (edge_list g)"
    then obtain x where x: "x \<in> set (g_vertices g)" "vx_index x = u" "v \<in> set (vx_adj x)"
      by (auto simp: edge_list_def)
    from x(1) obtain i where "i < length (g_vertices g)" "g_vertices g ! i = x" by (metis in_set_conv_nth)
    with graph_ok_index [OF assms, of i] x show "(u, v) \<in> edges g" by (auto simp: edges_def adj_of_def)
  next
    assume "(u, v) \<in> edges g"
    then have v: "v \<in> set (adj_of g u)" by (simp add: edges_def)
    from vertex_in_range [OF assms] adj_in_range [OF assms v] obtain x where
      "x \<in> set (g_vertices g)" "vx_index x = u" "vx_adj x = adj_of g u" by blast
    with v show "(u, v) \<in> set (edge_list g)" by (force simp: edge_list_def)
  qed
  then show ?thesis by auto
qed

lemma edge_list_range:
  assumes "graph_ok g" "(u, v) \<in> set (edge_list g)"
  shows "0 \<le> u \<and> u < g_V g \<and> 0 \<le> v \<and> v < g_V g"
  using assms adj_in_range [OF assms(1), of v u] by (simp add: set_edge_list edges_def)

lemma foldE_edge_list:
  "foldE (\<lambda>x s. foldE (\<lambda>y s. f (vx_index x) y s) (vx_adj x) s) (g_vertices g) s =
   foldE (\<lambda>(u, v). f u v) (edge_list g) s"
proof -
  have "edge_list g = map (\<lambda>(x, y). (vx_index x, y)) (concat (map (\<lambda>x. map (Pair x) (vx_adj x)) (g_vertices g)))"
    by (simp add: edge_list_def map_concat comp_def)
  then show ?thesis
    by (simp add: foldE_nested foldE_map case_prod_beta')
qed

text \<open>The target of a move is the old graph; the source must not be asked for a vertex it still counts.\<close>

lemma graph_move_ok:
  "graph_ok g \<Longrightarrow> graph_ok (fst (graph_move g)) \<and> edges (fst (graph_move g)) = edges g"
  "addDirectedEdge u v (snd (graph_move g)) = Inl OutOfBounds"
  by (simp_all add: graph_move_def graph_ok_def edges_def adj_of_def addDirectedEdge_def ivec_at_def)

lemma graph_copy_ok:
  assumes "graph_ok g"
  shows "\<exists>g'. graph_copy g = Inr g' \<and> graph_ok g' \<and> edges g' = edges g \<and> g_V g' = g_V g \<and>
    g_directed g' = g_directed g"
proof -
  let ?n = "graph_new (g_V g) (g_directed g)"
  have new: "graph_ok ?n" "edges ?n = {}" "g_V ?n = g_V g" "g_directed ?n = g_directed g"
    using graph_new_ok [of "g_V g" "g_directed g"] assms by (simp_all add: graph_ok_def [of g])
  from add_edges_ok [OF new(1), of "edge_list g"] edge_list_range [OF assms] new
  show ?thesis
    by (auto simp: graph_copy_def foldE_edge_list set_edge_list [OF assms])
qed

lemma transpose_ok:
  assumes "graph_ok g"
  shows "\<exists>g'. transpose_graph g = Inr g' \<and> graph_ok g' \<and> g_V g' = g_V g \<and> g_directed g' = g_directed g \<and>
    edges g' = (if isDirected g then (edges g)\<inverse> else edges g)"
proof -
  from graph_copy_ok [OF assms] obtain c where c: "graph_copy g = Inr c" "graph_ok c" "edges c = edges g"
    "g_V c = g_V g" "g_directed c = g_directed g" by blast
  show ?thesis
  proof (cases "g_directed g")
    case GRAPHTYPE_UNDIRECTED
    with c show ?thesis by (simp add: transpose_graph_def isDirected_def)
  next
    case GRAPHTYPE_DIRECTED
    let ?c = "c\<lparr>g_vertices := map clearAdj (g_vertices c)\<rparr>"
    have ok: "graph_ok ?c" "edges ?c = {}"
      using c(2) by (auto simp: graph_ok_def clearAdj_def comp_def vertex_ok_def edges_def adj_of_def)
    have "foldE (\<lambda>x t. foldE (\<lambda>y t. addDirectedEdge y (vx_index x) t) (vx_adj x) t) (g_vertices g) ?c =
        foldE (\<lambda>(u, v). addDirectedEdge u v) (map prod.swap (edge_list g)) ?c"
      using foldE_edge_list [of "\<lambda>u v t. addDirectedEdge v u t" g ?c]
      by (simp add: foldE_map prod.swap_def case_prod_beta')
    moreover from add_edges_ok [OF ok(1), of "map prod.swap (edge_list g)"] edge_list_range [OF assms]
    obtain t where "foldE (\<lambda>(u, v). addDirectedEdge u v) (map prod.swap (edge_list g)) ?c = Inr t"
      "graph_ok t" "edges t = set (map prod.swap (edge_list g)) \<union> edges ?c" "g_V t = g_V ?c"
      "g_directed t = g_directed ?c"
      using c(4) by fastforce
    moreover have "set (map prod.swap (edge_list g)) = (edges g)\<inverse>"
      by (force simp: set_edge_list [OF assms] image_iff)
    ultimately show ?thesis
      using GRAPHTYPE_DIRECTED c(1,4,5) ok(2) by (simp add: transpose_graph_def isDirected_def)
  qed
qed

lemma addEdge_ok:
  assumes "graph_ok g" "0 \<le> u" "u < g_V g" "0 \<le> v" "v < g_V g"
  shows "\<exists>g'. addEdge u v g = Inr g' \<and> graph_ok g' \<and> g_V g' = g_V g \<and> g_directed g' = g_directed g \<and>
    edges g' = (if isDirected g then {(u, v)} else {(u, v), (v, u)}) \<union> edges g"
proof -
  from addDirectedEdge_ok [OF assms] obtain g1 where g1: "addDirectedEdge u v g = Inr g1" "graph_ok g1"
    "edges g1 = insert (u, v) (edges g)" "g_V g1 = g_V g" "g_directed g1 = g_directed g" by blast
  show ?thesis
  proof (cases "g_directed g")
    case GRAPHTYPE_DIRECTED
    with g1 show ?thesis by (simp add: addEdge_def isDirected_def)
  next
    case GRAPHTYPE_UNDIRECTED
    with addDirectedEdge_ok [OF g1(2), of v u] g1 assms show ?thesis
      by (auto simp: addEdge_def isDirected_def)
  qed
qed

section \<open>Complete graphs\<close>

lemma addEdgesAllConnect_ok:
  assumes "graph_ok g"
  shows "\<exists>g'. addEdgesAllConnect g = Inr g' \<and> graph_ok g' \<and> g_V g' = g_V g \<and> g_directed g' = g_directed g \<and>
    edges g' = {(i, j). 0 \<le> i \<and> i < g_V g \<and> 0 \<le> j \<and> j < g_V g \<and> i \<noteq> j} \<union> edges g"
proof -
  let ?N = "g_V g"
  let ?ps = "concat (map (\<lambda>i. map (Pair i) [0..?N - 1]) [0..?N - 1])"
  let ?f = "\<lambda>(i, j) g. if i \<noteq> j then addEdge i j g else Inr g"
  let ?I = "\<lambda>ys g'. graph_ok g' \<and> g_V g' = ?N \<and> g_directed g' = g_directed g \<and>
    {(i, j) \<in> set ys. i \<noteq> j} \<union> edges g \<subseteq> edges g' \<and>
    edges g' \<subseteq> {(i, j). 0 \<le> i \<and> i < ?N \<and> 0 \<le> j \<and> j < ?N \<and> i \<noteq> j} \<union> edges g"
  have "\<exists>g'. foldE ?f ?ps g = Inr g' \<and> ?I ?ps g'"
  proof (rule foldE_visited [where I = ?I])
    show "?I [] g" using assms by simp
  next
    fix ys e zs g1
    assume es: "?ps = ys @ e # zs" and I: "?I ys g1"
    obtain i j where e: "e = (i, j)" by (cases e)
    have "e \<in> set ?ps" unfolding es by simp
    then have range: "0 \<le> i" "i < ?N" "0 \<le> j" "j < ?N" by (auto simp: e)
    show "\<exists>s'. ?f e g1 = Inr s' \<and> ?I (ys @ [e]) s'"
    proof (cases "i = j")
      case True
      with I e show ?thesis by auto
    next
      case False
      from addEdge_ok [of g1 i j] I range obtain g2 where g2: "addEdge i j g1 = Inr g2" "graph_ok g2"
        "g_V g2 = g_V g1" "g_directed g2 = g_directed g1"
        "edges g2 = (if isDirected g1 then {(i, j)} else {(i, j), (j, i)}) \<union> edges g1" by auto
      have "?I (ys @ [e]) g2"
        using I g2(2-5) range False by (auto simp: e split: if_splits)
      with g2(1) False show ?thesis by (simp add: e)
    qed
  qed
  then obtain g' where g': "foldE ?f ?ps g = Inr g'" "?I ?ps g'" by blast
  have "{(i, j) \<in> set ?ps. i \<noteq> j} = {(i, j). 0 \<le> i \<and> i < ?N \<and> 0 \<le> j \<and> j < ?N \<and> i \<noteq> j}"
    by (auto simp: image_iff)
  with g'(2) have "edges g' = {(i, j). 0 \<le> i \<and> i < ?N \<and> 0 \<le> j \<and> j < ?N \<and> i \<noteq> j} \<union> edges g"
    by (intro equalityI) simp_all
  moreover have "addEdgesAllConnect g = foldE ?f ?ps g"
    using foldE_nested [of "\<lambda>i j g. if i \<noteq> j then addEdge i j g else Inr g" "\<lambda>_. [0..?N - 1]" "[0..?N - 1]" g]
    by (simp add: addEdgesAllConnect_def Let_def)
  ultimately show ?thesis using g' by simp
qed

section \<open>Output\<close>

text \<open>The text that each function writes to its stream.\<close>

datatype dot_graph_type = DOT_STRICT | DOT_NONSTRICT

definition ENDL :: string where "ENDL = [CHR 0x0A]"

definition PRESENT :: string where "PRESENT = ''*''"

definition ABSENT :: string where "ABSENT = '' ''"

text \<open>\<open>setw(n) << text\<close>\<close>

definition setw :: "nat \<Rightarrow> string \<Rightarrow> string" where
  "setw n s = replicate (n - length s) (CHR '' '') @ s"

definition printDot :: "graph \<Rightarrow> dot_graph_type \<Rightarrow> fault + string" where
  "printDot g strict =
     (let connector = (if isDirected g then ''->'' else ''--'');
          start = (if strict = DOT_STRICT then ''strict '' else '''') @
                  (if isDirected g then ''digraph {'' else ''graph {'') @ ENDL
      in bindE (foldE (\<lambda>x out. foldE (\<lambda>y out.
             bindE (graph_vertex g y) (\<lambda>z.
               Inr (out @ '' '' @ show_vertex x @ '' '' @ connector @ '' '' @ show_vertex z @ ENDL)))
             (vx_adj x) out) (g_vertices g) start)
           (\<lambda>out. Inr (out @ ''}'' @ ENDL)))"

definition printStructure :: "graph \<Rightarrow> fault + string" where
  "printStructure g =
     foldE (\<lambda>x out.
       bindE (foldE (\<lambda>y out.
           bindE (graph_vertex g y) (\<lambda>z. Inr (out @ '' -- '' @ show_vertex z)))
         (vx_adj x) (out @ show_vertex x))
         (\<lambda>out. Inr (out @ ENDL)))
       (g_vertices g) []"

text \<open>A negative \<open>V\<close> is a huge \<open>size_t\<close>: rows are appended until no memory is left.\<close>

definition matrix_rows :: "graph \<Rightarrow> fault + string list list" where
  "matrix_rows g =
     (let V = nat (g_V g) in
      if g_V g < 0 then Inl (Thrown ''bad_alloc'')
      else foldE (\<lambda>x rows. foldE (\<lambda>y rows.
          bindE (graph_vertex g y) (\<lambda>z.
            bindE (ivec_at rows (vx_index x)) (\<lambda>row.
              bindE (ivec_set row (vx_index z) PRESENT) (\<lambda>row'.
                ivec_set rows (vx_index x) row'))))
          (vx_adj x) rows)
        (g_vertices g) (replicate V (replicate V ABSENT)))"

definition printMatrix :: "graph \<Rightarrow> fault + string" where
  "printMatrix g =
     bindE (matrix_rows g) (\<lambda>rows.
       bindE (foldE (\<lambda>j out. bindE (graph_vertex g j) (\<lambda>z. Inr (out @ setw 3 (show_vertex z) @ '' '')))
               [0..g_V g - 1] ''      '') (\<lambda>header.
         foldE (\<lambda>i out.
             bindE (graph_vertex g i) (\<lambda>z.
               bindE (ivec_at rows i) (\<lambda>row.
                 bindE (foldE (\<lambda>j out. bindE (ivec_at row j) (\<lambda>cell. Inr (out @ ''  '' @ cell @ '' '')))
                         [0..g_V g - 1] (out @ setw 3 (show_vertex z) @ '' | ''))
                   (\<lambda>out. Inr (out @ ENDL)))))
           [0..g_V g - 1]
           (header @ ENDL @ ''    +'' @ concat (replicate (nat (g_V g)) ''----'') @ ''-'' @ ENDL)))"

text \<open>The table with the entry of each pair of indices.\<close>

definition table :: "int \<Rightarrow> (int \<Rightarrow> int \<Rightarrow> 'a) \<Rightarrow> 'a list list" where
  "table n f = map (\<lambda>i. map (f i) [0..n - 1]) [0..n - 1]"

lemma table_update:
  assumes "0 \<le> u" "u < n" "0 \<le> v" "v < n"
  shows "(table n f)[nat u := (table n f ! nat u)[nat v := x]] = table n (\<lambda>i j. if i = u \<and> j = v then x else f i j)"
proof (rule nth_equalityI)
  fix i assume "i < length ((table n f)[nat u := (table n f ! nat u)[nat v := x]])"
  then have i: "i < nat n" by (simp add: table_def)
  show "(table n f)[nat u := (table n f ! nat u)[nat v := x]] ! i =
      table n (\<lambda>i j. if i = u \<and> j = v then x else f i j) ! i"
  proof (cases "i = nat u")
    case True
    have "(map (f u) [0..n - 1])[nat v := x] = map (\<lambda>j. if j = v then x else f u j) [0..n - 1]"
      using assms by (intro nth_equalityI) (auto simp: nth_list_update)
    with True i assms show ?thesis by (simp add: table_def)
  next
    case False
    with i assms show ?thesis by (auto simp: table_def)
  qed
qed (simp add: table_def)

lemma matrix_rows_ok:
  assumes "graph_ok g"
  shows "matrix_rows g = Inr (table (g_V g) (\<lambda>i j. if (i, j) \<in> edges g then PRESENT else ABSENT))"
proof -
  let ?n = "g_V g"
  let ?t = "\<lambda>E. table ?n (\<lambda>i j. if (i, j) \<in> E then PRESENT else ABSENT)"
  let ?f = "\<lambda>u v rows. bindE (graph_vertex g v) (\<lambda>z. bindE (ivec_at rows u) (\<lambda>row.
      bindE (ivec_set row (vx_index z) PRESENT) (\<lambda>row'. ivec_set rows u row')))"
  have "\<exists>rows. foldE (\<lambda>(u, v). ?f u v) (edge_list g) (?t {}) = Inr rows \<and> rows = ?t (set (edge_list g))"
  proof (rule foldE_visited [where I = "\<lambda>ys rows. rows = ?t (set ys)"])
    show "?t {} = ?t (set [])" by simp
  next
    fix ys e zs rows
    assume es: "edge_list g = ys @ e # zs" and rows: "rows = ?t (set ys)"
    obtain u v where e: "e = (u, v)" by (cases e)
    have "(u, v) \<in> set (edge_list g)" by (simp add: es e)
    from edge_list_range [OF assms this] have range: "0 \<le> u" "u < ?n" "0 \<le> v" "v < ?n" by auto
    from vertex_in_range [OF assms range(3,4)] obtain z where "graph_vertex g v = Inr z" "vx_index z = v"
      by (auto simp: graph_vertex_def)
    moreover have "ivec_at rows u = Inr (rows ! nat u)" "int (length (rows ! nat u)) = ?n" "int (length rows) = ?n"
      using range by (simp_all add: rows table_def)
    moreover have "rows[nat u := (rows ! nat u)[nat v := PRESENT]] = ?t (set (ys @ [e]))"
      unfolding rows table_update [OF range]
      by (auto simp: e table_def intro!: map_cong)
    ultimately show "\<exists>s'. (case e of (u, v) \<Rightarrow> ?f u v) rows = Inr s' \<and> s' = ?t (set (ys @ [e]))"
      using range by (simp add: e)
  qed
  moreover have "?t {} = replicate (nat ?n) (replicate (nat ?n) ABSENT)"
    by (simp add: table_def map_replicate_const)
  moreover have "\<not> ?n < 0" using assms by (simp add: graph_ok_def)
  ultimately show ?thesis
    using foldE_edge_list [of ?f g "replicate (nat ?n) (replicate (nat ?n) ABSENT)"]
    by (simp add: matrix_rows_def Let_def set_edge_list [OF assms])
qed

section \<open>Properties\<close>

text \<open>
  Transposing a well-formed directed graph succeeds and reverses exactly its edges; transposing
  twice gives the edges back, and an undirected graph keeps its own. The result is well formed:
  every vertex keeps its index and no edge is doubled.
\<close>

theorem transpose_reverses_edges:
  assumes "graph_ok g"
  shows "\<exists>t tt. transpose_graph g = Inr t \<and> graph_ok t \<and>
    edges t = (if isDirected g then (edges g)\<inverse> else edges g) \<and>
    transpose_graph t = Inr tt \<and> edges tt = edges g"
proof -
  from transpose_ok [OF assms] obtain t where t: "transpose_graph g = Inr t" "graph_ok t"
    "g_directed t = g_directed g" "edges t = (if isDirected g then (edges g)\<inverse> else edges g)" by blast
  from transpose_ok [OF t(2)] obtain tt where tt: "transpose_graph t = Inr tt"
    "edges tt = (if isDirected t then (edges t)\<inverse> else edges t)" by blast
  from t(3) have "isDirected t = isDirected g" by (simp add: isDirected_def)
  with tt(2) t(4) have "edges tt = edges g" by (auto split: if_splits)
  with t tt show ?thesis by blast
qed

theorem transpose_reverses_edges_witness:
  "let g = \<lparr>g_vertices = [\<lparr>vx_index = 0, vx_data = None, vx_adj = [1]\<rparr>,
        \<lparr>vx_index = 1, vx_data = None, vx_adj = [1, 0]\<rparr>], g_V = 2, g_directed = GRAPHTYPE_DIRECTED\<rparr>
   in graph_ok g \<and> (\<exists>t. transpose_graph g = Inr t \<and> edges t = (edges g)\<inverse>)"
proof -
  let ?g = "\<lparr>g_vertices = [\<lparr>vx_index = 0, vx_data = None, vx_adj = [1]\<rparr>,
        \<lparr>vx_index = 1, vx_data = None, vx_adj = [1, 0]\<rparr>], g_V = 2, g_directed = GRAPHTYPE_DIRECTED\<rparr>"
  have "graph_ok ?g" by (simp add: graph_ok_def vertex_ok_def upto.simps)
  with transpose_reverses_edges [OF this] show ?thesis by (auto simp: isDirected_def Let_def)
qed

text \<open>
  Connecting all vertices of a new graph gives the complete graph without loops, for both
  kinds of graph: exactly the pairs of two different indices, each once.
\<close>

theorem all_connect_is_complete:
  assumes "0 \<le> n"
  shows "\<exists>g. addEdgesAllConnect (graph_new n ty) = Inr g \<and> graph_ok g \<and>
    edges g = {(i, j). 0 \<le> i \<and> i < n \<and> 0 \<le> j \<and> j < n \<and> i \<noteq> j}"
  using addEdgesAllConnect_ok [of "graph_new n ty"] graph_new_ok [OF assms, of ty] by auto

theorem all_connect_is_complete_witness:
  "\<exists>g. addEdgesAllConnect (graph_new 3 GRAPHTYPE_UNDIRECTED) = Inr g \<and> (2, 0) \<in> edges g \<and> (1, 1) \<notin> edges g"
  using all_connect_is_complete [of 3 GRAPHTYPE_UNDIRECTED] by auto

text \<open>
  The adjacency matrix that is printed is the graph's: the cell of row i and column j is
  marked exactly when there is an edge from i to j.
\<close>

theorem matrix_marks_edges:
  assumes "graph_ok g"
  shows "matrix_rows g =
    Inr (map (\<lambda>i. map (\<lambda>j. if (i, j) \<in> edges g then PRESENT else ABSENT) [0..g_V g - 1]) [0..g_V g - 1])"
  using matrix_rows_ok [OF assms] by (simp add: table_def)

theorem matrix_marks_edges_witness:
  "matrix_rows \<lparr>g_vertices = [\<lparr>vx_index = 0, vx_data = None, vx_adj = [1]\<rparr>,
        \<lparr>vx_index = 1, vx_data = None, vx_adj = []\<rparr>], g_V = 2, g_directed = GRAPHTYPE_DIRECTED\<rparr> =
   Inr [['' '', ''*''], ['' '', '' '']]"
proof -
  let ?g = "\<lparr>g_vertices = [\<lparr>vx_index = 0, vx_data = None, vx_adj = [1]\<rparr>,
        \<lparr>vx_index = 1, vx_data = None, vx_adj = []\<rparr>], g_V = 2, g_directed = GRAPHTYPE_DIRECTED\<rparr>"
  have "graph_ok ?g" by (simp add: graph_ok_def vertex_ok_def upto.simps)
  moreover have "edges ?g = {(0, 1)}"
    by (auto simp: edges_def adj_of_def nth_Cons split: if_splits nat.splits)
  ultimately show ?thesis
    using matrix_marks_edges [of ?g] by (simp add: upto.simps PRESENT_def ABSENT_def)
qed

end
