(* ===== verification/BFS.thy ===== *)
theory BFS
  imports Graph
begin

text \<open>
  \<open>BreadthFirstSearch\<close>, \<^verbatim>\<open>pmud/graph/include/BFS.h\<close>, and \<open>printPath\<close>, \<^verbatim>\<open>common.h\<close>. The weak pointer to
  the graph is an option. The result is compared with distances: the length of a shortest walk.

  The loop holds a reference \<open>u\<close> to the queue's front, pops the front, and colours \<open>u\<close> after that. The
  element's memory belongs to the queue: a \<open>deque\<close> that keeps \<open>b\<close> elements to a block gives a block back
  with every \<open>b\<close>-th pop, and the reference then reads freed memory, the fault \<open>UseAfterFree\<close>. Until then the
  value is still in its place and is read. The definitions take \<open>b\<close> as their first argument: it is
  \<open>DEQUE_BLOCK\<close> in libstdc++, and 1 for a queue that keeps nothing it has popped, which is all the
  language promises.
\<close>

section \<open>The search\<close>

datatype color = WHITE | GRAY | BLACK

record search_data =
  sd_pi :: "int list"
  sd_color :: "color list"
  sd_d :: "int list"

text \<open>The queue, and how many elements were popped from it.\<close>

record bfs_state = search_data +
  bs_Q :: "int list"
  bs_pops :: nat

text \<open>512 bytes of four-byte integers.\<close>

definition DEQUE_BLOCK :: nat where "DEQUE_BLOCK = 128"

text \<open>The loop that initialises every vertex but \<open>s\<close>.\<close>

definition bfs_init_vertex :: "int \<Rightarrow> int \<Rightarrow> bfs_state \<Rightarrow> fault + bfs_state" where
  "bfs_init_vertex s u st =
     (if u = s then Inr st
      else bindE (ivec_set (sd_color st) u WHITE) (\<lambda>c.
        bindE (ivec_set (sd_d st) u INT_MAX) (\<lambda>d.
          bindE (ivec_set (sd_pi st) u INVALID_VERTEX) (\<lambda>p.
            Inr (st\<lparr>sd_color := c, sd_d := d, sd_pi := p\<rparr>)))))"

text \<open>The vectors are made first; the constructor throws for a negative size.\<close>

definition bfs_init :: "graph \<Rightarrow> int \<Rightarrow> fault + bfs_state" where
  "bfs_init g s =
     (let V = nat (g_V g);
          st0 = \<lparr>sd_pi = replicate V 0, sd_color = replicate V WHITE, sd_d = replicate V 0, bs_Q = [],
            bs_pops = 0\<rparr>
      in if g_V g < 0 then Inl (Thrown ''length_error'')
         else bindE (foldE (bfs_init_vertex s) [0..g_V g - 1] st0) (\<lambda>st.
         bindE (ivec_set (sd_color st) s GRAY) (\<lambda>c.
         bindE (ivec_set (sd_d st) s 0) (\<lambda>d.
         bindE (ivec_set (sd_pi st) s INVALID_VERTEX) (\<lambda>p.
           Inr (st\<lparr>sd_color := c, sd_d := d, sd_pi := p, bs_Q := bs_Q st @ [s]\<rparr>))))))"

text \<open>The body of the inner loop.\<close>

definition bfs_edge :: "int \<Rightarrow> int \<Rightarrow> bfs_state \<Rightarrow> fault + bfs_state" where
  "bfs_edge u v st =
     bindE (ivec_at (sd_color st) v) (\<lambda>cv.
       if cv = WHITE then
         bindE (ivec_set (sd_color st) v GRAY) (\<lambda>c.
         bindE (ivec_at (sd_d st) u) (\<lambda>du.
         bindE (int_fit (du + 1)) (\<lambda>dv.
         bindE (ivec_set (sd_d st) v dv) (\<lambda>d.
         bindE (ivec_set (sd_pi st) v u) (\<lambda>p.
           Inr (st\<lparr>sd_color := c, sd_d := d, sd_pi := p, bs_Q := bs_Q st @ [v]\<rparr>))))))
       else Inr st)"

text \<open>\<open>Q.pop()\<close>, and the reference to the popped element read after it.\<close>

definition bfs_pop :: "bfs_state \<Rightarrow> bfs_state" where
  "bfs_pop st = st\<lparr>bs_Q := tl (bs_Q st), bs_pops := Suc (bs_pops st)\<rparr>"

definition bfs_popped :: "nat \<Rightarrow> int \<Rightarrow> bfs_state \<Rightarrow> fault + int" where
  "bfs_popped b u st = (if bs_pops st mod b = 0 then Inl UseAfterFree else Inr u)"

definition bfs_turn :: "nat \<Rightarrow> graph \<Rightarrow> int \<Rightarrow> bfs_state \<Rightarrow> fault + bfs_state" where
  "bfs_turn b g u st =
     bindE (graph_vertex g u) (\<lambda>x.
     bindE (foldE (bfs_edge u) (vx_adj x) st) (\<lambda>st1.
     let st2 = bfs_pop st1 in
     bindE (bfs_popped b u st2) (\<lambda>u'.
     bindE (ivec_set (sd_color st2) u' BLACK) (\<lambda>c.
       Inr (st2\<lparr>sd_color := c\<rparr>)))))"

definition white_count :: "color list \<Rightarrow> nat" where
  "white_count cs = length (filter (\<lambda>c. c = WHITE) cs)"

lemma white_count_less:
  "i < length cs \<Longrightarrow> cs ! i = WHITE \<Longrightarrow> c \<noteq> WHITE \<Longrightarrow> Suc (white_count (cs[i := c])) = white_count cs"
proof (induction cs arbitrary: i)
  case Nil
  then show ?case by simp
next
  case (Cons a cs)
  then show ?case by (cases i) (auto simp: white_count_def)
qed

lemma white_count_upd_le:
  "c \<noteq> WHITE \<Longrightarrow> white_count (cs[i := c]) \<le> white_count cs"
proof (induction cs arbitrary: i)
  case Nil
  then show ?case by simp
next
  case (Cons a cs)
  then show ?case by (cases i) (auto simp: white_count_def)
qed

lemma bfs_edge_measure:
  "bfs_edge u v st = Inr st' \<Longrightarrow>
   white_count (sd_color st') + length (bs_Q st') = white_count (sd_color st) + length (bs_Q st) \<and>
   length (bs_Q st) \<le> length (bs_Q st') \<and> bs_pops st' = bs_pops st"
  using white_count_less [of "nat v" "sd_color st" GRAY]
  by (auto simp: bfs_edge_def bindE_eq_Inr ivec_at_Inr ivec_set_Inr int_fit_Inr split: if_splits)

lemma bfs_edges_measure:
  "foldE (bfs_edge u) vs st = Inr st' \<Longrightarrow>
   white_count (sd_color st') + length (bs_Q st') = white_count (sd_color st) + length (bs_Q st) \<and>
   length (bs_Q st) \<le> length (bs_Q st') \<and> bs_pops st' = bs_pops st"
proof (induction vs arbitrary: st)
  case Nil
  then show ?case by simp
next
  case (Cons v vs)
  then obtain st1 where "bfs_edge u v st = Inr st1" "foldE (bfs_edge u) vs st1 = Inr st'"
    by (auto simp: bindE_eq_Inr)
  with bfs_edge_measure [of u v st st1] Cons.IH [of st1] show ?case by simp
qed

lemma bfs_turn_Inr:
  "bfs_turn b g u st = Inr st' \<longleftrightarrow>
   (\<exists>x st1. graph_vertex g u = Inr x \<and> foldE (bfs_edge u) (vx_adj x) st = Inr st1 \<and>
      Suc (bs_pops st1) mod b \<noteq> 0 \<and> 0 \<le> u \<and> u < int (length (sd_color st1)) \<and>
      st' = (bfs_pop st1)\<lparr>sd_color := (sd_color st1)[nat u := BLACK]\<rparr>)"
  by (auto simp: bfs_turn_def Let_def bfs_pop_def bfs_popped_def bindE_eq_Inr ivec_set_Inr split: if_splits)

lemma bfs_turn_measure:
  assumes "bfs_turn b g u st = Inr st'" "bs_Q st \<noteq> []"
  shows "white_count (sd_color st') + length (bs_Q st') < white_count (sd_color st) + length (bs_Q st)"
proof -
  obtain x :: vertex and st1 where "foldE (bfs_edge u) (vx_adj x) st = Inr st1"
    "st' = (bfs_pop st1)\<lparr>sd_color := (sd_color st1)[nat u := BLACK]\<rparr>"
    using assms(1) unfolding bfs_turn_Inr by blast
  with bfs_edges_measure [of u "vx_adj x" st st1] white_count_upd_le [of BLACK "sd_color st1" "nat u"] assms(2)
  show ?thesis by (cases "bs_Q st1") (auto simp: bfs_pop_def)
qed

text \<open>The outer loop. Each turn takes one vertex out of the queue and only white ones get in.\<close>

function bfs_loop :: "nat \<Rightarrow> graph \<Rightarrow> bfs_state \<Rightarrow> fault + bfs_state" where
  "bfs_loop b g st =
     (case bs_Q st of
        [] \<Rightarrow> Inr st
      | u # _ \<Rightarrow> (case bfs_turn b g u st of Inl f \<Rightarrow> Inl f | Inr st' \<Rightarrow> bfs_loop b g st'))"
  by pat_completeness auto
termination
  by (relation "measure (\<lambda>(b, g, st). white_count (sd_color st) + length (bs_Q st))")
    (auto dest: bfs_turn_measure)

declare bfs_loop.simps [simp del]

definition BreadthFirstSearch :: "nat \<Rightarrow> graph option \<Rightarrow> int \<Rightarrow> fault + search_data" where
  "BreadthFirstSearch b graph s =
     (case graph of
        None \<Rightarrow> Inl (Thrown ''graph is null'')
      | Some g \<Rightarrow>
          bindE (bfs_init g s) (\<lambda>st.
          bindE (bfs_loop b g st) (\<lambda>st'.
            Inr \<lparr>sd_pi = sd_pi st', sd_color = sd_color st', sd_d = sd_d st'\<rparr>)))"

section \<open>Distances\<close>

text \<open>A walk of \<open>k\<close> edges.\<close>

fun walk :: "graph \<Rightarrow> nat \<Rightarrow> int \<Rightarrow> int \<Rightarrow> bool" where
  "walk g 0 u v \<longleftrightarrow> u = v"
| "walk g (Suc k) u v \<longleftrightarrow> (\<exists>w. walk g k u w \<and> v \<in> set (adj_of g w))"

definition reachable_from :: "graph \<Rightarrow> int \<Rightarrow> int \<Rightarrow> bool" where
  "reachable_from g s v \<longleftrightarrow> (\<exists>k. walk g k s v)"

definition distance :: "graph \<Rightarrow> int \<Rightarrow> int \<Rightarrow> nat" where
  "distance g s v = (LEAST k. walk g k s v)"

section \<open>The invariant\<close>

definition at :: "'a list \<Rightarrow> int \<Rightarrow> 'a" where
  "at xs v = xs ! nat v"

lemma at_update:
  "0 \<le> v \<Longrightarrow> v < int (length xs) \<Longrightarrow> 0 \<le> w \<Longrightarrow> at (xs[nat v := x]) w = (if w = v then x else at xs w)"
  by (auto simp: at_def nth_list_update)

definition in_range :: "graph \<Rightarrow> int \<Rightarrow> bool" where
  "in_range g v \<longleftrightarrow> 0 \<le> v \<and> v < g_V g"

lemma not_in_range_INVALID [simp]: "\<not> in_range g INVALID_VERTEX"
  by (simp add: in_range_def INVALID_VERTEX_def)

definition sizes_ok :: "graph \<Rightarrow> bfs_state \<Rightarrow> bool" where
  "sizes_ok g st \<longleftrightarrow>
     int (length (sd_color st)) = g_V g \<and> int (length (sd_d st)) = g_V g \<and> int (length (sd_pi st)) = g_V g"

text \<open>What is known of each vertex.\<close>

definition vertex_inv :: "graph \<Rightarrow> int \<Rightarrow> bfs_state \<Rightarrow> int \<Rightarrow> bool" where
  "vertex_inv g s st v \<longleftrightarrow>
     (if at (sd_color st) v = WHITE then v \<noteq> s \<and> at (sd_d st) v = INT_MAX \<and> at (sd_pi st) v = INVALID_VERTEX
      else 0 \<le> at (sd_d st) v \<and> walk g (nat (at (sd_d st) v)) s v \<and>
        at (sd_d st) v + int (white_count (sd_color st)) < g_V g \<and>
        (if v = s then at (sd_d st) v = 0 \<and> at (sd_pi st) v = INVALID_VERTEX
         else in_range g (at (sd_pi st) v) \<and> at (sd_color st) (at (sd_pi st) v) \<noteq> WHITE \<and>
           v \<in> set (adj_of g (at (sd_pi st) v)) \<and>
           at (sd_d st) v = at (sd_d st) (at (sd_pi st) v) + 1))"

definition queue_inv :: "graph \<Rightarrow> bfs_state \<Rightarrow> bool" where
  "queue_inv g st \<longleftrightarrow>
     distinct (bs_Q st) \<and>
     (\<forall>v. in_range g v \<longrightarrow> (v \<in> set (bs_Q st)) = (at (sd_color st) v = GRAY)) \<and>
     (\<forall>q \<in> set (bs_Q st). in_range g q) \<and>
     sorted (map (at (sd_d st)) (bs_Q st)) \<and>
     (\<forall>q \<in> set (bs_Q st). at (sd_d st) q \<le> at (sd_d st) (hd (bs_Q st)) + 1) \<and>
     (bs_Q st \<noteq> [] \<longrightarrow> (\<forall>v. in_range g v \<longrightarrow> at (sd_color st) v = BLACK \<longrightarrow>
        at (sd_d st) v \<le> at (sd_d st) (hd (bs_Q st))))"

definition edge_done :: "bfs_state \<Rightarrow> int \<Rightarrow> int \<Rightarrow> bool" where
  "edge_done st v w \<longleftrightarrow> at (sd_color st) w \<noteq> WHITE \<and> at (sd_d st) w \<le> at (sd_d st) v + 1"

definition bfs_inv :: "graph \<Rightarrow> int \<Rightarrow> bfs_state \<Rightarrow> bool" where
  "bfs_inv g s st \<longleftrightarrow>
     sizes_ok g st \<and> (\<forall>v. in_range g v \<longrightarrow> vertex_inv g s st v) \<and> queue_inv g st \<and>
     (\<forall>v w. in_range g v \<longrightarrow> at (sd_color st) v = BLACK \<longrightarrow> w \<in> set (adj_of g v) \<longrightarrow> edge_done st v w)"

lemma queue_dist:
  "queue_inv g st \<Longrightarrow> bs_Q st = u # rest \<Longrightarrow> q \<in> set (bs_Q st) \<Longrightarrow>
   at (sd_d st) u \<le> at (sd_d st) q \<and> at (sd_d st) q \<le> at (sd_d st) u + 1"
  by (auto simp: queue_inv_def)

text \<open>One edge: the head of the queue stays, the edge is done, and nothing known is lost.\<close>

lemma bfs_edge_step:
  assumes g: "graph_ok g" and fits: "g_V g \<le> INT_MAX" and inv: "bfs_inv g s st" and Q: "bs_Q st = u # rest"
    and v: "v \<in> set (adj_of g u)"
  shows "\<exists>st' rest'. bfs_edge u v st = Inr st' \<and> bfs_inv g s st' \<and> bs_Q st' = u # rest' \<and> edge_done st' u v \<and>
    (\<forall>w. in_range g w \<longrightarrow> at (sd_color st) w \<noteq> WHITE \<longrightarrow>
       at (sd_color st') w = at (sd_color st) w \<and> at (sd_d st') w = at (sd_d st) w)"
proof -
  have ru: "0 \<le> u" "u < g_V g" and rv: "0 \<le> v" "v < g_V g" using adj_in_range [OF g v] by auto
  then have in_r: "in_range g u" "in_range g v" by (simp_all add: in_range_def)
  from inv have sizes: "int (length (sd_color st)) = g_V g" "int (length (sd_d st)) = g_V g"
      "int (length (sd_pi st)) = g_V g"
    and vinv: "\<And>v. in_range g v \<Longrightarrow> vertex_inv g s st v" and qinv: "queue_inv g st"
    and edges: "\<And>v w. in_range g v \<Longrightarrow> at (sd_color st) v = BLACK \<Longrightarrow> w \<in> set (adj_of g v) \<Longrightarrow> edge_done st v w"
    by (auto simp: bfs_inv_def sizes_ok_def)
  have gray: "at (sd_color st) u = GRAY" using qinv Q in_r by (auto simp: queue_inv_def)
  show ?thesis
  proof (cases "at (sd_color st) v = WHITE")
    case False
    have "edge_done st u v"
    proof (cases "at (sd_color st) v")
      case GRAY
      then have "v \<in> set (bs_Q st)" using qinv in_r by (simp add: queue_inv_def)
      with queue_dist [OF qinv Q this] False show ?thesis by (simp add: edge_done_def)
    next
      case BLACK
      then have "at (sd_d st) v \<le> at (sd_d st) u" using qinv in_r Q by (simp add: queue_inv_def)
      with False show ?thesis by (simp add: edge_done_def)
    qed (use False in simp)
    moreover have "bfs_edge u v st = Inr st"
      using False rv sizes by (simp add: bfs_edge_def at_def)
    ultimately show ?thesis using inv Q by blast
  next
    case True
    let ?c = "(sd_color st)[nat v := GRAY]" and ?p = "(sd_pi st)[nat v := u]"
    let ?d = "(sd_d st)[nat v := at (sd_d st) u + 1]"
    let ?st = "st\<lparr>sd_color := ?c, sd_d := ?d, sd_pi := ?p, bs_Q := bs_Q st @ [v]\<rparr>"
    have du0: "0 \<le> at (sd_d st) u" "at (sd_d st) u + int (white_count (sd_color st)) < g_V g"
      using vinv [OF in_r(1)] gray by (auto simp: vertex_inv_def)
    then have "int_fit (at (sd_d st) u + 1) = Inr (at (sd_d st) u + 1)" using fits by simp
    then have run: "bfs_edge u v st = Inr ?st"
      using True rv ru sizes by (simp add: bfs_edge_def at_def)
    have ne: "u \<noteq> v" using True gray by auto
    have atc: "at ?c w = (if w = v then GRAY else at (sd_color st) w)"
      and atd: "at ?d w = (if w = v then at (sd_d st) u + 1 else at (sd_d st) w)"
      and atp: "at ?p w = (if w = v then u else at (sd_pi st) w)" if "in_range g w" for w
      using that rv sizes by (simp_all add: at_update in_range_def)
    have wc: "Suc (white_count ?c) = white_count (sd_color st)"
      using True rv sizes by (intro white_count_less) (auto simp: at_def)
    have vs: "v \<noteq> s" using vinv [OF in_r(2)] True by (simp add: vertex_inv_def)
    have u_inv: "0 \<le> at (sd_d st) u" "walk g (nat (at (sd_d st) u)) s u"
      "at (sd_d st) u + int (white_count (sd_color st)) < g_V g"
      using vinv [OF in_r(1)] gray by (auto simp: vertex_inv_def)
    then have walk_v: "walk g (nat (at (sd_d st) u + 1)) s v"
      using v by (auto simp: nat_add_distrib)
    have vinv': "vertex_inv g s ?st w" if w: "in_range g w" for w
    proof (cases "w = v")
      case True
      with u_inv walk_v wc vs v in_r gray ne show ?thesis
        by (simp add: vertex_inv_def atc atd atp)
    next
      case False
      moreover have "v \<noteq> INVALID_VERTEX" using in_r(2) by auto
      ultimately show ?thesis
        using vinv [OF w] wc w \<open>at (sd_color st) v = WHITE\<close>
        by (auto simp: vertex_inv_def atc atd atp)
    qed
    have notin: "v \<notin> set (bs_Q st)" using qinv in_r True by (simp add: queue_inv_def)
    have rangeQ: "\<And>q. q \<in> set (bs_Q st) \<Longrightarrow> in_range g q" using qinv by (simp add: queue_inv_def)
    have dQ: "map (at ?d) (bs_Q st) = map (at (sd_d st)) (bs_Q st)"
      using notin rangeQ by (auto simp: atd)
    have dv: "at ?d v = at (sd_d st) u + 1" using in_r by (simp add: atd)
    have du: "at ?d u = at (sd_d st) u" using in_r ne by (simp add: atd)
    have qinv': "queue_inv g ?st"
      unfolding queue_inv_def
    proof (intro conjI)
      show "distinct (bs_Q ?st)" using qinv notin by (simp add: queue_inv_def)
      show "\<forall>w. in_range g w \<longrightarrow> (w \<in> set (bs_Q ?st)) = (at (sd_color ?st) w = GRAY)"
        using qinv by (auto simp: queue_inv_def atc)
      show "\<forall>q \<in> set (bs_Q ?st). in_range g q" using rangeQ in_r by auto
      have "\<forall>q \<in> set (bs_Q st). at (sd_d st) q \<le> at (sd_d st) u + 1"
        using queue_dist [OF qinv Q] by blast
      moreover have "sorted (map (at ?d) (bs_Q st))"
        unfolding dQ using qinv by (simp add: queue_inv_def)
      ultimately show "sorted (map (at (sd_d ?st)) (bs_Q ?st))"
        using dv notin rangeQ atd by (auto simp: sorted_append)
      show "\<forall>q \<in> set (bs_Q ?st). at (sd_d ?st) q \<le> at (sd_d ?st) (hd (bs_Q ?st)) + 1"
        using Q dv du atd rangeQ notin queue_dist [OF qinv Q] by auto
      show "bs_Q ?st \<noteq> [] \<longrightarrow> (\<forall>w. in_range g w \<longrightarrow> at (sd_color ?st) w = BLACK \<longrightarrow>
          at (sd_d ?st) w \<le> at (sd_d ?st) (hd (bs_Q ?st)))"
        using Q du atd atc qinv by (auto simp: queue_inv_def)
    qed
    have edges': "edge_done ?st x w" if "in_range g x" "at ?c x = BLACK" "w \<in> set (adj_of g x)" for x w
    proof -
      have xv: "x \<noteq> v" using that(1,2) atc by auto
      have rw: "in_range g w" using adj_in_range [OF g that(3)] by (simp add: in_range_def)
      from edges [of x w] that xv have "edge_done st x w" by (simp add: atc)
      with True have "w \<noteq> v" by (auto simp: edge_done_def)
      with \<open>edge_done st x w\<close> xv rw that(1) show ?thesis by (simp add: edge_done_def atc atd)
    qed
    have "bfs_inv g s ?st"
      using sizes vinv' qinv' edges' by (auto simp: bfs_inv_def sizes_ok_def)
    moreover have "edge_done ?st u v"
      using dv du atc [OF in_r(2)] by (simp add: edge_done_def)
    ultimately show ?thesis
      using run Q True atc atd by (intro exI [of _ ?st] exI [of _ "rest @ [v]"]) auto
  qed
qed

lemma white_count_upd_same:
  "i < length cs \<Longrightarrow> cs ! i \<noteq> WHITE \<Longrightarrow> c \<noteq> WHITE \<Longrightarrow> white_count (cs[i := c]) = white_count cs"
proof (induction cs arbitrary: i)
  case Nil
  then show ?case by simp
next
  case (Cons a cs)
  then show ?case by (cases i) (auto simp: white_count_def)
qed

lemma bfs_edges_step:
  assumes g: "graph_ok g" and fits: "g_V g \<le> INT_MAX" and inv: "bfs_inv g s st" and Q: "bs_Q st = u # rest"
  shows "\<exists>st1. foldE (bfs_edge u) (adj_of g u) st = Inr st1 \<and> bfs_inv g s st1 \<and> (\<exists>r. bs_Q st1 = u # r) \<and>
    (\<forall>w \<in> set (adj_of g u). edge_done st1 u w)"
proof -
  let ?I = "\<lambda>ys st'. bfs_inv g s st' \<and> (\<exists>r. bs_Q st' = u # r) \<and> (\<forall>w \<in> set ys. edge_done st' u w)"
  have "\<exists>st1. foldE (bfs_edge u) (adj_of g u) st = Inr st1 \<and> ?I (adj_of g u) st1"
  proof (rule foldE_visited [where I = ?I])
    show "?I [] st" using inv Q by simp
  next
    fix ys v zs st1
    assume es: "adj_of g u = ys @ v # zs" and I: "?I ys st1"
    then obtain r where r: "bs_Q st1 = u # r" by blast
    have v: "v \<in> set (adj_of g u)" by (simp add: es)
    from bfs_edge_step [OF g fits _ r v, of s] I obtain st2 r2 where st2: "bfs_edge u v st1 = Inr st2"
      "bfs_inv g s st2" "bs_Q st2 = u # r2" "edge_done st2 u v"
      "\<forall>w. in_range g w \<longrightarrow> at (sd_color st1) w \<noteq> WHITE \<longrightarrow>
         at (sd_color st2) w = at (sd_color st1) w \<and> at (sd_d st2) w = at (sd_d st1) w"
      by blast
    have range: "in_range g u" "\<And>w. w \<in> set (adj_of g u) \<Longrightarrow> in_range g w"
      using adj_in_range [OF g] v by (auto simp: in_range_def)
    moreover have "at (sd_color st1) u \<noteq> WHITE"
      using I r range(1) by (auto simp: bfs_inv_def queue_inv_def)
    ultimately have "\<forall>w \<in> set ys. edge_done st2 u w"
      using I st2(5) es by (auto simp: edge_done_def)
    with st2 show "\<exists>st'. bfs_edge u v st1 = Inr st' \<and> ?I (ys @ [v]) st'" by auto
  qed
  then show ?thesis by blast
qed

lemma bfs_turn_step:
  assumes g: "graph_ok g" and fits: "g_V g \<le> INT_MAX" and inv: "bfs_inv g s st" and Q: "bs_Q st = u # rest"
  shows "if Suc (bs_pops st) mod b = 0 then bfs_turn b g u st = Inl UseAfterFree
    else \<exists>st'. bfs_turn b g u st = Inr st' \<and> bfs_inv g s st' \<and> bs_pops st' = Suc (bs_pops st) \<and>
      length (bs_Q st') + white_count (sd_color st') + 1 = length (bs_Q st) + white_count (sd_color st)"
proof -
  from inv Q have ru: "in_range g u" by (auto simp: bfs_inv_def queue_inv_def)
  then obtain x where x: "graph_vertex g u = Inr x" "vx_adj x = adj_of g u"
    using vertex_in_range [OF g] by (auto simp: graph_vertex_def in_range_def)
  from bfs_edges_step [OF g fits inv Q] obtain st1 r where st1: "foldE (bfs_edge u) (adj_of g u) st = Inr st1"
    "bfs_inv g s st1" "bs_Q st1 = u # r" "\<forall>w \<in> set (adj_of g u). edge_done st1 u w"
    by blast
  note counted = bfs_edges_measure [OF st1(1)]
  from st1(2) have sizes: "int (length (sd_color st1)) = g_V g" "int (length (sd_d st1)) = g_V g"
      "int (length (sd_pi st1)) = g_V g"
    and vinv: "\<And>v. in_range g v \<Longrightarrow> vertex_inv g s st1 v" and qinv: "queue_inv g st1"
    and edges: "\<And>v w. in_range g v \<Longrightarrow> at (sd_color st1) v = BLACK \<Longrightarrow> w \<in> set (adj_of g v) \<Longrightarrow> edge_done st1 v w"
    by (auto simp: bfs_inv_def sizes_ok_def)
  let ?c = "(sd_color st1)[nat u := BLACK]"
  let ?st = "(bfs_pop st1)\<lparr>sd_color := ?c\<rparr>"
  have popped: "bs_Q ?st = tl (bs_Q st1)" "sd_color ?st = ?c" "sd_d ?st = sd_d st1" "sd_pi ?st = sd_pi st1"
    "bs_pops ?st = Suc (bs_pops st1)" by (simp_all add: bfs_pop_def)
  have gray: "at (sd_color st1) u = GRAY" using qinv st1(3) ru by (auto simp: queue_inv_def)
  have atc: "at ?c w = (if w = u then BLACK else at (sd_color st1) w)" if "in_range g w" for w
    using that ru sizes by (simp add: at_update in_range_def)
  have wc: "white_count ?c = white_count (sd_color st1)"
    using gray ru sizes by (intro white_count_upd_same) (auto simp: at_def in_range_def)
  have white: "(at ?c w = WHITE) = (at (sd_color st1) w = WHITE)" if "in_range g w" for w
    using atc [OF that] gray by simp
  have vinv': "vertex_inv g s ?st w" if w: "in_range g w" for w
    using vinv [OF w] w wc by (auto simp: vertex_inv_def white popped)
  have qinv': "queue_inv g ?st"
    unfolding queue_inv_def
  proof (intro conjI)
    show "distinct (bs_Q ?st)" using qinv st1(3) by (simp add: queue_inv_def popped)
    show "\<forall>w. in_range g w \<longrightarrow> (w \<in> set (bs_Q ?st)) = (at (sd_color ?st) w = GRAY)"
      using qinv st1(3) by (auto simp: queue_inv_def atc popped)
    show "\<forall>q \<in> set (bs_Q ?st). in_range g q" using qinv st1(3) by (simp add: queue_inv_def popped)
    show "sorted (map (at (sd_d ?st)) (bs_Q ?st))" using qinv st1(3) by (simp add: queue_inv_def popped)
    show "\<forall>q \<in> set (bs_Q ?st). at (sd_d ?st) q \<le> at (sd_d ?st) (hd (bs_Q ?st)) + 1"
    proof
      fix q assume q: "q \<in> set (bs_Q ?st)"
      then obtain h t where r: "r = h # t" using st1(3) popped by (cases r) auto
      have "at (sd_d st1) q \<le> at (sd_d st1) u + 1" "at (sd_d st1) u \<le> at (sd_d st1) h"
        using queue_dist [OF qinv st1(3)] q st1(3) r popped by auto
      then show "at (sd_d ?st) q \<le> at (sd_d ?st) (hd (bs_Q ?st)) + 1" using st1(3) r popped by simp
    qed
    show "bs_Q ?st \<noteq> [] \<longrightarrow> (\<forall>w. in_range g w \<longrightarrow> at (sd_color ?st) w = BLACK \<longrightarrow>
        at (sd_d ?st) w \<le> at (sd_d ?st) (hd (bs_Q ?st)))"
    proof (intro impI allI)
      fix w assume ne: "bs_Q ?st \<noteq> []" and w: "in_range g w" "at (sd_color ?st) w = BLACK"
      then obtain h t where r: "r = h # t" using st1(3) popped by (cases r) auto
      have "at (sd_d st1) u \<le> at (sd_d st1) h" using queue_dist [OF qinv st1(3)] st1(3) r by auto
      moreover have "at (sd_d st1) w \<le> at (sd_d st1) u"
        using w qinv st1(3) by (cases "w = u") (auto simp: queue_inv_def atc popped)
      ultimately show "at (sd_d ?st) w \<le> at (sd_d ?st) (hd (bs_Q ?st))" using st1(3) r popped by simp
    qed
  qed
  have edges': "edge_done ?st v w" if "in_range g v" "at ?c v = BLACK" "w \<in> set (adj_of g v)" for v w
  proof -
    have "in_range g w" using adj_in_range [OF g that(3)] by (simp add: in_range_def)
    moreover have "edge_done st1 v w"
      using that edges [of v w] st1(4) by (cases "v = u") (auto simp: atc)
    ultimately show ?thesis by (auto simp: edge_done_def atc popped)
  qed
  have "bfs_inv g s ?st" using sizes vinv' qinv' edges' by (auto simp: bfs_inv_def sizes_ok_def popped)
  moreover have "if Suc (bs_pops st) mod b = 0 then bfs_turn b g u st = Inl UseAfterFree
      else bfs_turn b g u st = Inr ?st"
    using x st1(1) ru sizes counted by (simp add: bfs_turn_def in_range_def bfs_pop_def bfs_popped_def)
  moreover have "length (bs_Q ?st) + white_count (sd_color ?st) + 1 = length (bs_Q st) + white_count (sd_color st)"
    using counted wc st1(3) popped by simp
  ultimately show ?thesis using popped(5) counted by (simp split: if_splits)
qed

text \<open>The vertices that a search can reach, and how far the search has counted them.\<close>

definition reach_set :: "graph \<Rightarrow> int \<Rightarrow> int set" where
  "reach_set g s = {v. in_range g v \<and> reachable_from g s v}"

definition pops_inv :: "graph \<Rightarrow> bfs_state \<Rightarrow> bool" where
  "pops_inv g st \<longleftrightarrow> bs_pops st + length (bs_Q st) + white_count (sd_color st) = nat (g_V g)"

lemma finite_range: "finite {v. in_range g v \<and> P v}"
  by (rule finite_subset [of _ "{0..g_V g}"]) (auto simp: in_range_def)

lemma white_count_card:
  assumes "int (length cs) = g_V g"
  shows "white_count cs + card {v. in_range g v \<and> at cs v \<noteq> WHITE} = nat (g_V g)"
proof -
  have "{v. in_range g v \<and> at cs v \<noteq> WHITE} = int ` {i. i < length cs \<and> cs ! i \<noteq> WHITE}"
    using assms by (force simp: in_range_def at_def image_iff intro!: exI [of _ "nat _"])
  then have "card {v. in_range g v \<and> at cs v \<noteq> WHITE} = length (filter (\<lambda>c. c \<noteq> WHITE) cs)"
    by (simp add: card_image length_filter_conv_card)
  then show ?thesis
    using sum_length_filter_compl [of "\<lambda>c. c = WHITE" cs] assms by (simp add: white_count_def)
qed

lemma bfs_loop_unfold:
  "bs_Q st = [] \<Longrightarrow> bfs_loop b g st = Inr st"
  "bs_Q st = u # us \<Longrightarrow> bfs_turn b g u st = Inl f \<Longrightarrow> bfs_loop b g st = Inl f"
  "bs_Q st = u # us \<Longrightarrow> bfs_turn b g u st = Inr st' \<Longrightarrow> bfs_loop b g st = bfs_loop b g st'"
  by (subst bfs_loop.simps, simp)+

text \<open>What was popped or waits in the queue can be reached.\<close>

lemma pops_le_reach:
  assumes inv: "bfs_inv g s st" and pops: "pops_inv g st"
  shows "bs_pops st + length (bs_Q st) \<le> card (reach_set g s)"
proof -
  have "{v. in_range g v \<and> at (sd_color st) v \<noteq> WHITE} \<subseteq> reach_set g s"
    using inv by (fastforce simp: bfs_inv_def vertex_inv_def reach_set_def reachable_from_def)
  then have "card {v. in_range g v \<and> at (sd_color st) v \<noteq> WHITE} \<le> card (reach_set g s)"
    by (intro card_mono) (simp_all add: reach_set_def finite_range)
  moreover have "int (length (sd_color st)) = g_V g" using inv by (simp add: bfs_inv_def sizes_ok_def)
  note white_count_card [OF this]
  ultimately show ?thesis using pops unfolding pops_inv_def by linarith
qed

lemma bfs_loop_ok:
  "graph_ok g \<Longrightarrow> g_V g \<le> INT_MAX \<Longrightarrow> bfs_inv g s st \<Longrightarrow> pops_inv g st \<Longrightarrow> bs_pops st < b \<Longrightarrow>
   (bfs_loop b g st = Inl UseAfterFree \<and> b \<le> card (reach_set g s)) \<or>
   (\<exists>st'. bfs_loop b g st = Inr st' \<and> bfs_inv g s st' \<and> pops_inv g st' \<and> bs_pops st' < b \<and> bs_Q st' = [])"
proof (induction b g st rule: bfs_loop.induct)
  case (1 b g st)
  show ?case
  proof (cases "bs_Q st")
    case Nil
    with 1(4-6) bfs_loop_unfold(1) [OF Nil] show ?thesis by blast
  next
    case (Cons u rest)
    note turn = bfs_turn_step [OF 1(2-4) Cons, of b]
    show ?thesis
    proof (cases "Suc (bs_pops st) mod b = 0")
      case True
      with 1(6) have "b \<le> Suc (bs_pops st)" using dvd_imp_le by (metis mod_greater_zero_iff_not_dvd not_gr_zero zero_less_Suc)
      with pops_le_reach [OF 1(4,5)] Cons have "b \<le> card (reach_set g s)" by simp
      moreover have "bfs_loop b g st = Inl UseAfterFree"
        using turn True bfs_loop_unfold(2) [OF Cons] by simp
      ultimately show ?thesis by blast
    next
      case False
      with turn obtain st1 where st1: "bfs_turn b g u st = Inr st1" "bfs_inv g s st1" "bs_pops st1 = Suc (bs_pops st)"
        "length (bs_Q st1) + white_count (sd_color st1) + 1 = length (bs_Q st) + white_count (sd_color st)" by auto
      have "bs_pops st1 < b" using False 1(6) st1(3) by (metis Suc_lessI mod_self)
      moreover have "pops_inv g st1" using 1(5) st1(3,4) by (simp add: pops_inv_def)
      moreover note bfs_loop_unfold(3) [OF Cons st1(1)]
      ultimately show ?thesis using 1(1) [OF Cons st1(1) 1(2,3) st1(2)] by simp
    qed
  qed
qed

lemma bfs_init_ok:
  assumes g: "graph_ok g" and s: "in_range g s"
  shows "\<exists>st. bfs_init g s = Inr st \<and> bfs_inv g s st \<and> pops_inv g st \<and> bs_pops st = 0"
proof -
  let ?V = "nat (g_V g)"
  let ?st0 = "\<lparr>sd_pi = replicate ?V 0, sd_color = replicate ?V WHITE, sd_d = replicate ?V 0, bs_Q = [],
     bs_pops = 0\<rparr>"
  let ?I = "\<lambda>ys st. sizes_ok g st \<and> bs_Q st = [] \<and> bs_pops st = 0 \<and> sd_color st = replicate ?V WHITE \<and>
    (\<forall>v \<in> set ys. v \<noteq> s \<longrightarrow> at (sd_d st) v = INT_MAX \<and> at (sd_pi st) v = INVALID_VERTEX)"
  have V: "0 \<le> g_V g" using g by (simp add: graph_ok_def)
  have "\<exists>st. foldE (bfs_init_vertex s) [0..g_V g - 1] ?st0 = Inr st \<and> ?I [0..g_V g - 1] st"
  proof (rule foldE_visited [where I = ?I])
    show "?I [] ?st0" using V by (simp add: sizes_ok_def)
  next
    fix ys u zs st
    assume es: "[0..g_V g - 1] = ys @ u # zs" and I: "?I ys st"
    have "u \<in> set [0..g_V g - 1]" "set ys \<subseteq> set [0..g_V g - 1]" unfolding es by auto
    then have u: "0 \<le> u" "u < g_V g" and ys: "\<And>v. v \<in> set ys \<Longrightarrow> 0 \<le> v" by auto
    have same: "(replicate ?V WHITE)[nat u := WHITE] = replicate ?V WHITE"
      using u by (metis list_update_id nth_replicate zless_nat_conj nat_mono_iff order_le_less_trans)
    show "\<exists>st'. bfs_init_vertex s u st = Inr st' \<and> ?I (ys @ [u]) st'"
      using I u V same ys by (auto simp: bfs_init_vertex_def sizes_ok_def at_update)
  qed
  then obtain st where st: "foldE (bfs_init_vertex s) [0..g_V g - 1] ?st0 = Inr st" "?I [0..g_V g - 1] st"
    by blast
  let ?c = "(sd_color st)[nat s := GRAY]" and ?d = "(sd_d st)[nat s := 0]"
  let ?p = "(sd_pi st)[nat s := INVALID_VERTEX]"
  let ?st = "st\<lparr>sd_color := ?c, sd_d := ?d, sd_pi := ?p, bs_Q := bs_Q st @ [s]\<rparr>"
  have run: "bfs_init g s = Inr ?st"
    using st s by (simp add: bfs_init_def Let_def sizes_ok_def in_range_def)
  have atc: "at ?c w = (if w = s then GRAY else WHITE)"
    and atd: "at ?d w = (if w = s then 0 else INT_MAX)"
    and atp: "at ?p w = INVALID_VERTEX" if "in_range g w" for w
    using that s st(2) V by (auto simp: at_update in_range_def sizes_ok_def) (simp add: at_def)
  have white: "Suc (white_count ?c) = ?V"
    using white_count_less [of "nat s" "sd_color st" GRAY] st(2) s V
    by (simp add: in_range_def white_count_def)
  then have "bfs_inv g s ?st"
    using st(2) s atc atd atp V
    by (auto simp: bfs_inv_def sizes_ok_def vertex_inv_def queue_inv_def)
  moreover have "pops_inv g ?st" "bs_pops ?st = 0" using white st(2) by (simp_all add: pops_inv_def)
  ultimately show ?thesis using run by blast
qed

lemma bfs_final:
  assumes g: "graph_ok g" and inv: "bfs_inv g s st" and Q: "bs_Q st = []" and s: "in_range g s"
  shows "walk g k s v \<Longrightarrow> in_range g v \<and> at (sd_color st) v = BLACK \<and> at (sd_d st) v \<le> int k"
proof (induction k arbitrary: v)
  case 0
  from inv s have "vertex_inv g s st s" by (simp add: bfs_inv_def)
  then have "at (sd_color st) s \<noteq> WHITE" "at (sd_d st) s = 0" by (auto simp: vertex_inv_def split: if_splits)
  moreover have "at (sd_color st) s \<noteq> GRAY" using inv Q s by (auto simp: bfs_inv_def queue_inv_def)
  ultimately have "at (sd_color st) s = BLACK" by (cases "at (sd_color st) s") auto
  with 0 s \<open>at (sd_d st) s = 0\<close> show ?case by simp
next
  case (Suc k)
  then obtain w where w: "walk g k s w" "v \<in> set (adj_of g w)" by auto
  from Suc.IH [OF w(1)] have IH: "in_range g w" "at (sd_color st) w = BLACK" "at (sd_d st) w \<le> int k" by auto
  have v: "in_range g v" using adj_in_range [OF g w(2)] by (simp add: in_range_def)
  from inv IH w(2) have "edge_done st w v" by (simp add: bfs_inv_def)
  moreover have "at (sd_color st) v \<noteq> GRAY" using inv Q v by (auto simp: bfs_inv_def queue_inv_def)
  ultimately show ?case using v IH(3) by (cases "at (sd_color st) v") (auto simp: edge_done_def)
qed

lemma distance_walk: "reachable_from g s v \<Longrightarrow> walk g (distance g s v) s v"
  unfolding reachable_from_def distance_def by (rule LeastI_ex)

lemma distance_le: "walk g k s v \<Longrightarrow> distance g s v \<le> k"
  unfolding distance_def by (rule Least_le)

text \<open>What the result of a search says.\<close>

definition bfs_result :: "graph \<Rightarrow> int \<Rightarrow> search_data \<Rightarrow> bool" where
  "bfs_result g s dat \<longleftrightarrow>
     int (length (sd_pi dat)) = g_V g \<and>
     (\<forall>v. in_range g v \<longrightarrow>
       (if reachable_from g s v
        then at (sd_color dat) v = BLACK \<and> at (sd_d dat) v = int (distance g s v) \<and>
          int (distance g s v) < g_V g \<and>
          (if v = s then at (sd_pi dat) v = INVALID_VERTEX
           else in_range g (at (sd_pi dat) v) \<and> (at (sd_pi dat) v, v) \<in> edges g \<and>
             reachable_from g s (at (sd_pi dat) v) \<and>
             distance g s v = distance g s (at (sd_pi dat) v) + 1)
        else at (sd_color dat) v = WHITE \<and> at (sd_d dat) v = INT_MAX \<and>
          at (sd_pi dat) v = INVALID_VERTEX))"

lemma bfs_inv_distance:
  assumes g: "graph_ok g" and inv: "bfs_inv g s st" and Q: "bs_Q st = []" and s: "in_range g s"
    and v: "in_range g v"
  shows "at (sd_color st) v \<noteq> WHITE \<longleftrightarrow> reachable_from g s v"
    and "reachable_from g s v \<Longrightarrow> at (sd_color st) v = BLACK \<and> at (sd_d st) v = int (distance g s v)"
proof -
  note final = bfs_final [OF g inv Q s]
  have vinv: "vertex_inv g s st v" using inv v by (simp add: bfs_inv_def)
  show nonwhite: "at (sd_color st) v \<noteq> WHITE \<longleftrightarrow> reachable_from g s v"
  proof
    assume "at (sd_color st) v \<noteq> WHITE"
    with vinv show "reachable_from g s v" by (auto simp: vertex_inv_def reachable_from_def)
  next
    assume "reachable_from g s v"
    from final [OF distance_walk [OF this]] show "at (sd_color st) v \<noteq> WHITE" by simp
  qed
  assume r: "reachable_from g s v"
  with nonwhite vinv have "0 \<le> at (sd_d st) v" "walk g (nat (at (sd_d st) v)) s v"
    by (auto simp: vertex_inv_def)
  with distance_le [of g "nat (at (sd_d st) v)" s v] final [OF distance_walk [OF r]]
  show "at (sd_color st) v = BLACK \<and> at (sd_d st) v = int (distance g s v)" by linarith
qed

lemma bfs_inv_result:
  assumes g: "graph_ok g" and inv: "bfs_inv g s st" and Q: "bs_Q st = []" and s: "in_range g s"
  shows "bfs_result g s \<lparr>sd_pi = sd_pi st, sd_color = sd_color st, sd_d = sd_d st\<rparr>"
proof -
  note dist = bfs_inv_distance [OF g inv Q s]
  let ?dat = "\<lparr>sd_pi = sd_pi st, sd_color = sd_color st, sd_d = sd_d st\<rparr>"
  have "if reachable_from g s v
      then at (sd_color st) v = BLACK \<and> at (sd_d st) v = int (distance g s v) \<and>
        int (distance g s v) < g_V g \<and>
        (if v = s then at (sd_pi st) v = INVALID_VERTEX
         else in_range g (at (sd_pi st) v) \<and> (at (sd_pi st) v, v) \<in> edges g \<and>
           reachable_from g s (at (sd_pi st) v) \<and>
           distance g s v = distance g s (at (sd_pi st) v) + 1)
      else at (sd_color st) v = WHITE \<and> at (sd_d st) v = INT_MAX \<and> at (sd_pi st) v = INVALID_VERTEX"
    if v: "in_range g v" for v
  proof -
    have vinv: "vertex_inv g s st v" using inv v by (simp add: bfs_inv_def)
    show ?thesis
    proof (cases "reachable_from g s v")
      case False
      with dist(1) [OF v] vinv show ?thesis by (auto simp: vertex_inv_def)
    next
      case True
      note dv = dist(2) [OF v True]
      show ?thesis
      proof (cases "v = s")
        case True
        with vinv dv \<open>reachable_from g s v\<close> show ?thesis by (simp add: vertex_inv_def)
      next
        case False
        let ?p = "at (sd_pi st) v"
        from False vinv dv have p: "in_range g ?p" "at (sd_color st) ?p \<noteq> WHITE" "v \<in> set (adj_of g ?p)"
          "at (sd_d st) v = at (sd_d st) ?p + 1" "at (sd_d st) v < g_V g"
          by (auto simp: vertex_inv_def)
        from dist(1) [OF p(1)] p(2) have "reachable_from g s ?p" by simp
        with dist(2) [OF p(1)] p dv False \<open>reachable_from g s v\<close> show ?thesis
          by (simp add: edges_def)
      qed
    qed
  qed
  then show ?thesis
    using inv by (simp add: bfs_result_def bfs_inv_def sizes_ok_def)
qed

text \<open>A finished loop has popped every vertex that can be reached.\<close>

lemma bfs_finished_pops:
  assumes g: "graph_ok g" and inv: "bfs_inv g s st" and Q: "bs_Q st = []" and s: "in_range g s" and pops: "pops_inv g st"
  shows "bs_pops st = card (reach_set g s)"
proof -
  have "{v. in_range g v \<and> at (sd_color st) v \<noteq> WHITE} = reach_set g s"
    using bfs_inv_distance(1) [OF g inv Q s] by (auto simp: reach_set_def)
  moreover have "int (length (sd_color st)) = g_V g" using inv by (simp add: bfs_inv_def sizes_ok_def)
  note white_count_card [OF this]
  ultimately show ?thesis using pops Q by (simp add: pops_inv_def)
qed

lemma bfs_correct:
  assumes g: "graph_ok g" and fits: "g_V g \<le> INT_MAX" and s: "in_range g s" and b: "0 < b"
  shows "if card (reach_set g s) < b
    then \<exists>dat. BreadthFirstSearch b (Some g) s = Inr dat \<and> bfs_result g s dat
    else BreadthFirstSearch b (Some g) s = Inl UseAfterFree"
proof -
  from bfs_init_ok [OF g s] obtain st0 where st0: "bfs_init g s = Inr st0" "bfs_inv g s st0" "pops_inv g st0"
    "bs_pops st0 = 0" by blast
  with b have "bs_pops st0 < b" by simp
  from bfs_loop_ok [OF g fits st0(2,3) this]
  have "(card (reach_set g s) < b \<and> (\<exists>st. bfs_loop b g st0 = Inr st \<and> bfs_inv g s st \<and> bs_Q st = [])) \<or>
      (b \<le> card (reach_set g s) \<and> bfs_loop b g st0 = Inl UseAfterFree)"
    using bfs_finished_pops [OF g _ _ s] by metis
  with bfs_inv_result [OF g _ _ s] st0(1) show ?thesis
    unfolding BreadthFirstSearch_def by fastforce
qed

lemma bfs_returns:
  assumes "graph_ok g" "g_V g \<le> INT_MAX" "in_range g s" "0 < b" "BreadthFirstSearch b (Some g) s = Inr dat"
  shows "bfs_result g s dat"
  using bfs_correct [OF assms(1-4)] assms(5) by (auto split: if_splits)

section \<open>Printing a path\<close>

text \<open>
  The stream that the caller names, or \<open>cout\<close>. The recursive call does not pass the stream on: its
  output goes to \<open>cout\<close>. The recursion follows \<open>pi\<close> and is given fuel.
\<close>

datatype stream = Cout | Given

fun print_path_aux ::
  "nat \<Rightarrow> graph \<Rightarrow> int \<Rightarrow> int \<Rightarrow> int list \<Rightarrow> stream \<Rightarrow> (fault + (stream \<times> string) list) option" where
  "print_path_aux 0 g s v p out = None"
| "print_path_aux (Suc n) g s v p out =
     (if v = s then Some (bindE (graph_vertex g v) (\<lambda>x. Inr [(out, show_vertex x)]))
      else
        (case ivec_at p v of
           Inl f \<Rightarrow> Some (Inl f)
         | Inr pv \<Rightarrow>
             if pv = INVALID_VERTEX then
               Some (bindE (graph_vertex g s) (\<lambda>x. bindE (graph_vertex g v) (\<lambda>y.
                 Inr [(out, ''No path from '' @ show_vertex x @ '' to '' @ show_vertex y @ '' exists.'' @ ENDL)])))
             else
               (case print_path_aux n g s pv p Cout of
                  None \<Rightarrow> None
                | Some (Inl f) \<Rightarrow> Some (Inl f)
                | Some (Inr ws) \<Rightarrow>
                    Some (bindE (graph_vertex g v) (\<lambda>y. Inr (ws @ [(out, '' -> '' @ show_vertex y)]))))))"

definition print_path ::
  "nat \<Rightarrow> graph \<Rightarrow> int \<Rightarrow> int \<Rightarrow> int list \<Rightarrow> stream \<Rightarrow> (fault + (stream \<times> string) list) option" where
  "print_path n g s v p out =
     (case print_path_aux n g s v p out of
        None \<Rightarrow> None
      | Some r \<Rightarrow> Some (bindE r (\<lambda>ws. Inr (ws @ [(out, ENDL)]))))"

definition written :: "stream \<Rightarrow> (stream \<times> string) list \<Rightarrow> string" where
  "written out ws = concat (map snd (filter (\<lambda>w. fst w = out) ws))"

definition path_texts :: "int list \<Rightarrow> string list" where
  "path_texts path = string_of_int (hd path) # map (\<lambda>v. '' -> '' @ string_of_int v) (tl path)"

definition is_path :: "graph \<Rightarrow> int list \<Rightarrow> int \<Rightarrow> int \<Rightarrow> bool" where
  "is_path g path s v \<longleftrightarrow>
     path \<noteq> [] \<and> hd path = s \<and> last path = v \<and>
     (\<forall>i. Suc i < length path \<longrightarrow> (path ! i, path ! Suc i) \<in> edges g)"

lemma show_vertex_at:
  assumes "graph_ok g" "in_range g v"
  shows "\<exists>x. graph_vertex g v = Inr x \<and> show_vertex x = string_of_int v"
proof -
  from vertex_in_range [OF assms(1)] assms(2) obtain x where "graph_vertex g v = Inr x" "vx_index x = v"
    "x \<in> set (g_vertices g)" by (auto simp: graph_vertex_def in_range_def)
  with assms(1) show ?thesis by (auto simp: graph_ok_def show_vertex_def)
qed

lemma is_path_snoc:
  "is_path g path s u \<Longrightarrow> (u, v) \<in> edges g \<Longrightarrow> is_path g (path @ [v]) s v"
  by (auto simp: is_path_def nth_append last_conv_nth less_Suc_eq)
    (metis One_nat_def Suc_lessI Suc_less_eq diff_Suc_1 length_greater_0_conv)

lemma print_path_aux_ok:
  assumes g: "graph_ok g" and s: "in_range g s" and res: "bfs_result g s dat"
  shows "in_range g v \<Longrightarrow> reachable_from g s v \<Longrightarrow> distance g s v = k \<Longrightarrow> k < n \<Longrightarrow>
    \<exists>path. is_path g path s v \<and> length path = Suc k \<and>
      print_path_aux n g s v (sd_pi dat) out =
        Some (Inr (map (Pair Cout) (butlast (path_texts path)) @ [(out, last (path_texts path))]))"
proof (induction k arbitrary: v n out)
  case (0 v n out)
  then have "walk g 0 s v" using distance_walk [of g s v] by simp
  then have "v = s" by simp
  moreover obtain m where "n = Suc m" using 0 by (cases n) auto
  ultimately show ?case
    using show_vertex_at [OF g s]
    by (auto simp: is_path_def path_texts_def intro!: exI [of _ "[s]"])
next
  case (Suc k v n out)
  have ne: "v \<noteq> s" using Suc.prems distance_le [of g 0 s s] by auto
  let ?p = "at (sd_pi dat) v"
  from res Suc.prems ne have p: "in_range g ?p" "(?p, v) \<in> edges g" "reachable_from g s ?p" "distance g s ?p = k"
    by (auto simp: bfs_result_def)
  obtain m where n: "n = Suc m" using Suc.prems by (cases n) auto
  with Suc.prems have "k < m" by simp
  from Suc.IH [OF p(1,3,4) this, of Cout] obtain path where path: "is_path g path s ?p" "length path = Suc k"
    "print_path_aux m g s ?p (sd_pi dat) Cout =
      Some (Inr (map (Pair Cout) (butlast (path_texts path)) @ [(Cout, last (path_texts path))]))"
    by blast
  have texts: "path_texts (path @ [v]) = path_texts path @ ['' -> '' @ string_of_int v]"
    "path_texts path \<noteq> []"
    using path(1) by (cases path; simp add: path_texts_def is_path_def)+
  then have all: "map (Pair Cout) (butlast (path_texts path)) @ [(Cout, last (path_texts path))] =
      map (Pair Cout) (path_texts path)"
    by (metis append_butlast_last_id list.simps(8,9) map_append)
  have "ivec_at (sd_pi dat) v = Inr ?p"
    using res Suc.prems(1) by (simp add: bfs_result_def in_range_def at_def)
  moreover have "?p \<noteq> INVALID_VERTEX" using p(1) by auto
  moreover obtain x where "graph_vertex g v = Inr x" "show_vertex x = string_of_int v"
    using show_vertex_at [OF g Suc.prems(1)] by blast
  ultimately have "print_path_aux n g s v (sd_pi dat) out =
      Some (Inr (map (Pair Cout) (path_texts path) @ [(out, '' -> '' @ string_of_int v)]))"
    using ne path(3) by (simp add: n all)
  with is_path_snoc [OF path(1) p(2)] path(2) texts show ?case
    by (intro exI [of _ "path @ [v]"]) simp
qed

lemma written_Cons [simp]:
  "written out (w # ws) = (if fst w = out then snd w else []) @ written out ws"
  by (simp add: written_def)

lemma written_simps [simp]:
  "written out (xs @ ys) = written out xs @ written out ys"
  "written out [(o', t)] = (if o' = out then t else [])"
  "written out [] = []"
  by (simp_all add: written_def)

lemma written_Pair [simp]: "written out (map (Pair o') ts) = (if o' = out then concat ts else [])"
  by (induction ts) (simp_all add: written_Cons del: map_map)

lemma print_path_ok:
  assumes g: "graph_ok g" and s: "in_range g s" and v: "in_range g v" "reachable_from g s v"
    and result: "bfs_result g s dat" and n: "nat (g_V g) \<le> n"
  shows "\<exists>path ws. is_path g path s v \<and> length path = Suc (distance g s v) \<and>
    print_path n g s v (sd_pi dat) out = Some (Inr ws) \<and>
    ws = map (Pair Cout) (butlast (path_texts path)) @ [(out, last (path_texts path)), (out, ENDL)]"
proof -
  from result v have "int (distance g s v) < g_V g" by (simp add: bfs_result_def)
  with n have "distance g s v < n" by linarith
  from print_path_aux_ok [OF g s result v refl this, of out] show ?thesis
    by (auto simp: print_path_def)
qed

definition chain3 :: graph where
  "chain3 = \<lparr>g_vertices = [\<lparr>vx_index = 0, vx_data = None, vx_adj = [1]\<rparr>,
      \<lparr>vx_index = 1, vx_data = None, vx_adj = [2, 0]\<rparr>, \<lparr>vx_index = 2, vx_data = None, vx_adj = []\<rparr>],
    g_V = 3, g_directed = GRAPHTYPE_DIRECTED\<rparr>"

lemma chain3_ok: "graph_ok chain3" "in_range chain3 0" "in_range chain3 1"
  by (auto simp: graph_ok_def chain3_def vertex_ok_def in_range_def upto.simps)

lemma chain3_bfs:
  "BreadthFirstSearch 128 (Some chain3) 0 =
     Inr \<lparr>sd_pi = [-1, 0, 1], sd_color = [BLACK, BLACK, BLACK], sd_d = [0, 1, 2]\<rparr>"
  by code_simp

section \<open>Properties\<close>

lemma chain3_fits: "g_V chain3 \<le> INT_MAX" "nat (g_V chain3) \<le> 3"
  by (simp_all add: chain3_def INT_MAX_def)

lemma chain3_reach: "reachable_from chain3 0 1"
  unfolding reachable_from_def by (rule exI [of _ "Suc 0"]) (simp add: chain3_def adj_of_def)

lemma chain3_result: "bfs_result chain3 0 \<lparr>sd_pi = [-1, 0, 1], sd_color = [BLACK, BLACK, BLACK], sd_d = [0, 1, 2]\<rparr>"
  by (rule bfs_returns [OF chain3_ok(1) chain3_fits(1) chain3_ok(2) _ chain3_bfs]) simp

text \<open>
  C32: On every well-formed graph and start vertex the search is right as long as the queue keeps what
  it popped, and reads freed memory otherwise. With fewer than \<open>b\<close> vertices within reach it returns: a
  vertex is black exactly when it can be reached, \<open>d\<close> is then the length of a shortest walk from the
  start, and \<open>pi\<close> is a predecessor on a shortest walk; every other vertex stays white with \<open>INT_MAX\<close> and
  no parent. With \<open>b\<close> or more vertices within reach the \<open>b\<close>-th pop gives back the memory that the
  reference \<open>u\<close> then reads. For libstdc++ \<open>b\<close> is 128; the language promises no more than 1, with which no
  search is defined.
\<close>

theorem bfs_shortest_walks:
  assumes "graph_ok g" "g_V g \<le> INT_MAX" "in_range g s" "0 < b"
  shows "if card (reach_set g s) < b
    then \<exists>dat. BreadthFirstSearch b (Some g) s = Inr dat \<and> bfs_result g s dat
    else BreadthFirstSearch b (Some g) s = Inl UseAfterFree"
  by (rule bfs_correct [OF assms])

lemma chain3_reach_set: "card (reach_set chain3 0) < 128" "1 \<le> card (reach_set chain3 0)"
proof -
  have fin: "finite (reach_set chain3 0)" by (simp add: reach_set_def finite_range)
  have "reach_set chain3 0 \<subseteq> {0..2}" by (auto simp: reach_set_def in_range_def chain3_def)
  from card_mono [OF _ this] show "card (reach_set chain3 0) < 128" by simp
  have "1 \<in> reach_set chain3 0" using chain3_ok(3) chain3_reach by (simp add: reach_set_def)
  with fin show "1 \<le> card (reach_set chain3 0)"
    by (metis One_nat_def Suc_leI card_gt_0_iff empty_iff)
qed

theorem bfs_shortest_walks_witness:
  "(\<exists>dat. BreadthFirstSearch 128 (Some chain3) 0 = Inr dat \<and> bfs_result chain3 0 dat) \<and>
   BreadthFirstSearch 1 (Some chain3) 0 = Inl UseAfterFree"
  using bfs_shortest_walks [OF chain3_ok(1) chain3_fits(1) chain3_ok(2), of 128]
    bfs_shortest_walks [OF chain3_ok(1) chain3_fits(1) chain3_ok(2), of 1] chain3_reach_set by simp

text \<open>
  Printing a path to \<open>cout\<close> after a search writes a shortest path: for every vertex that can be
  reached the text is the vertices of a path from the start, as long as the distance, joined by
  arrows and closed by an end of line; a recursion depth of the number of vertices is enough.
\<close>

theorem print_path_writes_shortest:
  assumes "graph_ok g" "in_range g s" "in_range g v" "reachable_from g s v"
    and "bfs_result g s dat" "nat (g_V g) \<le> n"
  shows "\<exists>path ws. is_path g path s v \<and> length path = Suc (distance g s v) \<and>
    print_path n g s v (sd_pi dat) Cout = Some (Inr ws) \<and>
    written Cout ws = concat (path_texts path) @ ENDL"
proof -
  from print_path_ok [OF assms, of Cout] obtain path ws where p: "is_path g path s v"
    "length path = Suc (distance g s v)" "print_path n g s v (sd_pi dat) Cout = Some (Inr ws)"
    "ws = map (Pair Cout) (butlast (path_texts path)) @ [(Cout, last (path_texts path)), (Cout, ENDL)]"
    by blast
  have "ws = map (Pair Cout) (path_texts path) @ [(Cout, ENDL)]"
    unfolding p(4) by (cases "path_texts path" rule: rev_cases) (simp_all add: path_texts_def)
  with p(1-3) show ?thesis by auto
qed

theorem print_path_writes_shortest_witness:
  "\<exists>path ws. is_path chain3 path 0 1 \<and> print_path 3 chain3 0 1 [-1, 0, 1] Cout = Some (Inr ws) \<and>
     written Cout ws = concat (path_texts path) @ ENDL"
  using print_path_writes_shortest [OF chain3_ok chain3_reach chain3_result chain3_fits(2)] by auto

text \<open>
  On any other stream a path of at least one edge arrives truncated: only the last arrow and
  vertex and the end of line reach the stream of the caller, the part before goes to \<open>cout\<close>.
\<close>

theorem print_path_loses_stream:
  assumes "graph_ok g" "in_range g s" "in_range g v" "reachable_from g s v" "v \<noteq> s"
    and "bfs_result g s dat" "nat (g_V g) \<le> n"
  shows "\<exists>ws. print_path n g s v (sd_pi dat) Given = Some (Inr ws) \<and>
    written Given ws = '' -> '' @ string_of_int v @ ENDL \<and> written Cout ws \<noteq> []"
proof -
  from print_path_ok [OF assms(1-4,6,7), of Given] obtain path ws where p: "is_path g path s v"
    "print_path n g s v (sd_pi dat) Given = Some (Inr ws)"
    "ws = map (Pair Cout) (butlast (path_texts path)) @ [(Given, last (path_texts path)), (Given, ENDL)]"
    by blast
  from p(1) obtain xs where path: "path = xs @ [v]"
    by (metis append_butlast_last_id is_path_def)
  with p(1) assms(5) obtain x xs' where xs: "xs = x # xs'" by (cases xs) (auto simp: is_path_def)
  have "path_texts path = (string_of_int x # map (\<lambda>v. '' -> '' @ string_of_int v) xs') @ ['' -> '' @ string_of_int v]"
    by (simp add: path xs path_texts_def)
  moreover have "string_of_int x \<noteq> []" using string_of_nat_nonempty by (simp add: string_of_int_def)
  ultimately show ?thesis using p(2) unfolding p(3) by (simp del: map_map)
qed

theorem print_path_loses_stream_witness:
  "\<exists>ws. print_path 3 chain3 0 1 [-1, 0, 1] Given = Some (Inr ws) \<and>
     written Given ws = '' -> '' @ string_of_int 1 @ ENDL \<and> written Cout ws \<noteq> []"
  using print_path_loses_stream [OF chain3_ok chain3_reach _ chain3_result chain3_fits(2)] by simp

end
