(* ===== verification/DFS.thy ===== *)
theory DFS
  imports BFS
begin

text \<open>
  \<open>DepthFirstSearch\<close>, \<^verbatim>\<open>pmud/graph/include/DFS.h\<close>: the recursive visit with its clock, the loop over
  the roots, and the printing of its result. The recursion is given fuel; a depth of the number of
  white vertices is enough. The clock is an \<open>int\<close> that counts to twice the number of vertices: its
  increments are checked.
\<close>

section \<open>The search\<close>

record dfs_state =
  df_pi :: "int list"
  df_color :: "color list"
  df_d :: "int list"
  df_f :: "int list"
  df_time :: int

text \<open>\<open>color[u] = GRAY; d[u] = time++;\<close> and \<open>color[u] = BLACK; f[u] = time++;\<close>\<close>

definition dfs_enter :: "int \<Rightarrow> dfs_state \<Rightarrow> fault + dfs_state" where
  "dfs_enter u st =
     bindE (ivec_set (df_color st) u GRAY) (\<lambda>c.
     bindE (int_fit (df_time st + 1)) (\<lambda>t.
     bindE (ivec_set (df_d st) u (df_time st)) (\<lambda>d.
       Inr (st\<lparr>df_color := c, df_d := d, df_time := t\<rparr>))))"

definition dfs_leave :: "int \<Rightarrow> dfs_state \<Rightarrow> fault + dfs_state" where
  "dfs_leave u st =
     bindE (ivec_set (df_color st) u BLACK) (\<lambda>c.
     bindE (int_fit (df_time st + 1)) (\<lambda>t.
     bindE (ivec_set (df_f st) u (df_time st)) (\<lambda>f.
       Inr (st\<lparr>df_color := c, df_f := f, df_time := t\<rparr>))))"

definition dfs_parent :: "int \<Rightarrow> int \<Rightarrow> dfs_state \<Rightarrow> fault + dfs_state" where
  "dfs_parent v u st = bindE (ivec_set (df_pi st) v u) (\<lambda>p. Inr (st\<lparr>df_pi := p\<rparr>))"

fun dfs_visit :: "nat \<Rightarrow> graph \<Rightarrow> int \<Rightarrow> dfs_state \<Rightarrow> dfs_state result"
  and dfs_edges :: "nat \<Rightarrow> graph \<Rightarrow> int \<Rightarrow> int list \<Rightarrow> dfs_state \<Rightarrow> dfs_state result" where
  "dfs_visit 0 g u st = None"
| "dfs_visit (Suc n) g u st =
     bindR (Some (dfs_enter u st)) (\<lambda>st1.
     bindR (Some (graph_vertex g u)) (\<lambda>x.
     bindR (dfs_edges n g u (vx_adj x) st1) (\<lambda>st2.
       Some (dfs_leave u st2))))"
| "dfs_edges n g u [] st = Some (Inr st)"
| "dfs_edges n g u (v # vs) st =
     bindR (Some (ivec_at (df_color st) v)) (\<lambda>c.
       if c = WHITE then
         bindR (Some (dfs_parent v u st)) (\<lambda>st1.
         bindR (dfs_visit n g v st1) (\<lambda>st2.
           dfs_edges n g u vs st2))
       else dfs_edges n g u vs st)"

text \<open>The loop over the remaining vertices.\<close>

fun dfs_roots :: "nat \<Rightarrow> graph \<Rightarrow> int \<Rightarrow> int list \<Rightarrow> dfs_state \<Rightarrow> dfs_state result" where
  "dfs_roots n g s [] st = Some (Inr st)"
| "dfs_roots n g s (u # us) st =
     (if u = s then dfs_roots n g s us st
      else bindR (Some (ivec_at (df_color st) u)) (\<lambda>c.
        if c = WHITE then bindR (dfs_visit n g u st) (\<lambda>st1. dfs_roots n g s us st1)
        else dfs_roots n g s us st))"

definition dfs_init_vertex :: "int \<Rightarrow> dfs_state \<Rightarrow> fault + dfs_state" where
  "dfs_init_vertex u st =
     bindE (ivec_set (df_color st) u WHITE) (\<lambda>c.
     bindE (ivec_set (df_pi st) u (-1)) (\<lambda>p.
     bindE (ivec_set (df_d st) u (-1)) (\<lambda>d.
     bindE (ivec_set (df_f st) u (-1)) (\<lambda>f.
       Inr (st\<lparr>df_color := c, df_pi := p, df_d := d, df_f := f\<rparr>)))))"

definition dfs_init :: "graph \<Rightarrow> fault + dfs_state" where
  "dfs_init g =
     (let V = nat (g_V g) in
      if g_V g < 0 then Inl (Thrown ''length_error'')
      else foldE dfs_init_vertex [0..g_V g - 1]
        \<lparr>df_pi = replicate V 0, df_color = replicate V WHITE, df_d = replicate V 0,
         df_f = replicate V 0, df_time = 0\<rparr>)"

definition DepthFirstSearch :: "nat \<Rightarrow> graph option \<Rightarrow> int \<Rightarrow> dfs_state result" where
  "DepthFirstSearch n graph s =
     (case graph of
        None \<Rightarrow> Some (Inl (Thrown ''graph is null''))
      | Some g \<Rightarrow>
          bindR (Some (dfs_init g)) (\<lambda>st.
          bindR (dfs_visit n g s st) (\<lambda>st1.
            dfs_roots n g s [0..g_V g - 1] st1)))"

section \<open>Output\<close>

text \<open>
  \<open>std::sort\<close> leaves the order of equal elements open; the times of a search are all different, so
  the result is the same for any order it may choose.
\<close>

definition sort_by_discovery :: "int list \<Rightarrow> (int \<times> int) list" where
  "sort_by_discovery source = sort_key snd (zip [0..int (length source) - 1] source)"

definition print_data_vec :: "graph \<Rightarrow> (int \<times> int) list \<Rightarrow> string \<Rightarrow> fault + string" where
  "print_data_vec g tv out =
     foldE (\<lambda>(i, t) out.
       bindE (graph_vertex g i) (\<lambda>x.
         Inr (out @ ''('' @ setw 3 (show_vertex x) @ '','' @ setw 3 (string_of_int t) @ '') '')))
       tv out"

definition show_search_data :: "graph option \<Rightarrow> dfs_state \<Rightarrow> fault + string" where
  "show_search_data pGraph st =
     (case pGraph of
        None \<Rightarrow> Inr (''graph is no longer available.'' @ ENDL)
      | Some g \<Rightarrow>
          bindE (print_data_vec g (sort_by_discovery (df_d st)) '' d: '') (\<lambda>out.
          bindE (print_data_vec g (sort_by_discovery (df_f st)) (out @ ENDL @ '' f: '')) (\<lambda>out.
            foldE (\<lambda>x out. bindE (ivec_at (df_pi st) (vx_index x)) (\<lambda>p.
                Inr (out @ ''('' @ setw 3 (show_vertex x) @ '','' @ setw 3 (string_of_int p) @ '') '')))
              (g_vertices g) (out @ ENDL @ ''pi: ''))))"

definition printDotDfsAnnotate :: "graph \<Rightarrow> dot_graph_type \<Rightarrow> dfs_state \<Rightarrow> fault + string" where
  "printDotDfsAnnotate g strict st =
     (let connector = (if isDirected g then ''->'' else ''--'');
          start = (if strict = DOT_STRICT then ''strict '' else []) @
                  (if isDirected g then ''digraph {'' else ''graph {'') @ ENDL
      in bindE (foldE (\<lambda>x out.
             bindE (ivec_at (df_d st) (vx_index x)) (\<lambda>d.
             bindE (ivec_at (df_f st) (vx_index x)) (\<lambda>f.
               Inr (out @ ''  '' @ show_vertex x @ '' [xlabel='' @ [CHR 0x22] @ ''('' @ string_of_int d @
                 ''..'' @ string_of_int f @ '')'' @ [CHR 0x22] @ '' fontsize='' @ [CHR 0x22] @ ''8'' @
                 [CHR 0x22] @ '']'' @ ENDL))))
             (g_vertices g) start) (\<lambda>out.
         bindE (foldE (\<lambda>x out. foldE (\<lambda>y out.
             bindE (graph_vertex g y) (\<lambda>z.
               Inr (out @ ''  '' @ show_vertex x @ '' '' @ connector @ '' '' @ show_vertex z @ ENDL)))
             (vx_adj x) out) (g_vertices g) out)
           (\<lambda>out. Inr (out @ ''}'' @ ENDL))))"

section \<open>The invariant\<close>

definition weight :: "color \<Rightarrow> nat" where
  "weight c = (case c of WHITE \<Rightarrow> 0 | GRAY \<Rightarrow> 1 | BLACK \<Rightarrow> 2)"

definition col :: "dfs_state \<Rightarrow> int \<Rightarrow> color" where "col st v = at (df_color st) v"
definition dis :: "dfs_state \<Rightarrow> int \<Rightarrow> int" where "dis st v = at (df_d st) v"
definition fin :: "dfs_state \<Rightarrow> int \<Rightarrow> int" where "fin st v = at (df_f st) v"
definition par :: "dfs_state \<Rightarrow> int \<Rightarrow> int" where "par st v = at (df_pi st) v"

definition dfs_sizes :: "graph \<Rightarrow> dfs_state \<Rightarrow> bool" where
  "dfs_sizes g st \<longleftrightarrow>
     int (length (df_color st)) = g_V g \<and> int (length (df_d st)) = g_V g \<and>
     int (length (df_f st)) = g_V g \<and> int (length (df_pi st)) = g_V g"

definition clock_ok :: "dfs_state \<Rightarrow> int \<Rightarrow> bool" where
  "clock_ok st v \<longleftrightarrow>
     (case col st v of
        WHITE \<Rightarrow> dis st v = -1 \<and> fin st v = -1
      | GRAY \<Rightarrow> 0 \<le> dis st v \<and> dis st v < df_time st \<and> fin st v = -1
      | BLACK \<Rightarrow> 0 \<le> dis st v \<and> dis st v < fin st v \<and> fin st v < df_time st)"

definition times_differ :: "dfs_state \<Rightarrow> int \<Rightarrow> int \<Rightarrow> bool" where
  "times_differ st u v \<longleftrightarrow>
     (u \<noteq> v \<longrightarrow> col st u \<noteq> WHITE \<longrightarrow> col st v \<noteq> WHITE \<longrightarrow> dis st u \<noteq> dis st v) \<and>
     (u \<noteq> v \<longrightarrow> col st u = BLACK \<longrightarrow> col st v = BLACK \<longrightarrow> fin st u \<noteq> fin st v) \<and>
     (col st u \<noteq> WHITE \<longrightarrow> col st v = BLACK \<longrightarrow> dis st u \<noteq> fin st v)"

definition nested :: "dfs_state \<Rightarrow> int \<Rightarrow> int \<Rightarrow> bool" where
  "nested st u v \<longleftrightarrow> dis st u < dis st v \<and> fin st v < fin st u"

definition brackets_ok :: "dfs_state \<Rightarrow> int \<Rightarrow> int \<Rightarrow> bool" where
  "brackets_ok st u v \<longleftrightarrow>
     (u \<noteq> v \<longrightarrow> col st u = BLACK \<longrightarrow> col st v = BLACK \<longrightarrow>
        fin st u < dis st v \<or> fin st v < dis st u \<or> nested st u v \<or> nested st v u) \<and>
     (col st u = BLACK \<longrightarrow> col st v = GRAY \<longrightarrow> fin st u < dis st v \<or> dis st v < dis st u)"

definition parent_ok :: "graph \<Rightarrow> dfs_state \<Rightarrow> int \<Rightarrow> bool" where
  "parent_ok g st v \<longleftrightarrow>
     (col st v \<noteq> WHITE \<longrightarrow> par st v \<noteq> -1 \<longrightarrow>
        (par st v, v) \<in> edges g \<and> col st (par st v) \<noteq> WHITE \<and> dis st (par st v) < dis st v \<and>
        (col st (par st v) = BLACK \<longrightarrow> col st v = BLACK \<and> fin st v < fin st (par st v)))"

text \<open>
  \<open>u\<close> was entered before \<open>v\<close> and had not been left by then. The parent of \<open>v\<close> is the last of these: every
  other one was entered before the parent, and is the parent's in turn.
\<close>

definition covers :: "dfs_state \<Rightarrow> int \<Rightarrow> int \<Rightarrow> bool" where
  "covers st u v \<longleftrightarrow> col st u \<noteq> WHITE \<and> col st v \<noteq> WHITE \<and> dis st u < dis st v \<and>
     (col st u = BLACK \<longrightarrow> dis st v < fin st u)"

definition innermost_ok :: "dfs_state \<Rightarrow> int \<Rightarrow> int \<Rightarrow> bool" where
  "innermost_ok st u v \<longleftrightarrow>
     (covers st u v \<longrightarrow> par st v \<noteq> -1 \<and> (u = par st v \<or> covers st u (par st v)))"

definition edge_seen :: "dfs_state \<Rightarrow> int \<Rightarrow> int \<Rightarrow> bool" where
  "edge_seen st u v \<longleftrightarrow> col st u = BLACK \<longrightarrow> col st v \<noteq> WHITE \<and> dis st v < fin st u"

definition dfs_inv :: "graph \<Rightarrow> dfs_state \<Rightarrow> bool" where
  "dfs_inv g st \<longleftrightarrow>
     dfs_sizes g st \<and> df_time st = int (sum_list (map weight (df_color st))) \<and>
     (\<forall>v. in_range g v \<longrightarrow> clock_ok st v) \<and>
     (\<forall>u v. in_range g u \<longrightarrow> in_range g v \<longrightarrow> times_differ st u v \<and> brackets_ok st u v) \<and>
     (\<forall>v. in_range g v \<longrightarrow> parent_ok g st v) \<and>
     (\<forall>u v. in_range g u \<longrightarrow> in_range g v \<longrightarrow> innermost_ok st u v) \<and>
     (\<forall>(u, v) \<in> edges g. edge_seen st u v)"

text \<open>The last gray vertex that was entered, and what a white vertex needs to be entered.\<close>

definition top_gray :: "graph \<Rightarrow> dfs_state \<Rightarrow> int \<Rightarrow> bool" where
  "top_gray g st u \<longleftrightarrow> col st u = GRAY \<and>
     (\<forall>x. in_range g x \<longrightarrow> x \<noteq> u \<longrightarrow> col st x = GRAY \<longrightarrow> dis st x < dis st u)"

definition entry_ok :: "graph \<Rightarrow> dfs_state \<Rightarrow> int \<Rightarrow> bool" where
  "entry_ok g st u \<longleftrightarrow>
     (if par st u = -1 then \<forall>x. in_range g x \<longrightarrow> col st x \<noteq> GRAY
      else (par st u, u) \<in> edges g \<and> top_gray g st (par st u))"

text \<open>What a part of the search leaves as it was.\<close>

definition extends :: "graph \<Rightarrow> dfs_state \<Rightarrow> dfs_state \<Rightarrow> bool" where
  "extends g st st' \<longleftrightarrow>
     white_count (df_color st') \<le> white_count (df_color st) \<and> df_time st \<le> df_time st' \<and>
     (\<forall>v. in_range g v \<longrightarrow>
        (if col st v = WHITE
         then col st' v \<noteq> GRAY \<and> (col st' v = WHITE \<longrightarrow> par st' v = par st v)
         else col st' v = col st v \<and> dis st' v = dis st v \<and> fin st' v = fin st v \<and> par st' v = par st v))"

lemma extends_refl: "extends g st st"
  by (simp add: extends_def)

lemma extends_trans: "extends g a b \<Longrightarrow> extends g b c \<Longrightarrow> extends g a c"
  by (force simp: extends_def split: if_splits)

lemma edge_range: "graph_ok g \<Longrightarrow> (u, v) \<in> edges g \<Longrightarrow> in_range g u \<and> in_range g v"
  using adj_in_range [of g v u] by (simp add: edges_def in_range_def)

section \<open>The steps of a visit\<close>

lemma dfs_invD:
  assumes "dfs_inv g st"
  shows "dfs_sizes g st" "df_time st = int (sum_list (map weight (df_color st)))"
    "\<And>v. in_range g v \<Longrightarrow> clock_ok st v" "\<And>v. in_range g v \<Longrightarrow> parent_ok g st v"
    "\<And>u v. in_range g u \<Longrightarrow> in_range g v \<Longrightarrow> times_differ st u v"
    "\<And>u v. in_range g u \<Longrightarrow> in_range g v \<Longrightarrow> brackets_ok st u v"
    "\<And>u v. (u, v) \<in> edges g \<Longrightarrow> edge_seen st u v"
    "\<And>u v. in_range g u \<Longrightarrow> in_range g v \<Longrightarrow> innermost_ok st u v"
  using assms by (auto simp: dfs_inv_def)

lemma weight_update:
  "i < length cs \<Longrightarrow> int (sum_list (map weight (cs[i := c]))) =
     int (sum_list (map weight cs)) + int (weight c) - int (weight (cs ! i))"
proof (induction cs arbitrary: i)
  case Nil
  then show ?case by simp
next
  case (Cons a cs)
  then show ?case by (cases i) auto
qed

text \<open>The clock stays within its bound.\<close>

lemma weight_bound: "i < length cs \<Longrightarrow> sum_list (map weight cs) + 2 \<le> 2 * length cs + weight (cs ! i)"
proof (induction cs arbitrary: i)
  case Nil
  then show ?case by simp
next
  case (Cons c cs)
  have le: "weight a \<le> 2" for a by (cases a) (simp_all add: weight_def)
  have all: "sum_list (map weight cs) \<le> 2 * length cs"
    by (induction cs) (use le in \<open>auto intro: add_mono order_trans\<close>)
  show ?case
  proof (cases i)
    case 0
    then show ?thesis using all by simp
  next
    case (Suc j)
    then show ?thesis using Cons.IH [of j] Cons.prems le [of c] by simp
  qed
qed

lemma clock_fits:
  assumes fits: "2 * g_V g \<le> INT_MAX" and inv: "dfs_inv g st" and u: "in_range g u" "col st u \<noteq> BLACK"
  shows "int_fit (df_time st + 1) = Inr (df_time st + 1)"
proof -
  from dfs_invD(1,2) [OF inv] u have len: "nat u < length (df_color st)"
    "df_time st = int (sum_list (map weight (df_color st)))" "int (length (df_color st)) = g_V g"
    by (auto simp: dfs_sizes_def in_range_def)
  have "weight (df_color st ! nat u) \<le> 1" using u(2) by (cases "df_color st ! nat u") (simp_all add: weight_def col_def at_def)
  with weight_bound [OF len(1)] len(2,3) fits show ?thesis by simp
qed

lemma dfs_enter_step:
  assumes g: "graph_ok g" and fits: "2 * g_V g \<le> INT_MAX" and inv: "dfs_inv g st"
    and u: "in_range g u" "col st u = WHITE" and entry: "entry_ok g st u"
  shows "\<exists>st1. dfs_enter u st = Inr st1 \<and> dfs_inv g st1 \<and> df_time st1 = df_time st + 1 \<and>
    Suc (white_count (df_color st1)) = white_count (df_color st) \<and>
    (\<forall>v. in_range g v \<longrightarrow> col st1 v = (if v = u then GRAY else col st v) \<and>
       dis st1 v = (if v = u then df_time st else dis st v) \<and> fin st1 v = fin st v \<and> par st1 v = par st v)"
proof -
  have clock_fit: "int_fit (df_time st + 1) = Inr (df_time st + 1)"
    using clock_fits [OF fits inv u(1)] u(2) by simp
  have p: "par st u = -1 \<or> ((par st u, u) \<in> edges g \<and> col st (par st u) = GRAY)"
    using entry by (simp add: entry_ok_def top_gray_def split: if_splits)
  note inv = dfs_invD [OF inv]
  let ?c = "(df_color st)[nat u := GRAY]" and ?d = "(df_d st)[nat u := df_time st]"
  let ?st = "st\<lparr>df_color := ?c, df_d := ?d, df_time := df_time st + 1\<rparr>"
  from inv(1) u have sizes: "int (length (df_color st)) = g_V g" "int (length (df_d st)) = g_V g"
    "0 \<le> u" "u < g_V g" by (auto simp: dfs_sizes_def in_range_def)
  have c1: "col ?st v = (if v = u then GRAY else col st v)" and d1: "dis ?st v = (if v = u then df_time st else dis st v)"
    if "in_range g v" for v
    using that sizes by (simp_all add: col_def dis_def at_update in_range_def)
  have f1: "fin ?st v = fin st v" and p1: "par ?st v = par st v" for v
    by (simp_all add: fin_def par_def)
  have run: "dfs_enter u st = Inr ?st" using sizes clock_fit by (simp add: dfs_enter_def)
  have wc: "Suc (white_count ?c) = white_count (df_color st)"
    using u(2) sizes by (intro white_count_less) (auto simp: col_def at_def)
  have "df_color st ! nat u = WHITE" using u(2) by (simp add: col_def at_def)
  then have time: "df_time ?st = int (sum_list (map weight ?c))"
    using inv(2) weight_update [of "nat u" "df_color st" GRAY] sizes by (simp add: weight_def)
  have old: "dis st v < df_time st" "col st v = BLACK \<Longrightarrow> fin st v < df_time st" "0 \<le> df_time st"
    if "in_range g v" "col st v \<noteq> WHITE" for v
    using inv(3) [OF that(1)] that(2) by (auto simp: clock_ok_def split: color.splits)
  have time0: "0 \<le> df_time st" using inv(2) by simp
  have clock: "clock_ok ?st v" if v: "in_range g v" for v
  proof (cases "v = u")
    case True
    then show ?thesis using inv(3) [OF u(1)] u(2) c1 [OF v] d1 [OF v] f1 [of v] time0
      by (simp add: clock_ok_def)
  next
    case False
    then show ?thesis using inv(3) [OF v] c1 [OF v] d1 [OF v] f1 [of v]
      by (cases "col st v") (simp_all add: clock_ok_def)
  qed
  have differ: "times_differ ?st a b" if a: "in_range g a" and b: "in_range g b" for a b
    using inv(5) [OF a b] old [OF a] old [OF b] c1 [OF a] c1 [OF b] d1 [OF a] d1 [OF b] f1 u(2)
    by (auto simp: times_differ_def split: if_splits)
  have brackets: "brackets_ok ?st a b" if a: "in_range g a" and b: "in_range g b" for a b
    using inv(6) [OF a b] old [OF a] c1 [OF a] c1 [OF b] d1 [OF a] d1 [OF b] f1
    by (auto simp: brackets_ok_def nested_def split: if_splits)
  have parents: "parent_ok g ?st v" if v: "in_range g v" for v
  proof (cases "col ?st v = WHITE \<or> par st v = -1")
    case True
    then show ?thesis by (auto simp: parent_ok_def p1)
  next
    case False
    show ?thesis
    proof (cases "v = u")
      case True
      with p False have pu: "(par st u, u) \<in> edges g" "col st (par st u) = GRAY" by auto
      then have r: "in_range g (par st u)" using edge_range [OF g] by blast
      have "par st u \<noteq> u" using pu u(2) by auto
      with True pu r old [OF r] c1 [OF r] d1 [OF r] d1 [OF v] p1 show ?thesis
        by (simp add: parent_ok_def)
    next
      case ne: False
      then have nw: "col st v \<noteq> WHITE" using False c1 [OF v] by simp
      with inv(4) [OF v] False have pv: "(par st v, v) \<in> edges g" "col st (par st v) \<noteq> WHITE"
        "dis st (par st v) < dis st v"
        "col st (par st v) = BLACK \<longrightarrow> col st v = BLACK \<and> fin st v < fin st (par st v)"
        by (auto simp: parent_ok_def)
      then have r: "in_range g (par st v)" using edge_range [OF g] by blast
      have "par st v \<noteq> u" using pv(2) u(2) by auto
      with pv ne c1 [OF r] d1 [OF r] c1 [OF v] d1 [OF v] p1 f1 show ?thesis
        by (simp add: parent_ok_def)
    qed
  qed
  have seen: "edge_seen ?st a b" if "(a, b) \<in> edges g" for a b
  proof -
    have r: "in_range g a" "in_range g b" using edge_range [OF g that] by auto
    show ?thesis using inv(7) [OF that] c1 [OF r(1)] c1 [OF r(2)] d1 [OF r(2)] f1 u(2)
      by (auto simp: edge_seen_def)
  qed
  have cov: "covers ?st a b \<longleftrightarrow> (if b = u then a \<noteq> u \<and> col st a = GRAY else a \<noteq> u \<and> covers st a b)"
    if a: "in_range g a" and b: "in_range g b" for a b
    using old [OF a] old [OF b] c1 [OF a] c1 [OF b] d1 [OF a] d1 [OF b] f1 [of a] u(2)
    by (cases "col st a"; cases "col st b") (auto simp: covers_def)
  have inner: "innermost_ok ?st a b" if a: "in_range g a" and b: "in_range g b" for a b
  proof (cases "covers ?st a b")
    case True
    show ?thesis
    proof (cases "b = u")
      case bu: True
      with cov [OF a b] True have ga: "a \<noteq> u" "col st a = GRAY" by auto
      with entry a have pu: "par st u \<noteq> -1" "(par st u, u) \<in> edges g" "top_gray g st (par st u)"
        by (auto simp: entry_ok_def split: if_splits)
      then have r: "in_range g (par st u)" "par st u \<noteq> u" using edge_range [OF g] u(2) by (auto simp: top_gray_def)
      have "a = par st u \<or> covers st a (par st u)"
        using pu(3) ga a by (auto simp: top_gray_def covers_def)
      with pu(1) r cov [OF a r(1)] ga bu p1 show ?thesis by (simp add: innermost_ok_def)
    next
      case False
      with cov [OF a b] True have ca: "a \<noteq> u" "covers st a b" by auto
      with inv(8) [OF a b] have pb: "par st b \<noteq> -1" "a = par st b \<or> covers st a (par st b)"
        by (auto simp: innermost_ok_def)
      have "par st b \<noteq> u \<and> in_range g (par st b)"
        using inv(4) [OF b] pb(1) ca u(2) edge_range [OF g] by (auto simp: parent_ok_def covers_def)
      with pb cov [OF a, of "par st b"] ca p1 show ?thesis by (auto simp: innermost_ok_def)
    qed
  qed (simp add: innermost_ok_def)
  have "dfs_inv g ?st"
    using inv(1) time clock differ brackets parents seen inner
    by (auto simp: dfs_inv_def dfs_sizes_def)
  with run wc c1 d1 f1 p1 show ?thesis by (intro exI [of _ ?st]) simp
qed

lemma dfs_leave_step:
  assumes g: "graph_ok g" and fits: "2 * g_V g \<le> INT_MAX" and inv: "dfs_inv g st"
    and u: "in_range g u" and top_gray: "top_gray g st u"
    and nbrs: "\<And>v. v \<in> set (adj_of g u) \<Longrightarrow> col st v \<noteq> WHITE"
  shows "\<exists>st1. dfs_leave u st = Inr st1 \<and> dfs_inv g st1 \<and> df_time st1 = df_time st + 1 \<and>
    white_count (df_color st1) = white_count (df_color st) \<and>
    (\<forall>v. in_range g v \<longrightarrow> col st1 v = (if v = u then BLACK else col st v) \<and> dis st1 v = dis st v \<and>
       fin st1 v = (if v = u then df_time st else fin st v) \<and> par st1 v = par st v)"
proof -
  have gray_u: "col st u = GRAY" and top: "\<And>x. in_range g x \<Longrightarrow> x \<noteq> u \<Longrightarrow> col st x = GRAY \<Longrightarrow> dis st x < dis st u"
    using top_gray by (auto simp: top_gray_def)
  note u = u gray_u
  have clock_fit: "int_fit (df_time st + 1) = Inr (df_time st + 1)"
    using clock_fits [OF fits inv u(1)] u(2) by simp
  note inv = dfs_invD [OF inv]
  let ?c = "(df_color st)[nat u := BLACK]" and ?f = "(df_f st)[nat u := df_time st]"
  let ?st = "st\<lparr>df_color := ?c, df_f := ?f, df_time := df_time st + 1\<rparr>"
  from inv(1) u have sizes: "int (length (df_color st)) = g_V g" "int (length (df_f st)) = g_V g"
    "0 \<le> u" "u < g_V g" by (auto simp: dfs_sizes_def in_range_def)
  have c1: "col ?st v = (if v = u then BLACK else col st v)" and f1: "fin ?st v = (if v = u then df_time st else fin st v)"
    if "in_range g v" for v
    using that sizes by (simp_all add: col_def fin_def at_update in_range_def)
  have d1: "dis ?st v = dis st v" and p1: "par ?st v = par st v" for v
    by (simp_all add: dis_def par_def)
  have run: "dfs_leave u st = Inr ?st" using sizes clock_fit by (simp add: dfs_leave_def)
  have gray: "df_color st ! nat u = GRAY" using u(2) by (simp add: col_def at_def)
  have wc: "white_count ?c = white_count (df_color st)"
    using gray sizes by (intro white_count_upd_same) auto
  have time: "df_time ?st = int (sum_list (map weight ?c))"
    using inv(2) weight_update [of "nat u" "df_color st" BLACK] sizes gray by (simp add: weight_def)
  have old: "0 \<le> dis st v" "dis st v < df_time st" "col st v = BLACK \<Longrightarrow> fin st v < df_time st"
    if "in_range g v" "col st v \<noteq> WHITE" for v
    using inv(3) [OF that(1)] that(2) by (auto simp: clock_ok_def split: color.splits)
  have oldu: "0 \<le> dis st u" "dis st u < df_time st" using old [OF u(1)] u(2) by auto
  have clock: "clock_ok ?st v" if v: "in_range g v" for v
  proof (cases "v = u")
    case True
    then show ?thesis using oldu c1 [OF v] d1 [of v] f1 [OF v] by (simp add: clock_ok_def)
  next
    case False
    then show ?thesis using inv(3) [OF v] c1 [OF v] d1 [of v] f1 [OF v]
      by (cases "col st v") (simp_all add: clock_ok_def)
  qed
  have differ: "times_differ ?st a b" if a: "in_range g a" and b: "in_range g b" for a b
    using inv(5) [OF a b] old [OF a] old [OF b] c1 [OF a] c1 [OF b] d1 f1 [OF a] f1 [OF b] u(2)
    by (auto simp: times_differ_def split: if_splits)
  have brackets: "brackets_ok ?st a b" if a: "in_range g a" and b: "in_range g b" for a b
  proof -
    have "fin st a < dis st u \<or> nested ?st u a" if "a \<noteq> u" "col st a = BLACK"
      using inv(6) [OF a u(1)] that u(2) old [OF a] d1 f1 [OF a] f1 [OF u(1)]
      by (auto simp: brackets_ok_def nested_def)
    moreover have "fin st b < dis st u \<or> nested ?st u b" if "b \<noteq> u" "col st b = BLACK"
      using inv(6) [OF b u(1)] that u(2) old [OF b] d1 f1 [OF b] f1 [OF u(1)]
      by (auto simp: brackets_ok_def nested_def)
    moreover have "nested ?st a b = nested st a b" if "a \<noteq> u" "b \<noteq> u"
      using that d1 f1 [OF a] f1 [OF b] by (simp add: nested_def)
    moreover have "nested ?st b a = nested st b a" if "a \<noteq> u" "b \<noteq> u"
      using that d1 f1 [OF a] f1 [OF b] by (simp add: nested_def)
    moreover have "dis st b < dis st u" if "b \<noteq> u" "col st b = GRAY"
      using top [OF b] that by simp
    ultimately show ?thesis
      using inv(6) [OF a b] c1 [OF a] c1 [OF b] d1 f1 [OF a] f1 [OF b]
      unfolding brackets_ok_def by (cases "a = u"; cases "b = u") auto
  qed
  have parents: "parent_ok g ?st v" if v: "in_range g v" for v
  proof (cases "col st v = WHITE \<or> par st v = -1")
    case True
    with u(2) c1 [OF v] p1 show ?thesis by (cases "v = u") (auto simp: parent_ok_def)
  next
    case False
    with inv(4) [OF v] have pv: "(par st v, v) \<in> edges g" "col st (par st v) \<noteq> WHITE"
      "dis st (par st v) < dis st v"
      "col st (par st v) = BLACK \<longrightarrow> col st v = BLACK \<and> fin st v < fin st (par st v)"
      by (auto simp: parent_ok_def)
    then have r: "in_range g (par st v)" using edge_range [OF g] by blast
    have black: "col st v = BLACK \<and> fin st v < df_time st" if "par st v = u"
    proof -
      have ne: "v \<noteq> u" using pv(3) that by auto
      have "col st v \<noteq> GRAY" using top [OF v ne] pv(3) that by auto
      with False have "col st v = BLACK" by (cases "col st v") auto
      with old [OF v] show ?thesis by simp
    qed
    have "v \<noteq> u" if "col st (par st v) = BLACK" using pv(4) that u(2) by auto
    with pv black c1 [OF r] c1 [OF v] d1 f1 [OF r] f1 [OF v] p1 show ?thesis
      by (auto simp: parent_ok_def)
  qed
  have seen: "edge_seen ?st a b" if "(a, b) \<in> edges g" for a b
  proof -
    have r: "in_range g a" "in_range g b" using edge_range [OF g that] by auto
    show ?thesis
    proof (cases "a = u")
      case True
      with that have "col st b \<noteq> WHITE" using nbrs [of b] by (simp add: edges_def)
      with old [OF r(2)] True c1 [OF r(2)] d1 f1 [OF r(1)] show ?thesis by (simp add: edge_seen_def)
    next
      case False
      with inv(7) [OF that] c1 [OF r(1)] c1 [OF r(2)] d1 f1 [OF r(1)] show ?thesis
        by (auto simp: edge_seen_def)
    qed
  qed
  have cov: "covers ?st a b = covers st a b" if a: "in_range g a" and b: "in_range g b" for a b
    using old [OF b] c1 [OF a] c1 [OF b] d1 f1 [OF a] u(2)
    by (cases "a = u"; cases "b = u") (auto simp: covers_def)
  have inner: "innermost_ok ?st a b" if a: "in_range g a" and b: "in_range g b" for a b
  proof (cases "covers st a b")
    case True
    with inv(8) [OF a b] inv(4) [OF b] have "par st b \<noteq> -1" "a = par st b \<or> covers st a (par st b)"
      "in_range g (par st b)"
      using edge_range [OF g] by (auto simp: innermost_ok_def parent_ok_def covers_def)
    with cov [OF a] p1 show ?thesis by (simp add: innermost_ok_def)
  qed (simp add: innermost_ok_def cov [OF a b])
  have "dfs_inv g ?st"
    using inv(1) time clock differ brackets parents seen inner
    by (auto simp: dfs_inv_def dfs_sizes_def)
  with run wc c1 d1 f1 p1 show ?thesis by (intro exI [of _ ?st]) simp
qed

lemma dfs_parent_step:
  assumes g: "graph_ok g" and inv: "dfs_inv g st" and v: "in_range g v" "col st v = WHITE"
  shows "\<exists>st1. dfs_parent v u st = Inr st1 \<and> dfs_inv g st1 \<and> df_time st1 = df_time st \<and>
    df_color st1 = df_color st \<and> df_d st1 = df_d st \<and> df_f st1 = df_f st \<and>
    (\<forall>w. in_range g w \<longrightarrow> par st1 w = (if w = v then u else par st w))"
proof -
  note old = dfs_invD [OF inv]
  let ?st = "st\<lparr>df_pi := (df_pi st)[nat v := u]\<rparr>"
  from old(1) v have sizes: "int (length (df_pi st)) = g_V g" "0 \<le> v" "v < g_V g"
    by (auto simp: dfs_sizes_def in_range_def)
  have p1: "par ?st w = (if w = v then u else par st w)" if "in_range g w" for w
    using that sizes by (simp add: par_def at_update in_range_def)
  have same: "col ?st w = col st w" "dis ?st w = dis st w" "fin ?st w = fin st w" for w
    by (simp_all add: col_def dis_def fin_def)
  have "parent_ok g ?st w" if w: "in_range g w" for w
    using old(4) [OF w] p1 [OF w] same v(2) by (cases "w = v") (simp_all add: parent_ok_def)
  moreover have "innermost_ok ?st a b" if a: "in_range g a" and b: "in_range g b" for a b
    using old(8) [OF a b] p1 [OF b] same v(2) by (cases "b = v") (auto simp: innermost_ok_def covers_def)
  moreover have "clock_ok ?st w = clock_ok st w" "times_differ ?st w x = times_differ st w x"
    "brackets_ok ?st w x = brackets_ok st w x" "edge_seen ?st w x = edge_seen st w x" for w x
    by (simp_all add: clock_ok_def times_differ_def brackets_ok_def edge_seen_def nested_def same
        split: color.split)
  ultimately have "dfs_inv g ?st"
    using inv by (simp add: dfs_inv_def dfs_sizes_def)
  moreover have "dfs_parent v u st = Inr ?st" using sizes by (simp add: dfs_parent_def)
  ultimately show ?thesis using p1 by (intro exI [of _ ?st]) simp
qed

text \<open>What a visit of a white vertex does.\<close>

definition visit_ok :: "nat \<Rightarrow> graph \<Rightarrow> bool" where
  "visit_ok n g \<longleftrightarrow>
     (\<forall>u st. dfs_inv g st \<longrightarrow> in_range g u \<longrightarrow> col st u = WHITE \<longrightarrow> entry_ok g st u \<longrightarrow>
        white_count (df_color st) \<le> n \<longrightarrow>
        (\<exists>st'. dfs_visit n g u st = Some (Inr st') \<and> dfs_inv g st' \<and> extends g st st' \<and> col st' u = BLACK))"

lemma extends_top: "extends g st st' \<Longrightarrow> in_range g u \<Longrightarrow> top_gray g st u \<Longrightarrow> top_gray g st' u"
  by (fastforce simp: extends_def top_gray_def split: if_splits)

lemma extends_colored: "extends g st st' \<Longrightarrow> in_range g v \<Longrightarrow> col st v \<noteq> WHITE \<Longrightarrow> col st' v = col st v"
  by (auto simp: extends_def split: if_splits)

lemma white_positive:
  assumes "0 \<le> v" "v < int (length cs)" "at cs v = WHITE"
  shows "0 < white_count cs"
proof -
  have "nat v < length cs" using assms by simp
  from white_count_less [OF this, of GRAY] assms show ?thesis by (simp add: at_def)
qed

lemma dfs_edges_ok:
  assumes g: "graph_ok g" and visit: "visit_ok n g"
  shows "dfs_inv g st \<Longrightarrow> in_range g u \<Longrightarrow> top_gray g st u \<Longrightarrow> set vs \<subseteq> set (adj_of g u) \<Longrightarrow>
    white_count (df_color st) \<le> n \<Longrightarrow>
    \<exists>st'. dfs_edges n g u vs st = Some (Inr st') \<and> dfs_inv g st' \<and> extends g st st' \<and>
      (\<forall>v \<in> set vs. col st' v \<noteq> WHITE)"
proof (induction vs arbitrary: st)
  case Nil
  then show ?case by (simp add: extends_refl)
next
  case (Cons v vs)
  have v: "in_range g v" "(u, v) \<in> edges g"
    using Cons.prems(4) adj_in_range [OF g, of v u] by (simp_all add: in_range_def edges_def)
  have size: "int (length (df_color st)) = g_V g" using dfs_invD(1) [OF Cons.prems(1)] by (simp add: dfs_sizes_def)
  have read: "ivec_at (df_color st) v = Inr (col st v)"
    using v(1) size by (simp add: in_range_def col_def at_def)
  show ?case
  proof (cases "col st v = WHITE")
    case False
    from Cons.IH [OF Cons.prems(1-3) _ Cons.prems(5)] Cons.prems(4) obtain st' where
      "dfs_edges n g u vs st = Some (Inr st')" "dfs_inv g st'" "extends g st st'"
      "\<forall>v \<in> set vs. col st' v \<noteq> WHITE" by auto
    moreover from this(3) v(1) False have "col st' v \<noteq> WHITE" using extends_colored by metis
    ultimately show ?thesis using False read by simp
  next
    case True
    from dfs_parent_step [OF g Cons.prems(1) v(1) True, of u] obtain st1 where st1:
      "dfs_parent v u st = Inr st1" "dfs_inv g st1" "df_time st1 = df_time st" "df_color st1 = df_color st"
      "df_d st1 = df_d st" "df_f st1 = df_f st"
      "\<forall>w. in_range g w \<longrightarrow> par st1 w = (if w = v then u else par st w)" by blast
    have same: "col st1 w = col st w" "dis st1 w = dis st w" "fin st1 w = fin st w" for w
      using st1 by (simp_all add: col_def dis_def fin_def)
    have "par st1 v = u" "u \<noteq> -1" using st1(7) v(1) Cons.prems(2) by (simp_all add: in_range_def)
    then have "entry_ok g st1 v" using Cons.prems(3) v(2) same by (simp add: entry_ok_def top_gray_def)
    with visit st1(2,4) v True Cons.prems(5) same obtain st2 where st2: "dfs_visit n g v st1 = Some (Inr st2)"
      "dfs_inv g st2" "extends g st1 st2" "col st2 v = BLACK"
      unfolding visit_ok_def by metis
    have ext: "extends g st st2"
      unfolding extends_def
    proof (intro conjI allI impI)
      show "white_count (df_color st2) \<le> white_count (df_color st)" "df_time st \<le> df_time st2"
        using st2(3) st1(3,4) by (simp_all add: extends_def)
      fix w assume w: "in_range g w"
      from st2(3) w have e: "if col st1 w = WHITE
         then col st2 w \<noteq> GRAY \<and> (col st2 w = WHITE \<longrightarrow> par st2 w = par st1 w)
         else col st2 w = col st1 w \<and> dis st2 w = dis st1 w \<and> fin st2 w = fin st1 w \<and> par st2 w = par st1 w"
        by (simp add: extends_def)
      show "if col st w = WHITE
         then col st2 w \<noteq> GRAY \<and> (col st2 w = WHITE \<longrightarrow> par st2 w = par st w)
         else col st2 w = col st w \<and> dis st2 w = dis st w \<and> fin st2 w = fin st w \<and> par st2 w = par st w"
        using e st1(7) w same st2(4) True by (cases "w = v") (auto split: if_splits)
    qed
    note gray = extends_top [OF ext Cons.prems(2,3)]
    have "white_count (df_color st2) \<le> n" using ext Cons.prems(5) by (simp add: extends_def)
    with Cons.IH [OF st2(2) Cons.prems(2) gray] Cons.prems(4) obtain st' where st':
      "dfs_edges n g u vs st2 = Some (Inr st')" "dfs_inv g st'" "extends g st2 st'"
      "\<forall>v \<in> set vs. col st' v \<noteq> WHITE" by auto
    have "col st' v \<noteq> WHITE" using extends_colored [OF st'(3) v(1)] st2(4) by simp
    with st' extends_trans [OF ext st'(3)] read True st1(1) st2(1) show ?thesis by simp
  qed
qed

lemma visit_ok:
  assumes g: "graph_ok g" and fits: "2 * g_V g \<le> INT_MAX"
  shows "visit_ok n g"
proof (induction n)
  case 0
  have "0 < white_count (df_color st)" if "dfs_inv g st" "in_range g u" "col st u = WHITE" for st u
    using that dfs_invD(1) [OF that(1)] by (intro white_positive [of u]) (auto simp: dfs_sizes_def in_range_def col_def)
  then show ?case by (fastforce simp: visit_ok_def)
next
  case (Suc n)
  show ?case
    unfolding visit_ok_def
  proof (intro allI impI)
    fix u st
    assume inv: "dfs_inv g st" and u: "in_range g u" and white: "col st u = WHITE"
      and p: "entry_ok g st u"
      and n: "white_count (df_color st) \<le> Suc n"
    from dfs_enter_step [OF g fits inv u white p] obtain st1 where st1: "dfs_enter u st = Inr st1" "dfs_inv g st1"
      "df_time st1 = df_time st + 1" "Suc (white_count (df_color st1)) = white_count (df_color st)"
      and st1': "\<And>v. in_range g v \<Longrightarrow> col st1 v = (if v = u then GRAY else col st v) \<and>
         dis st1 v = (if v = u then df_time st else dis st v) \<and> fin st1 v = fin st v \<and> par st1 v = par st v"
      by blast
    obtain x where x: "graph_vertex g u = Inr x" "vx_adj x = adj_of g u"
      using vertex_in_range [OF g] u by (auto simp: graph_vertex_def in_range_def)
    have "dis st x < df_time st" if "in_range g x" "col st x = GRAY" for x
      using dfs_invD(3) [OF inv that(1)] that(2) by (simp add: clock_ok_def)
    then have gray: "top_gray g st1 u" using st1' u by (simp add: top_gray_def)
    have "white_count (df_color st1) \<le> n" using st1(4) n by simp
    from dfs_edges_ok [OF g Suc st1(2) u gray subset_refl this] obtain st2 where st2:
      "dfs_edges n g u (adj_of g u) st1 = Some (Inr st2)" "dfs_inv g st2" "extends g st1 st2"
      "\<forall>v \<in> set (adj_of g u). col st2 v \<noteq> WHITE" by blast
    have ext: "if col st1 v = WHITE then col st2 v \<noteq> GRAY \<and> (col st2 v = WHITE \<longrightarrow> par st2 v = par st1 v)
         else col st2 v = col st1 v \<and> dis st2 v = dis st1 v \<and> fin st2 v = fin st1 v \<and> par st2 v = par st1 v"
      if "in_range g v" for v
      using st2(3) that by (simp add: extends_def)
    note gray2 = extends_top [OF st2(3) u gray]
    from dfs_leave_step [OF g fits st2(2) u gray2] st2(4) obtain st3 where st3: "dfs_leave u st2 = Inr st3"
      "dfs_inv g st3" "df_time st3 = df_time st2 + 1" "white_count (df_color st3) = white_count (df_color st2)"
      and st3': "\<And>v. in_range g v \<Longrightarrow> col st3 v = (if v = u then BLACK else col st2 v) \<and> dis st3 v = dis st2 v \<and>
         fin st3 v = (if v = u then df_time st2 else fin st2 v) \<and> par st3 v = par st2 v"
      by blast
    have "dfs_visit (Suc n) g u st = Some (Inr st3)"
      using st1(1) x st2(1) st3(1) by simp
    moreover have "extends g st st3"
      unfolding extends_def
    proof (intro conjI allI impI)
      show "white_count (df_color st3) \<le> white_count (df_color st)" "df_time st \<le> df_time st3"
        using st2(3) st1(3,4) st3(3,4) by (auto simp: extends_def)
      fix v assume v: "in_range g v"
      show "if col st v = WHITE then col st3 v \<noteq> GRAY \<and> (col st3 v = WHITE \<longrightarrow> par st3 v = par st v)
         else col st3 v = col st v \<and> dis st3 v = dis st v \<and> fin st3 v = fin st v \<and> par st3 v = par st v"
        using ext [OF v] st1' [OF v] st3' [OF v] white by (cases "v = u") (auto split: if_splits)
    qed
    ultimately show "\<exists>st'. dfs_visit (Suc n) g u st = Some (Inr st') \<and> dfs_inv g st' \<and> extends g st st' \<and>
        col st' u = BLACK"
      using st3(2) st3' [OF u] by auto
  qed
qed

section \<open>The whole search\<close>

definition settled :: "graph \<Rightarrow> dfs_state \<Rightarrow> bool" where
  "settled g st \<longleftrightarrow> dfs_inv g st \<and>
     (\<forall>v. in_range g v \<longrightarrow> col st v \<noteq> GRAY \<and> (col st v = WHITE \<longrightarrow> par st v = -1))"

lemma settled_visit:
  assumes g: "graph_ok g" and fits: "2 * g_V g \<le> INT_MAX" and st: "settled g st" and u: "in_range g u" "col st u = WHITE"
    and n: "white_count (df_color st) \<le> n"
  shows "\<exists>st'. dfs_visit n g u st = Some (Inr st') \<and> settled g st' \<and> extends g st st' \<and> col st' u = BLACK"
proof -
  from st u have "dfs_inv g st" "entry_ok g st u" by (auto simp: settled_def entry_ok_def)
  with visit_ok [OF g fits, of n] u n obtain st' where st': "dfs_visit n g u st = Some (Inr st')" "dfs_inv g st'"
    "extends g st st'" "col st' u = BLACK"
    unfolding visit_ok_def by blast
  have "col st' v \<noteq> GRAY \<and> (col st' v = WHITE \<longrightarrow> par st' v = -1)" if "in_range g v" for v
    using st'(3) st that by (auto simp: extends_def settled_def split: if_splits)
  with st' show ?thesis by (auto simp: settled_def)
qed

lemma dfs_roots_ok:
  assumes g: "graph_ok g" and fits: "2 * g_V g \<le> INT_MAX"
  shows "settled g st \<Longrightarrow> \<forall>u \<in> set us. in_range g u \<Longrightarrow> white_count (df_color st) \<le> n \<Longrightarrow>
    \<exists>st'. dfs_roots n g s us st = Some (Inr st') \<and> settled g st' \<and> extends g st st' \<and>
      (\<forall>u \<in> set us. u \<noteq> s \<longrightarrow> col st' u \<noteq> WHITE)"
proof (induction us arbitrary: st)
  case Nil
  then show ?case by (simp add: extends_refl)
next
  case (Cons u us)
  have u: "in_range g u" using Cons.prems(2) by simp
  have size: "int (length (df_color st)) = g_V g"
    using Cons.prems(1) by (simp add: settled_def dfs_inv_def dfs_sizes_def)
  have read: "ivec_at (df_color st) u = Inr (col st u)"
    using u size by (simp add: in_range_def col_def at_def)
  show ?case
  proof (cases "u \<noteq> s \<and> col st u = WHITE")
    case False
    from Cons.IH [OF Cons.prems(1) _ Cons.prems(3)] Cons.prems(2) obtain st' where st':
      "dfs_roots n g s us st = Some (Inr st')" "settled g st'" "extends g st st'"
      "\<forall>u \<in> set us. u \<noteq> s \<longrightarrow> col st' u \<noteq> WHITE" by auto
    with False read extends_colored [OF st'(3) u] show ?thesis by auto
  next
    case True
    from settled_visit [OF g fits Cons.prems(1) u _ Cons.prems(3)] True obtain st1 where st1:
      "dfs_visit n g u st = Some (Inr st1)" "settled g st1" "extends g st st1" "col st1 u = BLACK" by blast
    have "white_count (df_color st1) \<le> n" using st1(3) Cons.prems(3) by (simp add: extends_def)
    from Cons.IH [OF st1(2) _ this] Cons.prems(2) obtain st' where st':
      "dfs_roots n g s us st1 = Some (Inr st')" "settled g st'" "extends g st1 st'"
      "\<forall>u \<in> set us. u \<noteq> s \<longrightarrow> col st' u \<noteq> WHITE" by auto
    have "col st' u \<noteq> WHITE" using extends_colored [OF st'(3) u] st1(4) by simp
    with st1 st' True read extends_trans [OF st1(3) st'(3)] show ?thesis by auto
  qed
qed

lemma dfs_init_ok:
  assumes g: "graph_ok g"
  shows "\<exists>st. dfs_init g = Inr st \<and> settled g st \<and> white_count (df_color st) = nat (g_V g) \<and>
    (\<forall>v. in_range g v \<longrightarrow> col st v = WHITE)"
proof -
  let ?V = "nat (g_V g)"
  let ?st0 = "\<lparr>df_pi = replicate ?V 0, df_color = replicate ?V WHITE, df_d = replicate ?V 0,
     df_f = replicate ?V 0, df_time = 0\<rparr>"
  let ?I = "\<lambda>ys st. dfs_sizes g st \<and> df_color st = replicate ?V WHITE \<and> df_time st = 0 \<and>
    (\<forall>v \<in> set ys. dis st v = -1 \<and> fin st v = -1 \<and> par st v = -1)"
  have V: "0 \<le> g_V g" using g by (simp add: graph_ok_def)
  have "\<exists>st. foldE dfs_init_vertex [0..g_V g - 1] ?st0 = Inr st \<and> ?I [0..g_V g - 1] st"
  proof (rule foldE_visited [where I = ?I])
    show "?I [] ?st0" using V by (simp add: dfs_sizes_def)
  next
    fix ys u zs st
    assume es: "[0..g_V g - 1] = ys @ u # zs" and I: "?I ys st"
    have "u \<in> set [0..g_V g - 1]" "set ys \<subseteq> set [0..g_V g - 1]" unfolding es by auto
    then have u: "0 \<le> u" "u < g_V g" and ys: "\<And>v. v \<in> set ys \<Longrightarrow> 0 \<le> v" by auto
    have same: "(replicate ?V WHITE)[nat u := WHITE] = replicate ?V WHITE"
      using u by (metis list_update_id nth_replicate zless_nat_conj nat_mono_iff order_le_less_trans)
    show "\<exists>st'. dfs_init_vertex u st = Inr st' \<and> ?I (ys @ [u]) st'"
      using I u V same ys
      by (auto simp: dfs_init_vertex_def dfs_sizes_def dis_def fin_def par_def at_update)
  qed
  then obtain st where st: "foldE dfs_init_vertex [0..g_V g - 1] ?st0 = Inr st" "?I [0..g_V g - 1] st"
    by blast
  have white: "col st v = WHITE" "dis st v = -1" "fin st v = -1" "par st v = -1" if "in_range g v" for v
    using st(2) that by (auto simp: col_def at_def in_range_def)
  have "edge_seen st a b" if "(a, b) \<in> edges g" for a b
    using edge_range [OF g that] white by (simp add: edge_seen_def)
  then have "dfs_inv g st"
    using st(2) white
    by (auto simp: dfs_inv_def clock_ok_def times_differ_def brackets_ok_def parent_ok_def weight_def
        innermost_ok_def covers_def map_replicate_const sum_list_replicate)
  with st white V show ?thesis
    by (auto simp: dfs_init_def Let_def settled_def white_count_def)
qed

text \<open>What the result of a search says. The parents form a forest over the vertices.\<close>

definition parent_edges :: "graph \<Rightarrow> dfs_state \<Rightarrow> (int \<times> int) set" where
  "parent_edges g st = {(par st v, v) | v. in_range g v \<and> par st v \<noteq> -1}"

definition dfs_result :: "graph \<Rightarrow> dfs_state \<Rightarrow> bool" where
  "dfs_result g st \<longleftrightarrow>
     (\<forall>v. in_range g v \<longrightarrow> col st v = BLACK \<and> 0 \<le> dis st v \<and> dis st v < fin st v \<and> fin st v < 2 * g_V g) \<and>
     (\<forall>u v. in_range g u \<longrightarrow> in_range g v \<longrightarrow> u \<noteq> v \<longrightarrow>
        dis st u \<noteq> dis st v \<and> fin st u \<noteq> fin st v \<and> dis st u \<noteq> fin st v \<and>
        (fin st u < dis st v \<or> fin st v < dis st u \<or> nested st u v \<or> nested st v u)) \<and>
     parent_edges g st \<subseteq> edges g \<and>
     (\<forall>u v. in_range g u \<longrightarrow> in_range g v \<longrightarrow> nested st u v = ((u, v) \<in> (parent_edges g st)\<^sup>+)) \<and>
     (\<forall>(u, v) \<in> edges g. dis st v < fin st u)"

lemma all_black_weight:
  "(\<And>i. i < length cs \<Longrightarrow> cs ! i = BLACK) \<Longrightarrow> sum_list (map weight cs) = 2 * length cs"
proof (induction cs)
  case Nil
  then show ?case by simp
next
  case (Cons c cs)
  from Cons.prems [of 0] have "c = BLACK" by simp
  moreover have "cs ! i = BLACK" if "i < length cs" for i using Cons.prems [of "Suc i"] that by simp
  moreover have "weight BLACK = 2" by (simp add: weight_def)
  ultimately show ?case using Cons.IH by simp
qed

text \<open>At the end an interval lies in another exactly along the parents.\<close>

lemma nested_along_parents:
  assumes g: "graph_ok g" and inv: "dfs_inv g st" and black: "\<And>v. in_range g v \<Longrightarrow> col st v = BLACK"
  shows "parent_edges g st \<subseteq> edges g"
    and "in_range g u \<Longrightarrow> in_range g v \<Longrightarrow> nested st u v = ((u, v) \<in> (parent_edges g st)\<^sup>+)"
proof -
  note facts = dfs_invD [OF inv]
  have parent: "(par st v, v) \<in> edges g \<and> in_range g (par st v) \<and> nested st (par st v) v"
    if v: "in_range g v" "par st v \<noteq> -1" for v
  proof -
    from facts(4) [OF v(1)] black [OF v(1)] v(2) have p: "(par st v, v) \<in> edges g" "dis st (par st v) < dis st v"
      "col st (par st v) = BLACK \<longrightarrow> fin st v < fin st (par st v)" by (auto simp: parent_ok_def)
    with edge_range [OF g p(1)] black show ?thesis by (simp add: nested_def)
  qed
  then show "parent_edges g st \<subseteq> edges g" by (auto simp: parent_edges_def)
  have along: "(u, v) \<in> (parent_edges g st)\<^sup>+" if "in_range g u" "in_range g v" "covers st u v" for u v
    using that
  proof (induction "nat (dis st v)" arbitrary: v rule: less_induct)
    case less
    with facts(8) have p: "par st v \<noteq> -1" "u = par st v \<or> covers st u (par st v)" by (auto simp: innermost_ok_def)
    note pv = parent [OF less.prems(2) p(1)]
    have edge: "(par st v, v) \<in> parent_edges g st" using less.prems(2) p(1) by (auto simp: parent_edges_def)
    show ?case
    proof (cases "u = par st v")
      case False
      have "0 \<le> dis st (par st v)" using facts(3) [of "par st v"] black pv by (simp add: clock_ok_def)
      with pv have "nat (dis st (par st v)) < nat (dis st v)" by (simp add: nested_def)
      from less.hyps [OF this less.prems(1)] False p(2) pv
      have path: "(u, par st v) \<in> (parent_edges g st)\<^sup>+" by blast
      show ?thesis by (rule trancl_into_trancl [OF path edge])
    qed (use edge in blast)
  qed
  have chain: "nested st u v" if "(u, v) \<in> (parent_edges g st)\<^sup>+" for u v
    using that
  proof induction
    case (base v)
    then show ?case using parent by (auto simp: parent_edges_def)
  next
    case (step v w)
    then have "nested st v w" using parent by (auto simp: parent_edges_def)
    with step.IH show ?case by (simp add: nested_def)
  qed
  assume r: "in_range g u" "in_range g v"
  have "covers st u v" if "nested st u v"
    using that facts(3) [OF r(2)] black r by (simp add: covers_def nested_def clock_ok_def)
  with along [OF r] chain show "nested st u v = ((u, v) \<in> (parent_edges g st)\<^sup>+)" by blast
qed

lemma dfs_correct:
  assumes g: "graph_ok g" and fits: "2 * g_V g \<le> INT_MAX" and s: "in_range g s" and n: "nat (g_V g) \<le> n"
  shows "\<exists>st. DepthFirstSearch n (Some g) s = Some (Inr st) \<and> dfs_result g st \<and> dfs_sizes g st"
proof -
  from dfs_init_ok [OF g] obtain st0 where st0: "dfs_init g = Inr st0" "settled g st0"
    "white_count (df_color st0) = nat (g_V g)" "\<forall>v. in_range g v \<longrightarrow> col st0 v = WHITE" by blast
  then have "white_count (df_color st0) \<le> n" "col st0 s = WHITE" using n s by auto
  from settled_visit [OF g fits st0(2) s this(2,1)] obtain st1 where st1: "dfs_visit n g s st0 = Some (Inr st1)"
    "settled g st1" "extends g st0 st1" "col st1 s = BLACK" by blast
  have "white_count (df_color st1) \<le> n" using st1(3) st0(3) n by (simp add: extends_def)
  from dfs_roots_ok [OF g fits st1(2) _ this, of "[0..g_V g - 1]" s] obtain st where st:
    "dfs_roots n g s [0..g_V g - 1] st1 = Some (Inr st)" "settled g st" "extends g st1 st"
    "\<forall>u \<in> set [0..g_V g - 1]. u \<noteq> s \<longrightarrow> col st u \<noteq> WHITE" by (auto simp: in_range_def)
  have black: "col st v = BLACK" if v: "in_range g v" for v
  proof -
    have "col st v \<noteq> WHITE"
      using st(4) v extends_colored [OF st(3) s] st1(4) by (cases "v = s") (auto simp: in_range_def)
    moreover have "col st v \<noteq> GRAY" using st(2) v by (simp add: settled_def)
    ultimately show ?thesis by (cases "col st v") auto
  qed
  have inv: "dfs_inv g st" using st(2) by (simp add: settled_def)
  note facts = dfs_invD [OF inv]
  have "df_color st ! i = BLACK" if "i < length (df_color st)" for i
    using black [of "int i"] that facts(1) by (simp add: in_range_def dfs_sizes_def col_def at_def)
  from all_black_weight [OF this] facts(1,2) have time: "df_time st = 2 * g_V g"
    by (simp add: dfs_sizes_def)
  have "col st v = BLACK \<and> 0 \<le> dis st v \<and> dis st v < fin st v \<and> fin st v < 2 * g_V g"
    if "in_range g v" for v
    using facts(3) [OF that] black [OF that] time by (simp add: clock_ok_def)
  moreover have "dis st u \<noteq> dis st v \<and> fin st u \<noteq> fin st v \<and> dis st u \<noteq> fin st v \<and>
      (fin st u < dis st v \<or> fin st v < dis st u \<or> nested st u v \<or> nested st v u)"
    if "in_range g u" "in_range g v" "u \<noteq> v" for u v
    using facts(5,6) [OF that(1,2)] black that by (simp add: times_differ_def brackets_ok_def)
  moreover note nested_along_parents [OF g inv black]
  moreover have "dis st v < fin st u" if "(u, v) \<in> edges g" for u v
    using facts(7) [OF that] black edge_range [OF g that] by (simp add: edge_seen_def)
  ultimately have "dfs_result g st" by (auto simp: dfs_result_def)
  with st0(1) st1(1) st(1) facts(1) show ?thesis by (simp add: DepthFirstSearch_def)
qed

section \<open>Properties\<close>

text \<open>
  C33: On every well-formed graph and start vertex the search returns, with a recursion depth of at
  most the number of vertices, as long as its clock fits an \<open>int\<close>. Its result is right: every vertex is
  black, the 2V discovery and finish times are different numbers below 2V, the intervals of two
  vertices are disjoint or nested, a parent is the source of an edge to its child, one interval lies in
  another exactly when the parents lead from the inner vertex to the outer one, and no edge leads to a
  vertex that is discovered only after its source has finished.
\<close>

theorem dfs_brackets:
  assumes "graph_ok g" "2 * g_V g \<le> INT_MAX" "in_range g s" "nat (g_V g) \<le> n"
  shows "\<exists>st. DepthFirstSearch n (Some g) s = Some (Inr st) \<and> dfs_result g st"
  using dfs_correct [OF assms] by blast

theorem dfs_brackets_witness:
  "DepthFirstSearch 3 (Some chain3) 1 =
     Some (Inr \<lparr>df_pi = [1, -1, 1], df_color = [BLACK, BLACK, BLACK], df_d = [3, 0, 1],
       df_f = [4, 5, 2], df_time = 6\<rparr>) \<and>
   dfs_result chain3 \<lparr>df_pi = [1, -1, 1], df_color = [BLACK, BLACK, BLACK], df_d = [3, 0, 1],
       df_f = [4, 5, 2], df_time = 6\<rparr>"
proof -
  have run: "DepthFirstSearch 3 (Some chain3) 1 =
     Some (Inr \<lparr>df_pi = [1, -1, 1], df_color = [BLACK, BLACK, BLACK], df_d = [3, 0, 1],
       df_f = [4, 5, 2], df_time = 6\<rparr>)" by code_simp
  have "2 * g_V chain3 \<le> INT_MAX" by (simp add: chain3_def INT_MAX_def)
  from dfs_brackets [OF chain3_ok(1) this chain3_ok(3) chain3_fits(2)] run show ?thesis by simp
qed

end
