(* ===== verification/Graph_Programs.thy ===== *)
theory Graph_Programs
  imports DFS
begin

text \<open>
  The programs of \<^verbatim>\<open>pmud/graph/application\<close>: each reads the numbers of vertices and of random edges
  from its command line, builds a graph, and prints it or the result of a search. \<open>rand\<close> is the sequence
  of numbers that the library function answers; a program is its standard output, or a fault.
\<close>

section \<open>The command line and the random edges\<close>

text \<open>
  \<open>V\<close> and \<open>R\<close> for a default of \<open>V\<close>; \<open>argv\<close> begins with the name of the program. Both are \<open>int\<close>s: a number
  that does not fit, and a tenfold \<open>V\<close> that does not, are faults.
\<close>

definition graph_args :: "int \<Rightarrow> string list \<Rightarrow> fault + int \<times> int" where
  "graph_args V argv =
     (if length argv = 2 then
        bindE (int_fit (atoi (argv ! 1))) (\<lambda>V. bindE (int_fit (V * 10)) (\<lambda>R. Inr (V, R)))
      else if length argv = 3 then
        bindE (int_fit (atoi (argv ! 1))) (\<lambda>V. bindE (int_fit (atoi (argv ! 2))) (\<lambda>R. Inr (V, R)))
      else bindE (int_fit (V * 10)) (\<lambda>R. Inr (V, R)))"

lemma graph_args_fit: "graph_args d argv = Inr (V, R) \<Longrightarrow> d \<le> INT_MAX \<Longrightarrow> V \<le> INT_MAX"
  by (auto simp: graph_args_def bindE_eq_Inr int_fit_Inr split: if_splits)

text \<open>
  The two numbers of each edge. C++ leaves the order of the two calls open, so a pair may come in either
  order; what is shown holds for every sequence.
\<close>

definition random_draws :: "(nat \<Rightarrow> int) \<Rightarrow> int \<Rightarrow> (int \<times> int) list" where
  "random_draws rand R = map (\<lambda>i. (rand (2 * i), rand (2 * i + 1))) [0..<nat R]"

section \<open>The programs\<close>

definition random_connected_main :: "(nat \<Rightarrow> int) \<Rightarrow> string list \<Rightarrow> fault + string" where
  "random_connected_main rand argv =
     (bindE (graph_args 5 argv) (\<lambda>(V, R).
      bindE (addEdgesRandom (random_draws rand R) (graph_new V GRAPHTYPE_UNDIRECTED)) (\<lambda>graph.
        printDot graph DOT_STRICT)))"

definition structure_main :: "(nat \<Rightarrow> int) \<Rightarrow> string list \<Rightarrow> fault + string" where
  "structure_main rand argv =
     (bindE (graph_args 5 argv) (\<lambda>(V, R).
      bindE (addEdgesRandom (random_draws rand R) (graph_new V GRAPHTYPE_UNDIRECTED)) printStructure))"

definition fully_connected_main :: "string list \<Rightarrow> fault + string" where
  "fully_connected_main argv =
     bindE (if length argv = 2 then int_fit (atoi (argv ! 1)) else Inr 5) (\<lambda>V.
     bindE (addEdgesAllConnect (graph_new V GRAPHTYPE_UNDIRECTED)) (\<lambda>graph. printDot graph DOT_STRICT))"

definition matrix_main :: "(nat \<Rightarrow> int) \<Rightarrow> string list \<Rightarrow> fault + string" where
  "matrix_main rand argv =
     (bindE (graph_args 5 argv) (\<lambda>(V, R).
      bindE (addEdgesRandom (random_draws rand R) (graph_new V GRAPHTYPE_UNDIRECTED)) (\<lambda>graph.
      bindE (printStructure graph) (\<lambda>structure.
      bindE (printMatrix graph) (\<lambda>matrix.
        Inr (''Adjaceny List =>'' @ ENDL @ ENDL @ structure @ ENDL @
          ''Adjacency Matrix =>'' @ ENDL @ ENDL @ matrix))))))"

definition transpose_main :: "(nat \<Rightarrow> int) \<Rightarrow> string list \<Rightarrow> fault + string" where
  "transpose_main rand argv =
     (bindE (graph_args 5 argv) (\<lambda>(V, R).
      bindE (addEdgesRandom (random_draws rand R) (graph_new V GRAPHTYPE_DIRECTED)) (\<lambda>graph.
      bindE (printMatrix graph) (\<lambda>matrix.
      bindE (transpose_graph graph) (\<lambda>transposed.
      bindE (printMatrix transposed) (\<lambda>mirrored.
        Inr (matrix @ mirrored)))))))"

text \<open>The two searches run on fuel, for the recursions of \<open>printPath\<close> and \<open>DFS_Visit\<close>.\<close>

definition bfs_search_main :: "nat \<Rightarrow> (nat \<Rightarrow> int) \<Rightarrow> string list \<Rightarrow> string result" where
  "bfs_search_main n rand argv =
     (bindR (Some (graph_args 20 argv)) (\<lambda>(V, R).
      bindR (Some (addEdgesRandom (random_draws rand R) (graph_new V GRAPHTYPE_DIRECTED))) (\<lambda>graph.
      bindR (Some (printMatrix graph)) (\<lambda>matrix.
      bindR (Some (BreadthFirstSearch DEQUE_BLOCK (Some graph) 0)) (\<lambda>data.
        let s = 0; v = V - 1 in
        bindR (Some (graph_vertex graph s)) (\<lambda>vs.
        bindR (Some (graph_vertex graph v)) (\<lambda>vv.
        bindR (print_path n graph s v (sd_pi data) Cout) (\<lambda>ws.
          Some (Inr (matrix @ ENDL @ ''Path from '' @ show_vertex vs @ '' to '' @ show_vertex vv @ '' is: '' @
            written Cout ws))))))))))"

text \<open>What is written to the error output comes first in the pair, the standard output second.\<close>

definition dfs_search_main :: "nat \<Rightarrow> (nat \<Rightarrow> int) \<Rightarrow> string list \<Rightarrow> (string \<times> string) result" where
  "dfs_search_main n rand argv =
     (bindR (Some (graph_args 10 argv)) (\<lambda>(V, R).
      bindR (Some (addEdgesRandom (random_draws rand R) (graph_new V GRAPHTYPE_DIRECTED))) (\<lambda>graph.
      bindR (DepthFirstSearch n (Some graph) 4) (\<lambda>data.
      bindR (Some (printStructure graph)) (\<lambda>structure.
      bindR (Some (show_search_data (Some graph) data)) (\<lambda>shown.
      bindR (Some (printDotDfsAnnotate graph DOT_STRICT data)) (\<lambda>dot.
        Some (Inr (''Performed DFS on the graph:'' @ ENDL @ structure @
          ''With the following search/traversal data:'' @ ENDL @ shown @ ENDL, dot)))))))))"

section \<open>Random graphs\<close>

text \<open>The edges that the draws ask for: a loop or a repeated pair is asked for as any other.\<close>

definition drawn_edges :: "int \<Rightarrow> (int \<times> int) list \<Rightarrow> (int \<times> int) set" where
  "drawn_edges V ds = (\<lambda>(a, b). (a mod V, b mod V)) ` set ds"

lemma addEdgesRandom_ok:
  assumes "graph_ok g" "0 < g_V g"
  shows "\<exists>g'. addEdgesRandom ds g = Inr g' \<and> graph_ok g' \<and> g_V g' = g_V g \<and> g_directed g' = g_directed g \<and>
    edges g' = drawn_edges (g_V g) ds \<union> (if isDirected g then {} else (drawn_edges (g_V g) ds)\<inverse>) \<union> edges g"
  using assms
proof (induction ds arbitrary: g)
  case Nil
  then show ?case by (simp add: drawn_edges_def)
next
  case (Cons d ds)
  obtain a b where d: "d = (a, b)" by (cases d)
  let ?u = "a mod g_V g" and ?v = "b mod g_V g"
  from addEdge_ok [OF Cons.prems(1), of ?u ?v] Cons.prems(2) obtain g1 where g1: "addEdge ?u ?v g = Inr g1"
    "graph_ok g1" "g_V g1 = g_V g" "g_directed g1 = g_directed g"
    "edges g1 = (if isDirected g then {(?u, ?v)} else {(?u, ?v), (?v, ?u)}) \<union> edges g" by auto
  have dir: "isDirected g1 = isDirected g" using g1(4) by (simp add: isDirected_def)
  from Cons.IH [OF g1(2)] g1 Cons.prems(2) obtain g2 where g2: "addEdgesRandom ds g1 = Inr g2" "graph_ok g2"
    "g_V g2 = g_V g" "g_directed g2 = g_directed g"
    "edges g2 = drawn_edges (g_V g) ds \<union> (if isDirected g then {} else (drawn_edges (g_V g) ds)\<inverse>) \<union> edges g1"
    unfolding dir by auto
  have "drawn_edges (g_V g) (d # ds) = insert (?u, ?v) (drawn_edges (g_V g) ds)"
    by (simp add: drawn_edges_def d)
  with g1 g2 Cons.prems(2) show ?case by (auto simp: d)
qed

lemma random_graph:
  assumes "0 < V"
  shows "\<exists>g. addEdgesRandom ds (graph_new V ty) = Inr g \<and> graph_ok g \<and> g_V g = V \<and> g_directed g = ty \<and>
    edges g = drawn_edges V ds \<union> (if ty = GRAPHTYPE_DIRECTED then {} else (drawn_edges V ds)\<inverse>)"
  using addEdgesRandom_ok [of "graph_new V ty" ds] graph_new_ok [of V ty] assms by (auto simp: isDirected_def)

section \<open>The text of a matrix\<close>

definition matrix_text :: "int \<Rightarrow> (int \<times> int) set \<Rightarrow> string" where
  "matrix_text n E =
     ''      '' @ concat (map (\<lambda>j. setw 3 (string_of_int j) @ '' '') [0..n - 1]) @ ENDL @
     ''    +'' @ concat (replicate (nat n) ''----'') @ ''-'' @ ENDL @
     concat (map (\<lambda>i. setw 3 (string_of_int i) @ '' | '' @
       concat (map (\<lambda>j. ''  '' @ (if (i, j) \<in> E then PRESENT else ABSENT) @ '' '') [0..n - 1]) @ ENDL) [0..n - 1])"

lemma foldE_writes:
  "(\<And>x out. x \<in> set xs \<Longrightarrow> f x out = Inr (out @ t x)) \<Longrightarrow> foldE f xs out = Inr (out @ concat (map t xs))"
  by (induction xs arbitrary: out) auto

lemma printMatrix_text:
  assumes g: "graph_ok g"
  shows "printMatrix g = Inr (matrix_text (g_V g) (edges g))"
proof -
  let ?n = "g_V g" and ?cell = "\<lambda>i j. if (i, j) \<in> edges g then PRESENT else ABSENT"
  have name: "\<exists>x. graph_vertex g j = Inr x \<and> show_vertex x = string_of_int j" if "j \<in> set [0..?n - 1]" for j
    using show_vertex_at [OF g, of j] that by (auto simp: in_range_def)
  have head: "foldE (\<lambda>j out. bindE (graph_vertex g j) (\<lambda>z. Inr (out @ setw 3 (show_vertex z) @ '' ''))) [0..?n - 1] out =
      Inr (out @ concat (map (\<lambda>j. setw 3 (string_of_int j) @ '' '') [0..?n - 1]))" for out
    by (rule foldE_writes) (use name in fastforce)
  have row: "foldE (\<lambda>j out. bindE (ivec_at (map (?cell i) [0..?n - 1]) j) (\<lambda>cell. Inr (out @ ''  '' @ cell @ '' '')))
        [0..?n - 1] out = Inr (out @ concat (map (\<lambda>j. ''  '' @ ?cell i j @ '' '') [0..?n - 1]))" for i out
    by (rule foldE_writes) auto
  have body: "foldE (\<lambda>i out. bindE (graph_vertex g i) (\<lambda>z. bindE (ivec_at (table ?n ?cell) i) (\<lambda>row.
        bindE (foldE (\<lambda>j out. bindE (ivec_at row j) (\<lambda>cell. Inr (out @ ''  '' @ cell @ '' '')))
          [0..?n - 1] (out @ setw 3 (show_vertex z) @ '' | '')) (\<lambda>out. Inr (out @ ENDL))))) [0..?n - 1] out =
      Inr (out @ concat (map (\<lambda>i. setw 3 (string_of_int i) @ '' | '' @
        concat (map (\<lambda>j. ''  '' @ ?cell i j @ '' '') [0..?n - 1]) @ ENDL) [0..?n - 1]))" for out
  proof (rule foldE_writes)
    fix i out assume i: "i \<in> set [0..?n - 1]"
    with name obtain x where "graph_vertex g i = Inr x" "show_vertex x = string_of_int i" by blast
    moreover have "ivec_at (table ?n ?cell) i = Inr (map (?cell i) [0..?n - 1])"
      using i by (simp add: table_def)
    ultimately show "bindE (graph_vertex g i) (\<lambda>z. bindE (ivec_at (table ?n ?cell) i) (\<lambda>row.
        bindE (foldE (\<lambda>j out. bindE (ivec_at row j) (\<lambda>cell. Inr (out @ ''  '' @ cell @ '' '')))
          [0..?n - 1] (out @ setw 3 (show_vertex z) @ '' | '')) (\<lambda>out. Inr (out @ ENDL)))) =
      Inr (out @ setw 3 (string_of_int i) @ '' | '' @
        concat (map (\<lambda>j. ''  '' @ ?cell i j @ '' '') [0..?n - 1]) @ ENDL)" by (simp only: bindE_simps row append_assoc)
  qed
  show ?thesis
    unfolding printMatrix_def matrix_rows_ok [OF g] bindE_simps head body matrix_text_def by simp
qed

section \<open>Searching\<close>

lemma print_no_path:
  assumes g: "graph_ok g" and s: "in_range g s" and v: "in_range g v" "\<not> reachable_from g s v"
    and result: "bfs_result g s dat" and n: "0 < n"
  shows "\<exists>ws. print_path n g s v (sd_pi dat) Cout = Some (Inr ws) \<and>
    written Cout ws = ''No path from '' @ string_of_int s @ '' to '' @ string_of_int v @ '' exists.'' @ ENDL @ ENDL"
proof -
  have "v \<noteq> s" using v(2) walk.simps(1) [of g s s] unfolding reachable_from_def by blast
  moreover have "at (sd_pi dat) v = INVALID_VERTEX" using result v by (simp add: bfs_result_def)
  then have "ivec_at (sd_pi dat) v = Inr INVALID_VERTEX"
    using result v(1) by (simp add: bfs_result_def in_range_def at_def)
  moreover obtain m where "n = Suc m" using n by (cases n) auto
  moreover obtain x y where "graph_vertex g s = Inr x" "show_vertex x = string_of_int s"
    "graph_vertex g v = Inr y" "show_vertex y = string_of_int v"
    using show_vertex_at [OF g s] show_vertex_at [OF g v(1)] by blast
  ultimately show ?thesis by (auto simp: print_path_def)
qed

text \<open>What is printed of a path to \<open>cout\<close>.\<close>

lemma bfs_path_text:
  assumes g: "graph_ok g" and s: "in_range g s" and v: "in_range g v" and res: "bfs_result g s dat"
    and n: "nat (g_V g) \<le> n" "0 < n"
  shows "\<exists>ws. print_path n g s v (sd_pi dat) Cout = Some (Inr ws) \<and>
    (if reachable_from g s v
     then \<exists>path. is_path g path s v \<and> length path = Suc (distance g s v) \<and> written Cout ws = concat (path_texts path) @ ENDL
     else written Cout ws = ''No path from '' @ string_of_int s @ '' to '' @ string_of_int v @ '' exists.'' @ ENDL @ ENDL)"
proof (cases "reachable_from g s v")
  case True
  from print_path_ok [OF g s v True res n(1), of Cout] obtain path ws where p: "is_path g path s v"
    "length path = Suc (distance g s v)" "print_path n g s v (sd_pi dat) Cout = Some (Inr ws)"
    "ws = map (Pair Cout) (butlast (path_texts path)) @ [(Cout, last (path_texts path)), (Cout, ENDL)]"
    by blast
  have "ws = map (Pair Cout) (path_texts path) @ [(Cout, ENDL)]"
    unfolding p(4) by (cases "path_texts path" rule: rev_cases) (simp_all add: path_texts_def)
  then have "written Cout ws = concat (path_texts path) @ ENDL" by simp
  with p(1-3) True show ?thesis by auto
qed (use print_no_path [OF g s v _ res n(2)] in auto)

lemma index_in_range:
  assumes "graph_ok g" "x \<in> set (g_vertices g)"
  shows "0 \<le> vx_index x" "vx_index x < g_V g"
proof -
  have "vx_index x \<in> set (map vx_index (g_vertices g))" using assms(2) by simp
  then have "vx_index x \<in> set [0..g_V g - 1]" using assms(1) unfolding graph_ok_def by metis
  then show "0 \<le> vx_index x" "vx_index x < g_V g" by simp_all
qed

lemma show_search_data_ok:
  assumes g: "graph_ok g" and st: "dfs_sizes g st"
  shows "\<exists>out. show_search_data (Some g) st = Inr out"
proof -
  have vec: "\<exists>out'. print_data_vec g (sort_by_discovery xs) out = Inr out'" if "int (length xs) = g_V g" for xs out
  proof -
    have "\<exists>out'. foldE (\<lambda>(i, t) out. bindE (graph_vertex g i) (\<lambda>x.
        Inr (out @ ''('' @ setw 3 (show_vertex x) @ '','' @ setw 3 (string_of_int t) @ '') '')))
        (sort_by_discovery xs) out = Inr out' \<and> True"
    proof (rule foldE_invariant)
      fix p and s :: string assume mem: "p \<in> set (sort_by_discovery xs)"
      obtain i t where it: "p = (i, t)" by (metis surj_pair)
      then have "i \<in> set [0..int (length xs) - 1]"
        using mem by (auto simp: sort_by_discovery_def dest!: set_zip_leftD)
      then have p: "p = (i, t)" "0 \<le> i" "i < g_V g" using it that by simp_all
      from vertex_in_range [OF g p(2,3)] show "\<exists>s'. (case p of (i, t) \<Rightarrow> \<lambda>out. bindE (graph_vertex g i) (\<lambda>x.
        Inr (out @ ''('' @ setw 3 (show_vertex x) @ '','' @ setw 3 (string_of_int t) @ '') ''))) s = Inr s' \<and> True"
        by (auto simp: graph_vertex_def p(1))
    qed simp
    then show ?thesis by (simp add: print_data_vec_def)
  qed
  have parents: "\<exists>out'. foldE (\<lambda>x out. bindE (ivec_at (df_pi st) (vx_index x)) (\<lambda>p.
      Inr (out @ ''('' @ setw 3 (show_vertex x) @ '','' @ setw 3 (string_of_int p) @ '') '')))
      (g_vertices g) out = Inr out' \<and> True" for out
    by (rule foldE_invariant) (use st index_in_range [OF g] in \<open>auto simp: dfs_sizes_def\<close>)
  from st have len: "int (length (df_d st)) = g_V g" "int (length (df_f st)) = g_V g" by (simp_all add: dfs_sizes_def)
  obtain d where d: "print_data_vec g (sort_by_discovery (df_d st)) '' d: '' = Inr d"
    using vec [OF len(1)] by blast
  obtain f where f: "print_data_vec g (sort_by_discovery (df_f st)) (d @ ENDL @ '' f: '') = Inr f"
    using vec [OF len(2)] by blast
  show ?thesis using parents [of "f @ ENDL @ ''pi: ''"] by (simp add: show_search_data_def d f)
qed

section \<open>The texts of a graph\<close>

definition structure_text :: "graph \<Rightarrow> string" where
  "structure_text g = concat (map (\<lambda>x. string_of_int (vx_index x) @
     concat (map (\<lambda>y. '' -- '' @ string_of_int y) (vx_adj x)) @ ENDL) (g_vertices g))"

text \<open>The lines of the edges in a drawing, each behind an indentation.\<close>

definition edge_lines :: "string \<Rightarrow> string \<Rightarrow> graph \<Rightarrow> string" where
  "edge_lines indent connector g = concat (map (\<lambda>x. concat (map (\<lambda>y.
     indent @ string_of_int (vx_index x) @ '' '' @ connector @ '' '' @ string_of_int y @ ENDL)
     (vx_adj x))) (g_vertices g))"

definition dot_head :: "graph \<Rightarrow> string" where
  "dot_head g = ''strict '' @ (if isDirected g then ''digraph {'' else ''graph {'') @ ENDL"

definition connector_of :: "graph \<Rightarrow> string" where
  "connector_of g = (if isDirected g then ''->'' else ''--'')"

text \<open>The line of a vertex with its times.\<close>

definition time_line :: "dfs_state \<Rightarrow> int \<Rightarrow> string" where
  "time_line st v = ''  '' @ string_of_int v @ '' [xlabel='' @ [CHR 0x22] @ ''('' @ string_of_int (dis st v) @
     ''..'' @ string_of_int (fin st v) @ '')'' @ [CHR 0x22] @ '' fontsize='' @ [CHR 0x22] @ ''8'' @ [CHR 0x22] @
     '']'' @ ENDL"

lemma show_vertex_member:
  assumes "graph_ok g" "x \<in> set (g_vertices g)"
  shows "show_vertex x = string_of_int (vx_index x)"
  using assms by (simp add: graph_ok_def show_vertex_def)

lemma adjacent_vertex:
  assumes g: "graph_ok g" and x: "x \<in> set (g_vertices g)" and y: "y \<in> set (vx_adj x)"
  shows "\<exists>z. graph_vertex g y = Inr z \<and> show_vertex z = string_of_int y"
proof -
  have "vertex_ok (g_V g) x" using g x by (simp add: graph_ok_def)
  with y have "in_range g y" by (simp add: vertex_ok_def in_range_def)
  from show_vertex_at [OF g this] show ?thesis .
qed

lemma printStructure_text:
  assumes g: "graph_ok g"
  shows "printStructure g = Inr (structure_text g)"
proof -
  have "printStructure g = Inr ([] @ structure_text g)"
    unfolding printStructure_def structure_text_def
  proof (rule foldE_writes)
    fix x out assume x: "x \<in> set (g_vertices g)"
    have adj: "foldE (\<lambda>y out. bindE (graph_vertex g y) (\<lambda>z. Inr (out @ '' -- '' @ show_vertex z))) (vx_adj x) o' =
        Inr (o' @ concat (map (\<lambda>y. '' -- '' @ string_of_int y) (vx_adj x)))" for o'
      by (rule foldE_writes) (use adjacent_vertex [OF g x] in fastforce)
    show "bindE (foldE (\<lambda>y out. bindE (graph_vertex g y) (\<lambda>z. Inr (out @ '' -- '' @ show_vertex z)))
          (vx_adj x) (out @ show_vertex x)) (\<lambda>out. Inr (out @ ENDL)) =
        Inr (out @ string_of_int (vx_index x) @ concat (map (\<lambda>y. '' -- '' @ string_of_int y) (vx_adj x)) @ ENDL)"
      unfolding adj by (simp add: show_vertex_member [OF g x])
  qed
  then show ?thesis by simp
qed

lemma edge_lines_written:
  assumes g: "graph_ok g"
  shows "foldE (\<lambda>x out. foldE (\<lambda>y out. bindE (graph_vertex g y) (\<lambda>z.
      Inr (out @ indent @ show_vertex x @ '' '' @ connector @ '' '' @ show_vertex z @ ENDL))) (vx_adj x) out)
      (g_vertices g) out = Inr (out @ edge_lines indent connector g)"
  unfolding edge_lines_def
proof (rule foldE_writes, rule foldE_writes)
  fix x y out assume x: "x \<in> set (g_vertices g)" and y: "y \<in> set (vx_adj x)"
  from adjacent_vertex [OF g x y] show "bindE (graph_vertex g y) (\<lambda>z.
      Inr (out @ indent @ show_vertex x @ '' '' @ connector @ '' '' @ show_vertex z @ ENDL)) =
    Inr (out @ indent @ string_of_int (vx_index x) @ '' '' @ connector @ '' '' @ string_of_int y @ ENDL)"
    by (auto simp: show_vertex_member [OF g x])
qed

lemma printDot_text:
  assumes g: "graph_ok g"
  shows "printDot g DOT_STRICT = Inr (dot_head g @ edge_lines '' '' (connector_of g) g @ ''}'' @ ENDL)"
  unfolding printDot_def Let_def edge_lines_written [OF g]
  by (simp add: dot_head_def connector_of_def)

lemma printDotDfsAnnotate_text:
  assumes g: "graph_ok g" and st: "dfs_sizes g st"
  shows "printDotDfsAnnotate g DOT_STRICT st = Inr (dot_head g @
    concat (map (\<lambda>x. time_line st (vx_index x)) (g_vertices g)) @ edge_lines ''  '' (connector_of g) g @ ''}'' @ ENDL)"
proof -
  have times: "foldE (\<lambda>x out. bindE (ivec_at (df_d st) (vx_index x)) (\<lambda>d. bindE (ivec_at (df_f st) (vx_index x)) (\<lambda>f.
        Inr (out @ ''  '' @ show_vertex x @ '' [xlabel='' @ [CHR 0x22] @ ''('' @ string_of_int d @
          ''..'' @ string_of_int f @ '')'' @ [CHR 0x22] @ '' fontsize='' @ [CHR 0x22] @ ''8'' @
          [CHR 0x22] @ '']'' @ ENDL)))) (g_vertices g) out =
      Inr (out @ concat (map (\<lambda>x. time_line st (vx_index x)) (g_vertices g)))" for out
  proof (rule foldE_writes)
    fix x out assume x: "x \<in> set (g_vertices g)"
    from index_in_range [OF g x] st have "ivec_at (df_d st) (vx_index x) = Inr (dis st (vx_index x))"
      "ivec_at (df_f st) (vx_index x) = Inr (fin st (vx_index x))"
      by (simp_all add: dfs_sizes_def dis_def fin_def at_def)
    then show "bindE (ivec_at (df_d st) (vx_index x)) (\<lambda>d. bindE (ivec_at (df_f st) (vx_index x)) (\<lambda>f.
        Inr (out @ ''  '' @ show_vertex x @ '' [xlabel='' @ [CHR 0x22] @ ''('' @ string_of_int d @
          ''..'' @ string_of_int f @ '')'' @ [CHR 0x22] @ '' fontsize='' @ [CHR 0x22] @ ''8'' @
          [CHR 0x22] @ '']'' @ ENDL))) = Inr (out @ time_line st (vx_index x))"
      by (simp add: time_line_def show_vertex_member [OF g x])
  qed
  show ?thesis
    unfolding printDotDfsAnnotate_def Let_def times bindE_simps edge_lines_written [OF g]
    by (simp add: dot_head_def connector_of_def)
qed

lemma dfs_visit_outside:
  assumes "dfs_sizes g st" "g_V g \<le> u" "0 \<le> g_V g" "0 < n"
  shows "dfs_visit n g u st = Some (Inl OutOfBounds)"
  using assms by (cases n) (auto simp: dfs_enter_def dfs_sizes_def ivec_set_def)

lemma dfs_outside:
  assumes g: "graph_ok g" and s: "g_V g \<le> s" and n: "0 < n"
  shows "DepthFirstSearch n (Some g) s = Some (Inl OutOfBounds)"
proof -
  from dfs_init_ok [OF g] obtain st where st: "dfs_init g = Inr st" "settled g st" by blast
  then have "dfs_sizes g st" by (simp add: settled_def dfs_inv_def)
  moreover have "0 \<le> g_V g" using g by (simp add: graph_ok_def)
  ultimately show ?thesis using dfs_visit_outside [of g st s n] s n st(1) by (simp add: DepthFirstSearch_def)
qed

lemma undirected_programs:
  assumes "graph_args 5 argv = Inr (V, R)" "0 < V"
  shows "\<exists>g. graph_ok g \<and> g_V g = V \<and> edges g = drawn_edges V (random_draws rand R) \<union> (drawn_edges V (random_draws rand R))\<inverse> \<and>
    random_connected_main rand argv = Inr (dot_head g @ edge_lines '' '' ''--'' g @ ''}'' @ ENDL) \<and>
    structure_main rand argv = Inr (structure_text g) \<and>
    matrix_main rand argv = Inr (''Adjaceny List =>'' @ ENDL @ ENDL @ structure_text g @ ENDL @
      ''Adjacency Matrix =>'' @ ENDL @ ENDL @ matrix_text V (edges g))"
proof -
  from random_graph [OF assms(2), of "random_draws rand R" GRAPHTYPE_UNDIRECTED] obtain g where g:
    "addEdgesRandom (random_draws rand R) (graph_new V GRAPHTYPE_UNDIRECTED) = Inr g" "graph_ok g" "g_V g = V"
    "g_directed g = GRAPHTYPE_UNDIRECTED"
    "edges g = drawn_edges V (random_draws rand R) \<union> (drawn_edges V (random_draws rand R))\<inverse>" by auto
  then have "connector_of g = ''--''" by (simp add: connector_of_def isDirected_def)
  with g printDot_text [OF g(2)] printStructure_text [OF g(2)] printMatrix_text [OF g(2)] assms(1)
  show ?thesis
    unfolding random_connected_main_def structure_main_def matrix_main_def
    by (intro exI [of _ g]) simp
qed

lemma fully_connected_program:
  assumes "length argv = 2" "0 \<le> atoi (argv ! 1)" "atoi (argv ! 1) \<le> INT_MAX"
  shows "\<exists>g. graph_ok g \<and> edges g = {(i, j). 0 \<le> i \<and> i < atoi (argv ! 1) \<and> 0 \<le> j \<and> j < atoi (argv ! 1) \<and> i \<noteq> j} \<and>
    fully_connected_main argv = Inr (dot_head g @ edge_lines '' '' (connector_of g) g @ ''}'' @ ENDL)"
proof -
  let ?n = "graph_new (atoi (argv ! 1)) GRAPHTYPE_UNDIRECTED"
  from graph_new_ok [OF assms(2), of GRAPHTYPE_UNDIRECTED] addEdgesAllConnect_ok [of ?n] obtain g where
    g: "addEdgesAllConnect ?n = Inr g" "graph_ok g"
    "edges g = {(i, j). 0 \<le> i \<and> i < atoi (argv ! 1) \<and> 0 \<le> j \<and> j < atoi (argv ! 1) \<and> i \<noteq> j}" by auto
  with printDot_text [OF g(2)] assms show ?thesis
    by (intro exI [of _ g]) (simp add: fully_connected_main_def)
qed

section \<open>Properties\<close>

text \<open>
  C25: The program \<open>bfs-search\<close>, for any positive number of vertices and any random numbers. With fewer than
  128 vertices within reach of vertex 0 it prints the adjacency matrix of the graph whose edges are the
  drawn pairs, then a shortest path from vertex 0 to the last vertex, or that there is no path, exactly
  when there is none. With 128 or more the search reads freed memory. A number of vertices, or ten times
  it, that does not fit an \<open>int\<close> is a fault of \<open>graph_args\<close>.
\<close>

theorem bfs_search_prints_path:
  assumes "graph_args 20 argv = Inr (V, R)" "0 < V" "nat V \<le> n"
  shows "\<exists>g. graph_ok g \<and> g_V g = V \<and> edges g = drawn_edges V (random_draws rand R) \<and>
    (if 128 \<le> card (reach_set g 0) then bfs_search_main n rand argv = Some (Inl UseAfterFree)
     else \<exists>text. bfs_search_main n rand argv = Some (Inr (matrix_text V (edges g) @ ENDL @
         ''Path from 0 to '' @ string_of_int (V - 1) @ '' is: '' @ text)) \<and>
       (if reachable_from g 0 (V - 1)
        then \<exists>path. is_path g path 0 (V - 1) \<and> length path = Suc (distance g 0 (V - 1)) \<and>
          text = concat (path_texts path) @ ENDL
        else text = ''No path from 0 to '' @ string_of_int (V - 1) @ '' exists.'' @ ENDL @ ENDL))"
proof -
  from random_graph [OF assms(2), of "random_draws rand R" GRAPHTYPE_DIRECTED] obtain g where g:
    "addEdgesRandom (random_draws rand R) (graph_new V GRAPHTYPE_DIRECTED) = Inr g" "graph_ok g" "g_V g = V"
    "edges g = drawn_edges V (random_draws rand R)" by auto
  have ends: "in_range g 0" "in_range g (V - 1)" using g(3) assms(2) by (simp_all add: in_range_def)
  obtain x y where names: "graph_vertex g 0 = Inr x" "show_vertex x = string_of_int 0"
    "graph_vertex g (V - 1) = Inr y" "show_vertex y = string_of_int (V - 1)"
    using show_vertex_at [OF g(2) ends(1)] show_vertex_at [OF g(2) ends(2)] by blast
  have n: "nat (g_V g) \<le> n" "0 < n" using assms(2,3) g(3) by auto
  have "g_V g \<le> INT_MAX" using graph_args_fit [OF assms(1)] g(3) by (simp add: INT_MAX_def)
  from bfs_correct [OF g(2) this ends(1), of DEQUE_BLOCK] have bfs:
    "if card (reach_set g 0) < 128
     then \<exists>dat. BreadthFirstSearch DEQUE_BLOCK (Some g) 0 = Inr dat \<and> bfs_result g 0 dat
     else BreadthFirstSearch DEQUE_BLOCK (Some g) 0 = Inl UseAfterFree"
    by (simp add: DEQUE_BLOCK_def)
  have zero: "string_of_int 0 = ''0''" by code_simp
  show ?thesis
  proof (cases "128 \<le> card (reach_set g 0)")
    case True
    then have "bfs_search_main n rand argv = Some (Inl UseAfterFree)"
      using bfs assms(1) g(1) printMatrix_text [OF g(2)] by (simp add: bfs_search_main_def)
    with g True show ?thesis by (intro exI [of _ g]) simp
  next
    case False
    with bfs obtain dat where dat: "BreadthFirstSearch DEQUE_BLOCK (Some g) 0 = Inr dat" "bfs_result g 0 dat" by auto
    from bfs_path_text [OF g(2) ends dat(2) n] obtain ws where
      ws: "print_path n g 0 (V - 1) (sd_pi dat) Cout = Some (Inr ws)" and
      shown: "if reachable_from g 0 (V - 1)
        then \<exists>path. is_path g path 0 (V - 1) \<and> length path = Suc (distance g 0 (V - 1)) \<and>
          written Cout ws = concat (path_texts path) @ ENDL
        else written Cout ws = ''No path from 0 to '' @ string_of_int (V - 1) @ '' exists.'' @ ENDL @ ENDL"
      by (auto simp: zero)
    have "bfs_search_main n rand argv = Some (Inr (matrix_text V (edges g) @ ENDL @
        ''Path from 0 to '' @ string_of_int (V - 1) @ '' is: '' @ written Cout ws))"
      using ws assms(1) g(1) printMatrix_text [OF g(2)] dat(1) names by (simp add: bfs_search_main_def g(3) zero)
    with shown g False show ?thesis by (intro exI [of _ g]) auto
  qed
qed

lemma example_args:
  "graph_args 20 [''bfs-search'', ''2'', ''1''] = Inr (2, 1)" "graph_args 10 [''dfs-search'', ''4''] = Inr (4, 40)"
  "graph_args 5 [''transpose'', ''2'', ''1''] = Inr (2, 1)"
  by code_simp+

lemma example_draw: "drawn_edges 2 (random_draws int 1) = {(0, 1)}"
  by (simp add: drawn_edges_def random_draws_def)

theorem bfs_search_prints_path_witness:
  "\<exists>text. bfs_search_main 2 int [''bfs-search'', ''2'', ''1''] =
     Some (Inr (matrix_text 2 {(0, 1)} @ ENDL @ ''Path from 0 to 1 is: '' @ text))"
proof -
  from bfs_search_prints_path [OF example_args(1), of 2 int] obtain g where g: "g_V g = 2" "edges g = {(0, 1)}"
    and main: "if 128 \<le> card (reach_set g 0)
      then bfs_search_main 2 int [''bfs-search'', ''2'', ''1''] = Some (Inl UseAfterFree)
      else \<exists>text. bfs_search_main 2 int [''bfs-search'', ''2'', ''1''] = Some (Inr (matrix_text 2 (edges g) @ ENDL @
        ''Path from 0 to '' @ string_of_int 1 @ '' is: '' @ text))"
    by (auto simp: example_draw split: if_splits)
  have "reach_set g 0 \<subseteq> {0..1}" using g(1) by (auto simp: reach_set_def in_range_def)
  from card_mono [OF _ this] have "card (reach_set g 0) < 128" by simp
  moreover have "string_of_int 1 = ''1''" by code_simp
  ultimately show ?thesis using main g(2) by simp
qed

text \<open>
  C39: The program \<open>dfs-search\<close> starts its search at vertex 4 whatever the command line says: with one to
  four vertices it writes outside its vectors. With five or more, as long as the clock fits an \<open>int\<close>, it
  ends and draws the graph of the drawn pairs with the discovery and finish times of a correct depth
  first search.
\<close>

theorem dfs_search_needs_five_vertices:
  assumes "graph_args 10 argv = Inr (V, R)" "0 < V" "2 * V \<le> INT_MAX" "nat V \<le> n"
  shows "if V \<le> 4 then dfs_search_main n rand argv = Some (Inl OutOfBounds)
    else \<exists>g st err. graph_ok g \<and> g_V g = V \<and> edges g = drawn_edges V (random_draws rand R) \<and>
      DepthFirstSearch n (Some g) 4 = Some (Inr st) \<and> dfs_result g st \<and>
      dfs_search_main n rand argv = Some (Inr (err, ''strict digraph {'' @ ENDL @
        concat (map (\<lambda>x. time_line st (vx_index x)) (g_vertices g)) @ edge_lines ''  '' ''->'' g @ ''}'' @ ENDL))"
proof -
  from random_graph [OF assms(2), of "random_draws rand R" GRAPHTYPE_DIRECTED] obtain g where g:
    "addEdgesRandom (random_draws rand R) (graph_new V GRAPHTYPE_DIRECTED) = Inr g" "graph_ok g" "g_V g = V"
    "g_directed g = GRAPHTYPE_DIRECTED" "edges g = drawn_edges V (random_draws rand R)" by auto
  show ?thesis
  proof (cases "V \<le> 4")
    case True
    then have "DepthFirstSearch n (Some g) 4 = Some (Inl OutOfBounds)"
      using dfs_outside [OF g(2)] g(3) assms(2,4) by simp
    with True g(1) assms(1) show ?thesis by (simp add: dfs_search_main_def)
  next
    case False
    then have "2 * g_V g \<le> INT_MAX" "in_range g 4" "nat (g_V g) \<le> n" using g(3) assms(3,4) by (simp_all add: in_range_def)
    from dfs_correct [OF g(2) this] obtain st where st: "DepthFirstSearch n (Some g) 4 = Some (Inr st)"
      "dfs_result g st" "dfs_sizes g st" by blast
    from show_search_data_ok [OF g(2) st(3)] obtain shown where "show_search_data (Some g) st = Inr shown" by blast
    moreover have "connector_of g = ''->''" "dot_head g = ''strict digraph {'' @ ENDL"
      using g(4) by (simp_all add: connector_of_def dot_head_def isDirected_def)
    ultimately show ?thesis
      using False g st assms(1) printStructure_text [OF g(2)] printDotDfsAnnotate_text [OF g(2) st(3)]
      by (simp add: dfs_search_main_def) blast
  qed
qed

theorem dfs_search_needs_five_vertices_witness:
  "dfs_search_main 10 int [''dfs-search'', ''4''] = Some (Inl OutOfBounds)"
  using dfs_search_needs_five_vertices [OF example_args(2), of 10 int] by (simp add: INT_MAX_def)

text \<open>
  The program \<open>transpose\<close> prints the matrix of the drawn edges and below it the matrix mirrored at the
  diagonal: the cell of row i and column j of the second is the cell of row j and column i of the first.
\<close>

theorem transpose_prints_mirror:
  assumes "graph_args 5 argv = Inr (V, R)" "0 < V"
  shows "transpose_main rand argv = Inr (matrix_text V (drawn_edges V (random_draws rand R)) @
    matrix_text V ((drawn_edges V (random_draws rand R))\<inverse>))"
proof -
  from random_graph [OF assms(2), of "random_draws rand R" GRAPHTYPE_DIRECTED] obtain g where g:
    "addEdgesRandom (random_draws rand R) (graph_new V GRAPHTYPE_DIRECTED) = Inr g" "graph_ok g" "g_V g = V"
    "isDirected g" "edges g = drawn_edges V (random_draws rand R)" by (auto simp: isDirected_def)
  from transpose_ok [OF g(2)] g(4) obtain t where t: "transpose_graph g = Inr t" "graph_ok t" "g_V t = g_V g"
    "edges t = (edges g)\<inverse>" by auto
  from printMatrix_text [OF g(2)] printMatrix_text [OF t(2)] g t assms(1) show ?thesis
    by (simp add: transpose_main_def)
qed

theorem transpose_prints_mirror_witness:
  "transpose_main int [''transpose'', ''2'', ''1''] = Inr (matrix_text 2 {(0, 1)} @ matrix_text 2 {(1, 0)})"
proof -
  have "{(0, 1)}\<inverse> = {(1 :: int, 0 :: int)}" by auto
  with transpose_prints_mirror [OF example_args(3), of int] show ?thesis by (simp add: example_draw)
qed

end
