(* ===== verification/Life.thy ===== *)
theory Life
  imports Prelude
begin

text \<open>
  The Game of Life of \<^verbatim>\<open>life/life.c\<close>: boards as arrays of rows, the eight-neighbour count, the
  next generation, reading a board from a file, the command line and the loop of \<open>play\<close>. The global
  variables are the record \<open>life_globals\<close>; what \<open>rand\<close>, \<open>getch\<close> and the file system answer is data of
  the environment, and so is whether a key ever comes once \<open>getch\<close> waits for one. \<open>exit(n)\<close> is the result
  \<open>Exits n\<close>. The abstract game is a function on sets of points of the plane cut to the rectangle.
\<close>

section \<open>Globals and boards\<close>

definition ALIVE :: char where "ALIVE = CHR ''X''"
definition DEAD :: char where "DEAD = CHR ''.''"
definition OUTSIDE :: char where "OUTSIDE = CHR ''-''"

record life_globals =
  NUM_ROWS :: int
  NUM_COLS :: int
  MAX_GENERATIONS :: int
  REFRESH_DELAY_MS :: int
  FILENAME :: string

definition initial_globals :: life_globals where
  "initial_globals = \<lparr>NUM_ROWS = 15, NUM_COLS = 15, MAX_GENERATIONS = 10000, REFRESH_DELAY_MS = 125, FILENAME = []\<rparr>"

type_synonym board = "char list list"

text \<open>\<open>board[i][j]\<close> and \<open>board[i][j] = c\<close>\<close>

definition cell_at :: "board \<Rightarrow> int \<Rightarrow> int \<Rightarrow> fault + char" where
  "cell_at b i j = bindE (ivec_at b i) (\<lambda>row. ivec_at row j)"

definition cell_set :: "board \<Rightarrow> int \<Rightarrow> int \<Rightarrow> char \<Rightarrow> fault + board" where
  "cell_set b i j c = bindE (ivec_at b i) (\<lambda>row. bindE (ivec_set row j c) (\<lambda>row. ivec_set b i row))"

text \<open>\<open>for (i = 0; i < NUM_ROWS; i++) for (j = 0; j < NUM_COLS; j++) body\<close>\<close>

definition for_cells :: "life_globals \<Rightarrow> (int \<Rightarrow> int \<Rightarrow> 's \<Rightarrow> fault + 's) \<Rightarrow> 's \<Rightarrow> fault + 's" where
  "for_cells g body s =
     foldE (\<lambda>i s. foldE (body i) [0..NUM_COLS g - 1] s) [0..NUM_ROWS g - 1] s"

section \<open>Board operations\<close>

definition clear_board :: "life_globals \<Rightarrow> board \<Rightarrow> char \<Rightarrow> fault + board" where
  "clear_board g b clearchar = for_cells g (\<lambda>i j b. cell_set b i j clearchar) b"

text \<open>\<open>raw\<close> is what the allocated rows hold before they are cleared.\<close>

definition allocate_board :: "life_globals \<Rightarrow> (int \<Rightarrow> int \<Rightarrow> char) \<Rightarrow> fault + board" where
  "allocate_board g raw =
     (let b = map (\<lambda>i. map (raw i) [0..NUM_COLS g - 1]) [0..NUM_ROWS g - 1] in clear_board g b DEAD)"

text \<open>The code points of \<open>OUT_ALIVE\<close> and \<open>OUT_DEAD\<close>; the screen is a list of code points.\<close>

type_synonym screen = "nat list"

definition OUT_ALIVE :: screen where "OUT_ALIVE = [0x2B24]"
definition OUT_DEAD :: screen where "OUT_DEAD = [0x00B7]"

definition print_board :: "life_globals \<Rightarrow> board \<Rightarrow> screen \<Rightarrow> fault + screen" where
  "print_board g b out =
     foldE (\<lambda>i out. bindE
         (foldE (\<lambda>j out. bindE (cell_at b i j) (\<lambda>c.
            Inr (out @ (if c = ALIVE then OUT_ALIVE else OUT_DEAD) @ [0x20]))) [0..NUM_COLS g - 1] out)
         (\<lambda>out. Inr (out @ [0x0A])))
       [0..NUM_ROWS g - 1] out"

definition copy_board :: "life_globals \<Rightarrow> board \<Rightarrow> board \<Rightarrow> fault + board" where
  "copy_board g src dest =
     for_cells g (\<lambda>i j dest. bindE (cell_at src i j) (cell_set dest i j)) dest"

definition invert_board :: "life_globals \<Rightarrow> board \<Rightarrow> fault + board" where
  "invert_board g b =
     for_cells g (\<lambda>i j b. bindE (cell_at b i j) (\<lambda>c. cell_set b i j (if c = ALIVE then DEAD else ALIVE))) b"

text \<open>The cells in the order of the loops, and a loop that returns at the first hit.\<close>

definition cells :: "life_globals \<Rightarrow> (int \<times> int) list" where
  "cells g = concat (map (\<lambda>i. map (Pair i) [0..NUM_COLS g - 1]) [0..NUM_ROWS g - 1])"

fun first_hit :: "(int \<times> int \<Rightarrow> fault + bool) \<Rightarrow> (int \<times> int) list \<Rightarrow> fault + int" where
  "first_hit f [] = Inr 0"
| "first_hit f (p # ps) = bindE (f p) (\<lambda>hit. if hit then Inr 1 else first_hit f ps)"

definition check_board :: "life_globals \<Rightarrow> board \<Rightarrow> fault + int" where
  "check_board g b = first_hit (\<lambda>(i, j). bindE (cell_at b i j) (\<lambda>c. Inr (c = ALIVE))) (cells g)"

definition compare_boards :: "life_globals \<Rightarrow> board \<Rightarrow> board \<Rightarrow> fault + int" where
  "compare_boards g a b =
     first_hit (\<lambda>(i, j). bindE (cell_at a i j) (\<lambda>x. bindE (cell_at b i j) (\<lambda>y. Inr (x \<noteq> y)))) (cells g)"

text \<open>\<open>rands\<close> are the numbers \<open>rand\<close> returns, not negative; the loop state counts the calls.\<close>

definition randomize_board :: "life_globals \<Rightarrow> (nat \<Rightarrow> int) \<Rightarrow> board \<Rightarrow> fault + board" where
  "randomize_board g rands b =
     bindE (for_cells g (\<lambda>i j (n, b). bindE (cell_set b i j (if rands n mod 2 = 0 then ALIVE else DEAD))
              (\<lambda>b. Inr (Suc n, b))) (0, b))
       (\<lambda>(n, b). Inr b)"

definition set_cell :: "life_globals \<Rightarrow> board \<Rightarrow> char \<Rightarrow> int \<Rightarrow> int \<Rightarrow> fault + board" where
  "set_cell g b setchar row col =
     (if row < 0 \<or> row \<ge> NUM_ROWS g \<or> col < 0 \<or> col > NUM_COLS g then Inl (Exits 1)
      else cell_set b row col setchar)"

definition get_cell :: "life_globals \<Rightarrow> board \<Rightarrow> int \<Rightarrow> int \<Rightarrow> fault + char" where
  "get_cell g b row col =
     (if row < 0 \<or> row \<ge> NUM_ROWS g \<or> col < 0 \<or> col \<ge> NUM_COLS g then Inr DEAD
      else cell_at b row col)"

section \<open>The rules\<close>

definition count_if_alive :: "life_globals \<Rightarrow> board \<Rightarrow> int \<times> int \<Rightarrow> int \<Rightarrow> fault + int" where
  "count_if_alive g b = (\<lambda>(r, c) count. bindE (get_cell g b r c) (\<lambda>x.
     Inr (if x = ALIVE then count + 1 else count)))"

definition num_neighbors :: "life_globals \<Rightarrow> board \<Rightarrow> int \<Rightarrow> int \<Rightarrow> fault + int" where
  "num_neighbors g b row col =
     foldE (count_if_alive g b)
       [(row - 1, col - 1), (row - 1, col), (row - 1, col + 1), (row, col - 1),
        (row, col + 1), (row + 1, col - 1), (row + 1, col), (row + 1, col + 1)] 0"

definition cell_next :: "life_globals \<Rightarrow> board \<Rightarrow> int \<Rightarrow> int \<Rightarrow> fault + char" where
  "cell_next g b row col =
     bindE (num_neighbors g b row col) (\<lambda>n. bindE (get_cell g b row col) (\<lambda>cell. Inr
       (if cell = ALIVE then (if n = 2 \<or> n = 3 then ALIVE else DEAD)
        else if cell = DEAD then (if n = 3 then ALIVE else DEAD)
        else OUTSIDE)))"

definition calc_next_generation :: "life_globals \<Rightarrow> board \<Rightarrow> board \<Rightarrow> fault + board" where
  "calc_next_generation g currentGen nextGen =
     for_cells g (\<lambda>i j nextGen. bindE (cell_next g currentGen i j) (cell_set nextGen i j)) nextGen"

section \<open>Reading a board\<close>

text \<open>
  \<open>fgets(buf, n, h)\<close>: up to \<open>n - 1\<close> characters, through a line end, and a NUL over the beginning of the
  buffer. The last result is the end-of-file flag; at the end of the file the buffer is left alone.
\<close>

definition fgets :: "nat \<Rightarrow> string \<Rightarrow> string \<Rightarrow> string \<times> string \<times> bool" where
  "fgets n buf h =
     (if h = [] then (buf, [], True)
      else let upto = takeWhile (\<lambda>c. c \<noteq> CHR 0x0A) h;
               line = take (n - 1) (if length upto < length h then upto @ [CHR 0x0A] else upto);
               h' = drop (length line) h;
               eof = (h' = [] \<and> length line < n - 1 \<and> last line \<noteq> CHR 0x0A)
           in (line @ CHR 0x00 # drop (length line + 1) buf, h', eof))"

definition strlen :: "string \<Rightarrow> nat" where
  "strlen buf = length (takeWhile (\<lambda>c. c \<noteq> CHR 0x00) buf)"

text \<open>\<open>board[row][j] = buf[j]\<close> for the columns.\<close>

definition read_row :: "life_globals \<Rightarrow> string \<Rightarrow> int \<Rightarrow> board \<Rightarrow> fault + board" where
  "read_row g buf row b =
     foldE (\<lambda>j b. bindE (ivec_at buf j) (cell_set b row j)) [0..NUM_COLS g - 1] b"

definition BUF_LEN :: nat where "BUF_LEN = 1000"

function read_rows :: "life_globals \<Rightarrow> string \<Rightarrow> string \<Rightarrow> int \<Rightarrow> board \<Rightarrow> fault + int \<times> board" where
  "read_rows g buf h row b =
     bindE (ivec_at buf (NUM_COLS g)) (\<lambda>c.
     bindE (if c = CHR 0x0A then ivec_set buf (NUM_COLS g) (CHR 0x00) else Inr buf) (\<lambda>buf.
       if int (strlen buf) > NUM_COLS g then Inl (Exits 1)
       else bindE (read_row g buf row b) (\<lambda>b.
         case fgets BUF_LEN buf h of (buf, h', eof) \<Rightarrow>
           if eof then Inr (row + 1, b) else read_rows g buf h' (row + 1) b)))"
  by pat_completeness auto

lemma fgets_shortens: "fgets BUF_LEN buf h = (buf', h', False) \<Longrightarrow> length h' < length h"
  by (cases h) (auto simp: fgets_def BUF_LEN_def Let_def split: if_splits)

termination read_rows
  by (relation "measure (\<lambda>(g, buf, h, row, b). length h)") (auto simp: fgets_shortens [OF sym])

declare read_rows.simps [simp del]

text \<open>\<open>None\<close> is a file that cannot be opened; \<open>raw\<close> is what the allocated buffer holds.\<close>

definition read_file :: "life_globals \<Rightarrow> string \<Rightarrow> string option \<Rightarrow> board \<Rightarrow> fault + board" where
  "read_file g raw file b =
     (case file of
        None \<Rightarrow> Inl (Exits 1)
      | Some h \<Rightarrow>
          (case fgets BUF_LEN raw h of (buf, h, eof) \<Rightarrow>
             bindE (if eof then Inr (0, b) else read_rows g buf h 0 b) (\<lambda>(row, b).
               if row \<noteq> NUM_ROWS g then Inl (Exits 1) else Inr b)))"

section \<open>The command line\<close>

text \<open>One option that \<open>getopt\<close> found, with its argument; \<open>strcpy\<close> into the 4096 bytes of \<open>FILENAME\<close>.\<close>

definition cli_option :: "char \<times> string \<Rightarrow> life_globals \<Rightarrow> fault + life_globals" where
  "cli_option = (\<lambda>(opt, optarg) g.
     if opt = CHR ''c'' then bindE (int_fit (atoi optarg)) (\<lambda>n. Inr (g\<lparr>NUM_COLS := n\<rparr>))
     else if opt = CHR ''r'' then bindE (int_fit (atoi optarg)) (\<lambda>n. Inr (g\<lparr>NUM_ROWS := n\<rparr>))
     else if opt = CHR ''g'' then bindE (int_fit (atoi optarg)) (\<lambda>n. Inr (g\<lparr>MAX_GENERATIONS := n\<rparr>))
     else if opt = CHR ''f'' then
       (if length optarg < 4096 then Inr (g\<lparr>FILENAME := optarg\<rparr>) else Inl OutOfBounds)
     else if opt = CHR ''d'' then bindE (int_fit (atoi optarg)) (\<lambda>n. Inr (g\<lparr>REFRESH_DELAY_MS := n\<rparr>))
     else Inr g)"

definition process_cli :: "(char \<times> string) list \<Rightarrow> life_globals \<Rightarrow> fault + life_globals" where
  "process_cli opts g = foldE cli_option opts (g\<lparr>FILENAME := []\<rparr>)"

text \<open>What it prints: a line for each option that \<open>getopt\<close> does not know.\<close>

definition cli_output :: "(char \<times> string) list \<Rightarrow> string" where
  "cli_output opts = concat (map (\<lambda>(opt, optarg).
     if opt = CHR ''?'' then ''unknown option: ?'' @ [CHR 0x0A] else []) opts)"

section \<open>Playing\<close>

definition ERR :: int where "ERR = -1"
definition KEY_RESIZE :: int where "KEY_RESIZE = 410"

record life_results =
  r_generations :: int
  r_key_pressed :: int

text \<open>
  What the program meets: the file, the contents of fresh memory, \<open>rand\<close>, the keys, the first of which is
  read before the first generation and \<open>ERR\<close> of which is none, and the key that comes when \<open>getch\<close> is
  made to wait: \<open>None\<close> if no key ever comes.
\<close>

record life_env =
  e_file :: "string \<Rightarrow> string option"
  e_raw_board :: "int \<Rightarrow> int \<Rightarrow> char"
  e_raw_buf :: string
  e_rands :: "nat \<Rightarrow> int"
  e_keys :: "nat \<Rightarrow> int"
  e_last_key :: "int option"

text \<open>\<open>printw\<close> of plain text.\<close>

definition printw :: "string \<Rightarrow> screen" where
  "printw s = map of_char s"

definition IDENTICAL :: string where "IDENTICAL = ''Next generation identical, aborting!'' @ [CHR 0x0A]"
definition ALL_DEAD :: string where "ALL_DEAD = ''All dead, aborting!'' @ [CHR 0x0A]"

definition generation_title :: "int \<Rightarrow> string" where
  "generation_title i = ''Generation '' @ string_of_int i @ [CHR 0x0A]"

text \<open>
  The loop: \<open>i\<close> and the two boards, exchanged after each turn; the screens are what each turn writes from
  the upper left corner. At the end \<open>i\<close> is the loop variable. Both \<open>1000 * REFRESH_DELAY_MS\<close> and \<open>i++\<close> are
  computed in an \<open>int\<close>.
\<close>

function play_loop ::
  "life_globals \<Rightarrow> (nat \<Rightarrow> int) \<Rightarrow> int \<Rightarrow> int \<Rightarrow> board \<Rightarrow> board \<Rightarrow> screen list \<Rightarrow> fault + life_results \<times> screen list" where
  "play_loop g keys i in_key currentGen nextGen out =
     (if i \<le> MAX_GENERATIONS g
      then bindE (calc_next_generation g currentGen nextGen) (\<lambda>nextGen.
           bindE (print_board g nextGen (printw (generation_title i))) (\<lambda>scr.
           bindE (compare_boards g currentGen nextGen) (\<lambda>differ.
             if differ = 0
             then Inr (\<lparr>r_generations = i, r_key_pressed = in_key\<rparr>, out @ [scr @ printw IDENTICAL])
             else bindE (check_board g nextGen) (\<lambda>alive.
               if alive = 0
               then Inr (\<lparr>r_generations = i, r_key_pressed = in_key\<rparr>, out @ [scr @ printw ALL_DEAD])
               else bindE (int_fit (1000 * REFRESH_DELAY_MS g)) (\<lambda>_.
                 let in_key = keys (nat i) in
                 if in_key \<noteq> ERR \<and> in_key \<noteq> KEY_RESIZE
                 then Inr (\<lparr>r_generations = i, r_key_pressed = in_key\<rparr>, out @ [scr])
                 else if i = INT_MAX then Inl SignedOverflow
                 else play_loop g keys (i + 1) in_key nextGen currentGen (out @ [scr]))))))
      else Inr (\<lparr>r_generations = i, r_key_pressed = in_key\<rparr>, out))"
  by pat_completeness auto
termination
  by (relation "measure (\<lambda>(g, keys, i, in_key, currentGen, nextGen, out). nat (MAX_GENERATIONS g + 1 - i))") auto

declare play_loop.simps [simp del]

text \<open>The first board: from the file if one is named, by chance otherwise.\<close>

definition first_board :: "life_globals \<Rightarrow> life_env \<Rightarrow> board \<Rightarrow> fault + board" where
  "first_board g e board1 =
     (if FILENAME g \<noteq> [] then read_file g (e_raw_buf e) (e_file e (FILENAME g)) board1
      else randomize_board g (e_rands e) board1)"

text \<open>
  After the loop: with no key read last, \<open>getch\<close> is made to wait for one. \<open>None\<close> is a \<open>play\<close> that waits for
  ever; the key that ends the wait is not part of the result.
\<close>

definition play_end :: "int option \<Rightarrow> life_results \<Rightarrow> life_results option" where
  "play_end last_key res =
     (if r_key_pressed res = ERR then (case last_key of None \<Rightarrow> None | Some _ \<Rightarrow> Some res) else Some res)"

definition play :: "life_globals \<Rightarrow> life_env \<Rightarrow> fault + life_results option \<times> screen list" where
  "play g e =
     bindE (allocate_board g (e_raw_board e)) (\<lambda>board1.
     bindE (allocate_board g (e_raw_board e)) (\<lambda>board2.
     bindE (first_board g e board1) (\<lambda>currentGen.
     bindE (print_board g currentGen (printw (''Initial generation'' @ [CHR 0x0A]))) (\<lambda>scr.
     bindE (play_loop g (e_keys e) 1 (e_keys e 0) currentGen board2 [scr]) (\<lambda>(res, screens).
       Inr (play_end (e_last_key e) res, screens))))))"

text \<open>\<open>main\<close>: its standard output, the result of \<open>play\<close> and what was written to the screen.\<close>

definition life_main :: "(char \<times> string) list \<Rightarrow> life_env \<Rightarrow> fault + string \<times> life_results option \<times> screen list" where
  "life_main opts e =
     bindE (process_cli opts initial_globals) (\<lambda>g.
     bindE (play g e) (\<lambda>(res, screens).
       Inr (''Welcome to the Game of Life'' @ [CHR 0x0A] @ cli_output opts @
         (case res of None \<Rightarrow> [] | Some r \<Rightarrow> ''Wow, we experienced '' @ string_of_int (r_generations r) @
            '' generations together! This is a special memory that I'' @ [CHR 0x27] @ ''ll remember.'' @ [CHR 0x0A]),
         res, screens)))"

section \<open>Boards that fit the globals\<close>

definition in_board :: "life_globals \<Rightarrow> int \<Rightarrow> int \<Rightarrow> bool" where
  "in_board g i j \<longleftrightarrow> 0 \<le> i \<and> i < NUM_ROWS g \<and> 0 \<le> j \<and> j < NUM_COLS g"

definition board_shape :: "life_globals \<Rightarrow> board \<Rightarrow> bool" where
  "board_shape g b \<longleftrightarrow> int (length b) = max 0 (NUM_ROWS g) \<and> (\<forall>row \<in> set b. int (length row) = max 0 (NUM_COLS g))"

definition cell :: "board \<Rightarrow> int \<Rightarrow> int \<Rightarrow> char" where
  "cell b i j = b ! nat i ! nat j"

definition board_ok :: "life_globals \<Rightarrow> board \<Rightarrow> bool" where
  "board_ok g b \<longleftrightarrow> board_shape g b \<and> (\<forall>i j. in_board g i j \<longrightarrow> cell b i j = ALIVE \<or> cell b i j = DEAD)"

definition put_cell :: "board \<Rightarrow> int \<Rightarrow> int \<Rightarrow> char \<Rightarrow> board" where
  "put_cell b i j c = b[nat i := (b ! nat i)[nat j := c]]"

lemma char_neq [simp]: "ALIVE \<noteq> DEAD" "DEAD \<noteq> ALIVE" "OUTSIDE \<noteq> ALIVE" "OUTSIDE \<noteq> DEAD"
  by (simp_all add: ALIVE_def DEAD_def OUTSIDE_def)

lemma shape_row: "board_shape g b \<Longrightarrow> in_board g i j \<Longrightarrow> i < int (length b) \<and> int (length (b ! nat i)) = NUM_COLS g"
  by (auto simp: board_shape_def in_board_def)

lemma cell_at_in [simp]: "board_shape g b \<Longrightarrow> in_board g i j \<Longrightarrow> cell_at b i j = Inr (cell b i j)"
  using shape_row [of g b i j] by (auto simp: cell_at_def cell_def in_board_def)

lemma cell_set_in [simp]: "board_shape g b \<Longrightarrow> in_board g i j \<Longrightarrow> cell_set b i j c = Inr (put_cell b i j c)"
  using shape_row [of g b i j] by (auto simp: cell_set_def put_cell_def in_board_def)

lemma put_cell_shape: "board_shape g b \<Longrightarrow> in_board g i j \<Longrightarrow> board_shape g (put_cell b i j c)"
  using shape_row [of g b i j] unfolding board_shape_def put_cell_def
  by (auto simp: in_board_def dest!: set_update_subset_insert [THEN subsetD])

lemma cell_put_cell:
  assumes "board_shape g b" "in_board g i j" "in_board g k l"
  shows "cell (put_cell b i j c) k l = (if k = i \<and> l = j then c else cell b k l)"
  using assms shape_row [OF assms(1,2)]
  by (auto simp: cell_def put_cell_def in_board_def nth_list_update)

lemma board_ext:
  assumes "board_shape g a" "board_shape g b" "\<And>i j. in_board g i j \<Longrightarrow> cell a i j = cell b i j"
  shows "a = b"
proof (rule nth_equalityI)
  show "length a = length b" using assms(1,2) by (simp add: board_shape_def)
  fix i assume i: "i < length a"
  with assms(1,2) have len: "length (a ! i) = length (b ! i)" "int (length (a ! i)) = max 0 (NUM_COLS g)"
      "int i < NUM_ROWS g"
    unfolding board_shape_def by (metis nth_mem of_nat_eq_iff, metis nth_mem, linarith)
  show "a ! i = b ! i"
  proof (rule nth_equalityI [OF len(1)])
    fix j assume "j < length (a ! i)"
    then have "in_board g (int i) (int j)" using len by (simp add: in_board_def)
    from assms(3) [OF this] show "a ! i ! j = b ! i ! j" by (simp add: cell_def)
  qed
qed

section \<open>Loops over the cells\<close>

lemma for_cells_list: "for_cells g body s = foldE (\<lambda>(i, j). body i j) (cells g) s"
  unfolding for_cells_def cells_def by (rule foldE_nested)

lemma cells_product: "cells g = List.product [0..NUM_ROWS g - 1] [0..NUM_COLS g - 1]"
  by (simp add: cells_def product_concat_map)

lemma in_cells: "(i, j) \<in> set (cells g) \<longleftrightarrow> in_board g i j"
  by (auto simp: cells_product in_board_def)

lemma distinct_cells: "distinct (cells g)"
  by (simp add: cells_product distinct_product)

text \<open>The board of a function of the row and the column.\<close>

definition board_of :: "life_globals \<Rightarrow> (int \<Rightarrow> int \<Rightarrow> char) \<Rightarrow> board" where
  "board_of g f = map (\<lambda>i. map (f i) [0..NUM_COLS g - 1]) [0..NUM_ROWS g - 1]"

lemma board_of_shape [simp]: "board_shape g (board_of g f)"
  by (auto simp: board_shape_def board_of_def)

lemma cell_board_of [simp]: "in_board g i j \<Longrightarrow> cell (board_of g f) i j = f i j"
  by (simp add: cell_def board_of_def in_board_def nth_upto)

lemma board_ofI:
  "board_shape g b \<Longrightarrow> (\<And>i j. in_board g i j \<Longrightarrow> cell b i j = f i j) \<Longrightarrow> b = board_of g f"
  by (rule board_ext [of g]) simp_all

text \<open>
  A loop that writes every cell once: afterwards each cell holds what its turn wrote, which may depend
  on what the cell held before.
\<close>

lemma write_cells:
  assumes "board_shape g b" "distinct ps" "\<forall>(i, j) \<in> set ps. in_board g i j"
    and body: "\<And>i j b. in_board g i j \<Longrightarrow> board_shape g b \<Longrightarrow>
      body i j b = Inr (put_cell b i j (h i j (cell b i j)))"
  shows "\<exists>b'. foldE (\<lambda>(i, j). body i j) ps b = Inr b' \<and> board_shape g b' \<and>
    (\<forall>i j. in_board g i j \<longrightarrow> cell b' i j = (if (i, j) \<in> set ps then h i j (cell b i j) else cell b i j))"
  using assms(1-3)
proof (induction ps arbitrary: b)
  case Nil
  then show ?case by simp
next
  case (Cons p ps)
  obtain i j where p: "p = (i, j)" by (cases p)
  have ij: "in_board g i j" using Cons.prems(3) by (simp add: p)
  let ?b = "put_cell b i j (h i j (cell b i j))"
  have "board_shape g ?b" using Cons.prems(1) ij by (rule put_cell_shape)
  from Cons.IH [OF this] Cons.prems obtain b' where b': "foldE (\<lambda>(i, j). body i j) ps ?b = Inr b'"
    "board_shape g b'" "\<forall>k l. in_board g k l \<longrightarrow>
       cell b' k l = (if (k, l) \<in> set ps then h k l (cell ?b k l) else cell ?b k l)" by auto
  have "cell b' k l = (if (k, l) \<in> set (p # ps) then h k l (cell b k l) else cell b k l)"
    if "in_board g k l" for k l
    using b'(3) that Cons.prems(1,2) ij by (auto simp: p cell_put_cell)
  then show ?case using b'(1,2) body [OF ij Cons.prems(1)] by (simp add: p)
qed

lemma write_all_cells:
  assumes "board_shape g b"
    and "\<And>i j b. in_board g i j \<Longrightarrow> board_shape g b \<Longrightarrow> body i j b = Inr (put_cell b i j (h i j (cell b i j)))"
  shows "\<exists>b'. for_cells g body b = Inr b' \<and> board_shape g b' \<and>
    (\<forall>i j. in_board g i j \<longrightarrow> cell b' i j = h i j (cell b i j))"
  using write_cells [OF assms(1) distinct_cells _ assms(2)]
  unfolding for_cells_list by (fastforce simp: in_cells)

lemma write_all_board:
  assumes "board_shape g b"
    and "\<And>i j b. in_board g i j \<Longrightarrow> board_shape g b \<Longrightarrow> body i j b = Inr (put_cell b i j (h i j (cell b i j)))"
  shows "for_cells g body b = Inr (board_of g (\<lambda>i j. h i j (cell b i j)))"
proof -
  from write_all_cells [OF assms] obtain b' where b': "for_cells g body b = Inr b'" "board_shape g b'"
    "\<And>i j. in_board g i j \<Longrightarrow> cell b' i j = h i j (cell b i j)" by blast
  from board_ofI [OF b'(2,3)] b'(1) show ?thesis by simp
qed

section \<open>The abstract game\<close>

definition alive :: "life_globals \<Rightarrow> board \<Rightarrow> (int \<times> int) set" where
  "alive g b = {(i, j). in_board g i j \<and> cell b i j = ALIVE}"

definition neighbours :: "int \<Rightarrow> int \<Rightarrow> (int \<times> int) set" where
  "neighbours i j = {(k, l). \<bar>k - i\<bar> \<le> 1 \<and> \<bar>l - j\<bar> \<le> 1} - {(i, j)}"

definition life_step :: "life_globals \<Rightarrow> (int \<times> int) set \<Rightarrow> (int \<times> int) set" where
  "life_step g A = {(i, j). in_board g i j \<and>
     (card (neighbours i j \<inter> A) = 3 \<or> card (neighbours i j \<inter> A) = 2 \<and> (i, j) \<in> A)}"

lemma get_cell_shape: "board_shape g b \<Longrightarrow> get_cell g b i j = Inr (if in_board g i j then cell b i j else DEAD)"
  using cell_at_in [of g b i j] by (auto simp: get_cell_def in_board_def)

lemma count_alive:
  "board_shape g b \<Longrightarrow>
   foldE (count_if_alive g b) ps n = Inr (n + int (length (filter (\<lambda>p. p \<in> alive g b) ps)))"
  by (induction ps arbitrary: n) (auto simp: count_if_alive_def get_cell_shape alive_def split: if_splits)

lemma neighbours_list:
  "neighbours i j = set [(i - 1, j - 1), (i - 1, j), (i - 1, j + 1), (i, j - 1),
     (i, j + 1), (i + 1, j - 1), (i + 1, j), (i + 1, j + 1)]"
proof (rule set_eqI)
  fix p :: "int \<times> int"
  obtain k l where p: "p = (k, l)" by (cases p)
  have near: "\<bar>k - i\<bar> \<le> 1 \<longleftrightarrow> k = i - 1 \<or> k = i \<or> k = i + 1" "\<bar>l - j\<bar> \<le> 1 \<longleftrightarrow> l = j - 1 \<or> l = j \<or> l = j + 1"
    by linarith+
  have "p \<in> neighbours i j \<longleftrightarrow>
      (k = i - 1 \<or> k = i \<or> k = i + 1) \<and> (l = j - 1 \<or> l = j \<or> l = j + 1) \<and> (k \<noteq> i \<or> l \<noteq> j)"
    using near by (simp add: neighbours_def p)
  then show "p \<in> neighbours i j \<longleftrightarrow> p \<in> set [(i - 1, j - 1), (i - 1, j), (i - 1, j + 1), (i, j - 1),
     (i, j + 1), (i + 1, j - 1), (i + 1, j), (i + 1, j + 1)]"
    by (simp add: p) fastforce
qed

lemma num_neighbors_card:
  assumes "board_shape g b"
  shows "num_neighbors g b i j = Inr (int (card (neighbours i j \<inter> alive g b)))"
proof -
  let ?ps = "[(i - 1, j - 1), (i - 1, j), (i - 1, j + 1), (i, j - 1),
     (i, j + 1), (i + 1, j - 1), (i + 1, j), (i + 1, j + 1)]"
  have "distinct ?ps" by simp
  then have "card (set (filter (\<lambda>p. p \<in> alive g b) ?ps)) = length (filter (\<lambda>p. p \<in> alive g b) ?ps)"
    by (intro distinct_card distinct_filter)
  moreover have "set (filter (\<lambda>p. p \<in> alive g b) ?ps) = neighbours i j \<inter> alive g b"
    unfolding neighbours_list by auto
  ultimately show ?thesis using count_alive [OF assms, of ?ps 0] by (simp only: num_neighbors_def) simp
qed

lemma cell_next_rule:
  assumes "board_ok g b" "in_board g i j"
  shows "cell_next g b i j = Inr (if (i, j) \<in> life_step g (alive g b) then ALIVE else DEAD)"
proof -
  have shape: "board_shape g b" and two: "cell b i j = ALIVE \<or> cell b i j = DEAD"
    using assms by (auto simp: board_ok_def)
  have mem: "(i, j) \<in> alive g b \<longleftrightarrow> cell b i j = ALIVE" using assms(2) by (simp add: alive_def)
  show ?thesis
    unfolding cell_next_def num_neighbors_card [OF shape] get_cell_shape [OF shape] bindE_simps life_step_def
    using two assms(2) mem by auto
qed

lemma calc_next_ok:
  assumes cur: "board_ok g cur" and nxt: "board_shape g nxt"
  shows "\<exists>b. calc_next_generation g cur nxt = Inr b \<and> board_ok g b \<and> alive g b = life_step g (alive g cur)"
proof -
  have "bindE (cell_next g cur i j) (cell_set b i j) =
      Inr (put_cell b i j (if (i, j) \<in> life_step g (alive g cur) then ALIVE else DEAD))"
    if "in_board g i j" "board_shape g b" for i j b
    using cell_next_rule [OF cur that(1)] that by simp
  from write_all_cells [OF nxt, of _ "\<lambda>i j c. if (i, j) \<in> life_step g (alive g cur) then ALIVE else DEAD", OF this]
  obtain b where "calc_next_generation g cur nxt = Inr b" "board_shape g b" and
    b: "\<And>i j. in_board g i j \<Longrightarrow> cell b i j = (if (i, j) \<in> life_step g (alive g cur) then ALIVE else DEAD)"
    unfolding calc_next_generation_def by blast
  moreover have "alive g b = life_step g (alive g cur)"
    using b by (auto simp: alive_def life_step_def split: if_splits)
  ultimately show ?thesis by (auto simp: board_ok_def)
qed

section \<open>The other board operations\<close>

lemma first_hit_Inr:
  "(\<And>p. p \<in> set ps \<Longrightarrow> f p = Inr (P p)) \<Longrightarrow> first_hit f ps = Inr (if \<exists>p \<in> set ps. P p then 1 else 0)"
  by (induction ps) auto

lemma bex_cells: "(\<exists>p \<in> set (cells g). case p of (i, j) \<Rightarrow> P i j) \<longleftrightarrow> (\<exists>i j. in_board g i j \<and> P i j)"
  unfolding in_cells [symmetric] by blast

lemma hits_cells:
  assumes "\<And>i j. in_board g i j \<Longrightarrow> f (i, j) = Inr (P i j)"
  shows "first_hit f (cells g) = Inr (if \<exists>i j. in_board g i j \<and> P i j then 1 else 0)"
proof -
  have "first_hit f (cells g) = Inr (if \<exists>p \<in> set (cells g). case p of (i, j) \<Rightarrow> P i j then 1 else 0)"
    using assms by (intro first_hit_Inr) (auto simp: in_cells)
  then show ?thesis by (simp only: bex_cells)
qed

lemma check_board_alive:
  assumes "board_shape g b"
  shows "check_board g b = Inr (if alive g b = {} then 0 else 1)"
proof -
  have "check_board g b = Inr (if \<exists>i j. in_board g i j \<and> cell b i j = ALIVE then 1 else 0)"
    unfolding check_board_def using assms by (intro hits_cells) simp
  moreover have "(\<exists>i j. in_board g i j \<and> cell b i j = ALIVE) \<longleftrightarrow> alive g b \<noteq> {}"
    by (auto simp: alive_def)
  ultimately show ?thesis by simp
qed

lemma compare_boards_eq:
  assumes "board_shape g a" "board_shape g b"
  shows "compare_boards g a b = Inr (if a = b then 0 else 1)"
proof -
  have "compare_boards g a b = Inr (if \<exists>i j. in_board g i j \<and> cell a i j \<noteq> cell b i j then 1 else 0)"
    unfolding compare_boards_def using assms by (intro hits_cells) simp
  moreover have "(\<exists>i j. in_board g i j \<and> cell a i j \<noteq> cell b i j) \<longleftrightarrow> a \<noteq> b"
    using board_ext [OF assms] by blast
  ultimately show ?thesis by simp
qed

lemma board_of_alive:
  assumes "board_ok g a" "board_ok g b" "alive g a = alive g b"
  shows "a = b"
proof (rule board_ext [of g])
  fix i j assume ij: "in_board g i j"
  then have "cell a i j = ALIVE \<longleftrightarrow> cell b i j = ALIVE" using assms(3) by (auto simp: alive_def set_eq_iff)
  then show "cell a i j = cell b i j" using assms(1,2) ij unfolding board_ok_def by metis
qed (use assms in \<open>simp_all add: board_ok_def\<close>)

lemma clear_board_all: "board_shape g b \<Longrightarrow> clear_board g b c = Inr (board_of g (\<lambda>i j. c))"
  unfolding clear_board_def by (rule write_all_board) simp_all

lemma allocate_board_dead: "allocate_board g raw = Inr (board_of g (\<lambda>i j. DEAD))"
  using clear_board_all [OF board_of_shape, of g raw DEAD] by (simp add: allocate_board_def board_of_def)

lemma copy_board_same:
  assumes "board_shape g src" "board_shape g dest"
  shows "copy_board g src dest = Inr src"
proof -
  have "copy_board g src dest = Inr (board_of g (cell src))"
    unfolding copy_board_def using assms by (intro write_all_board) simp_all
  then show ?thesis using board_ofI [OF assms(1), of "cell src"] by simp
qed

lemma invert_board_cells:
  "board_shape g b \<Longrightarrow> invert_board g b = Inr (board_of g (\<lambda>i j. if cell b i j = ALIVE then DEAD else ALIVE))"
  unfolding invert_board_def by (rule write_all_board) simp_all

lemma board_of_ok: "(\<And>i j. in_board g i j \<Longrightarrow> f i j = ALIVE \<or> f i j = DEAD) \<Longrightarrow> board_ok g (board_of g f)"
  by (simp add: board_ok_def)

text \<open>What is printed for a set of live points.\<close>

definition picture :: "life_globals \<Rightarrow> (int \<times> int) set \<Rightarrow> screen" where
  "picture g A = concat (map (\<lambda>i. concat (map (\<lambda>j. (if (i, j) \<in> A then OUT_ALIVE else OUT_DEAD) @ [0x20])
     [0..NUM_COLS g - 1]) @ [0x0A]) [0..NUM_ROWS g - 1])"

lemma foldE_output:
  "(\<And>x out. x \<in> set xs \<Longrightarrow> f x out = Inr (out @ h x)) \<Longrightarrow>
   foldE f xs out = Inr (out @ concat (map h xs))"
  by (induction xs arbitrary: out) auto

lemma print_board_picture:
  assumes "board_shape g b"
  shows "print_board g b out = Inr (out @ picture g (alive g b))"
proof -
  have row: "foldE (\<lambda>j out. bindE (cell_at b i j) (\<lambda>c.
        Inr (out @ (if c = ALIVE then OUT_ALIVE else OUT_DEAD) @ [0x20]))) [0..NUM_COLS g - 1] out =
      Inr (out @ concat (map (\<lambda>j. (if (i, j) \<in> alive g b then OUT_ALIVE else OUT_DEAD) @ [0x20]) [0..NUM_COLS g - 1]))"
    if "0 \<le> i" "i < NUM_ROWS g" for i out
  proof (rule foldE_output)
    fix j out assume "j \<in> set [0..NUM_COLS g - 1]"
    with that have "in_board g i j" by (simp add: in_board_def)
    with assms show "bindE (cell_at b i j) (\<lambda>c. Inr (out @ (if c = ALIVE then OUT_ALIVE else OUT_DEAD) @ [0x20])) =
        Inr (out @ (if (i, j) \<in> alive g b then OUT_ALIVE else OUT_DEAD) @ [0x20])"
      by (simp add: alive_def)
  qed
  show ?thesis unfolding print_board_def picture_def
    by (rule foldE_output) (simp add: row)
qed

lemma put_cell_ok:
  assumes "board_ok g b" "in_board g i j" "c = ALIVE \<or> c = DEAD"
  shows "board_ok g (put_cell b i j c)"
proof -
  have "cell (put_cell b i j c) k l = ALIVE \<or> cell (put_cell b i j c) k l = DEAD" if "in_board g k l" for k l
    using assms that unfolding board_ok_def by (metis cell_put_cell)
  then show ?thesis using assms by (simp add: board_ok_def put_cell_shape)
qed

text \<open>The turn of a cell, counted along the rows.\<close>

lemma cell_turn:
  assumes "in_board g i j"
  shows "nat (i * NUM_COLS g + j) < length (cells g)" "cells g ! nat (i * NUM_COLS g + j) = (i, j)"
proof -
  define r c C R where "r = nat i" "c = nat j" "C = nat (NUM_COLS g)" "R = nat (NUM_ROWS g)"
  with assms have n: "i = int r" "j = int c" "NUM_COLS g = int C" "NUM_ROWS g = int R" "r < R" "c < C"
    by (auto simp: in_board_def)
  have k: "nat (i * NUM_COLS g + j) = r * C + c" unfolding n by (simp flip: of_nat_mult of_nat_add)
  have "Suc r * C \<le> R * C" using n(5) by (intro mult_le_mono1) simp
  then have lt: "r * C + c < R * C" using n(6) by simp
  then show "nat (i * NUM_COLS g + j) < length (cells g)" unfolding k by (simp add: cells_product n)
  have "C \<noteq> 0" using n(6) by simp
  then have row: "(r * C + c) div C = r" using n(6) div_mult_self3 [of C r c] by simp
  show "cells g ! nat (i * NUM_COLS g + j) = (i, j)"
    unfolding k using lt n(5,6) row by (simp add: cells_product product_nth n nth_upto)
qed

definition random_cell :: "life_globals \<Rightarrow> (nat \<Rightarrow> int) \<Rightarrow> int \<Rightarrow> int \<Rightarrow> char" where
  "random_cell g rands i j = (if rands (nat (i * NUM_COLS g + j)) mod 2 = 0 then ALIVE else DEAD)"

lemma randomize_board_cells:
  assumes "board_shape g b"
  shows "randomize_board g rands b = Inr (board_of g (random_cell g rands))"
proof -
  let ?v = "\<lambda>n. if rands n mod 2 = 0 then ALIVE else DEAD"
  let ?body = "\<lambda>i j (n, b). bindE (cell_set b i j (?v n)) (\<lambda>b. Inr (Suc n, b))"
  let ?I = "\<lambda>ys (n, b). n = length ys \<and> board_shape g b \<and>
    (\<forall>k < length ys. case ys ! k of (i, j) \<Rightarrow> cell b i j = ?v k)"
  have "\<exists>s. foldE (\<lambda>(i, j). ?body i j) (cells g) (0, b) = Inr s \<and> ?I (cells g) s"
  proof (rule foldE_visited [where I = ?I])
    fix ys p zs and s :: "nat \<times> board" assume es: "cells g = ys @ p # zs" and I: "?I ys s"
    obtain i j n b where p: "p = (i, j)" "s = (n, b)" by (cases p, cases s)
    have "set ys \<subseteq> set (cells g)" "p \<in> set (cells g)" unfolding es by auto
    then have ij: "in_board g i j" and ys: "\<And>k l. (k, l) \<in> set ys \<Longrightarrow> in_board g k l" by (auto simp: p in_cells)
    have fresh: "(i, j) \<notin> set ys" using distinct_cells [of g] by (simp add: es p)
    from I have b: "n = length ys" "board_shape g b" "\<And>k. k < length ys \<Longrightarrow> case ys ! k of (i, j) \<Rightarrow> cell b i j = ?v k"
      by (auto simp: p)
    have new: "case (ys @ [p]) ! k of (k', l) \<Rightarrow> cell (put_cell b i j (?v n)) k' l = ?v k" if "k < length (ys @ [p])" for k
    proof (cases "k = length ys")
      case True
      then show ?thesis using cell_put_cell [OF b(2) ij ij] b(1) by (simp add: p)
    next
      case False
      with that have k: "k < length ys" by simp
      obtain k' l where kl: "ys ! k = (k', l)" by (cases "ys ! k")
      then have mem: "(k', l) \<in> set ys" using k by (metis nth_mem)
      then have "(k', l) \<noteq> (i, j)" using fresh by auto
      then show ?thesis using cell_put_cell [OF b(2) ij ys [OF mem]] b(3) [OF k] k kl by (auto simp: nth_append)
    qed
    then show "\<exists>s'. (case p of (i, j) \<Rightarrow> ?body i j) s = Inr s' \<and> ?I (ys @ [p]) s'"
      using ij b(1,2) new by (simp add: p put_cell_shape)
  qed (use assms in simp)
  then obtain n b' where run: "foldE (\<lambda>(i, j). ?body i j) (cells g) (0, b) = Inr (n, b')" and b': "board_shape g b'"
    "\<And>k. k < length (cells g) \<Longrightarrow> case cells g ! k of (i, j) \<Rightarrow> cell b' i j = ?v k" by auto
  have "cell b' i j = random_cell g rands i j" if "in_board g i j" for i j
    using b'(2) [OF cell_turn(1) [OF that]] cell_turn(2) [OF that] by (simp add: random_cell_def)
  from board_ofI [OF b'(1) this] run show ?thesis by (simp add: randomize_board_def for_cells_list)
qed

section \<open>The loop of the game\<close>

definition generation :: "life_globals \<Rightarrow> (int \<times> int) set \<Rightarrow> nat \<Rightarrow> (int \<times> int) set" where
  "generation g A k = (life_step g ^^ k) A"

text \<open>Why the game stops with generation \<open>k\<close>: nothing changes, nothing lives, or a key was pressed.\<close>

definition over :: "life_globals \<Rightarrow> (int \<times> int) set \<Rightarrow> nat \<Rightarrow> bool" where
  "over g A k \<longleftrightarrow> generation g A k = generation g A (k - 1) \<or> generation g A k = {}"

definition key_stops :: "(nat \<Rightarrow> int) \<Rightarrow> nat \<Rightarrow> bool" where
  "key_stops keys k \<longleftrightarrow> keys k \<noteq> ERR \<and> keys k \<noteq> KEY_RESIZE"

text \<open>What a turn writes: its number, its generation, and why it is the last, if the board shows it.\<close>

definition turn_text :: "life_globals \<Rightarrow> (int \<times> int) set \<Rightarrow> nat \<Rightarrow> screen" where
  "turn_text g A m = printw (generation_title (int m)) @ picture g (generation g A m) @
     (if generation g A m = generation g A (m - 1) then printw IDENTICAL
      else if generation g A m = {} then printw ALL_DEAD else [])"

definition game_ends :: "life_globals \<Rightarrow> (nat \<Rightarrow> int) \<Rightarrow> (int \<times> int) set \<Rightarrow> nat \<Rightarrow> nat \<Rightarrow> life_results \<Rightarrow> screen list \<Rightarrow> bool" where
  "game_ends g keys A k n res out \<longleftrightarrow>
     (let M = nat (MAX_GENERATIONS g) in
      k \<le> n \<and> n \<le> M + 1 \<and> (\<forall>m. k \<le> m \<longrightarrow> m < n \<longrightarrow> \<not> over g A m \<and> \<not> key_stops keys m) \<and>
      (n \<le> M \<longrightarrow> over g A n \<or> key_stops keys n) \<and>
      res = \<lparr>r_generations = int n,
             r_key_pressed = (if n \<le> M \<and> \<not> over g A n then keys n else keys (n - 1))\<rparr> \<and>
      out = map (turn_text g A) [k..<min (n + 1) (M + 1)])"

lemma game_ends_now:
  assumes "k \<le> nat (MAX_GENERATIONS g)" "over g A k \<or> key_stops keys k"
  shows "game_ends g keys A k k \<lparr>r_generations = int k, r_key_pressed = (if over g A k then keys (k - 1) else keys k)\<rparr>
    [turn_text g A k]"
  using assms by (auto simp: game_ends_def Let_def)

lemma game_ends_later:
  assumes "game_ends g keys A (Suc k) n res out" "k \<le> nat (MAX_GENERATIONS g)" "\<not> over g A k" "\<not> key_stops keys k"
  shows "game_ends g keys A k n res (turn_text g A k # out)"
proof -
  have "[k..<min (n + 1) (nat (MAX_GENERATIONS g) + 1)] = k # [Suc k..<min (n + 1) (nat (MAX_GENERATIONS g) + 1)]"
    using assms(1,2) by (subst upt_conv_Cons) (auto simp: game_ends_def Let_def)
  moreover have "\<not> over g A m \<and> \<not> key_stops keys m" if "k \<le> m" "m < n" for m
    using assms that by (cases "m = k") (auto simp: game_ends_def Let_def)
  ultimately show ?thesis using assms(1) by (auto simp: game_ends_def Let_def)
qed

lemma play_loop_game:
  assumes "0 \<le> MAX_GENERATIONS g" "MAX_GENERATIONS g < INT_MAX" "0 \<le> REFRESH_DELAY_MS g"
    and "1000 * REFRESH_DELAY_MS g \<le> INT_MAX" "1 \<le> k" "k \<le> nat (MAX_GENERATIONS g) + 1"
    and "board_ok g cur" "board_shape g nxt" "alive g cur = generation g A (k - 1)"
  shows "\<exists>n res scr. play_loop g keys (int k) (keys (k - 1)) cur nxt out = Inr (res, out @ scr) \<and>
    game_ends g keys A k n res scr"
  using assms
proof (induction "nat (MAX_GENERATIONS g) + 1 - k" arbitrary: k cur nxt out)
  case 0
  then have "\<not> int k \<le> MAX_GENERATIONS g" "k = nat (MAX_GENERATIONS g) + 1" by linarith+
  then show ?case
    by (subst play_loop.simps, intro exI [of _ k]) (auto simp: game_ends_def Let_def)
next
  case (Suc d)
  from Suc have le: "int k \<le> MAX_GENERATIONS g" "k \<le> nat (MAX_GENERATIONS g)" by linarith+
  from calc_next_ok [OF Suc.prems(7,8)] obtain b where
    b: "calc_next_generation g cur nxt = Inr b" "board_ok g b" "alive g b = life_step g (alive g cur)" by blast
  have gen: "alive g b = generation g A k"
    using b(3) Suc.prems(5,9) by (cases k) (simp_all add: generation_def)
  have shapes: "board_shape g cur" "board_shape g b" using Suc.prems(7) b(2) by (simp_all add: board_ok_def)
  have eq: "cur = b \<longleftrightarrow> generation g A k = generation g A (k - 1)"
    using board_of_alive [OF Suc.prems(7) b(2)] gen Suc.prems(9) by auto
  have small: "int k \<noteq> INT_MAX" using le Suc.prems(2) by simp
  have delay: "int_fit (1000 * REFRESH_DELAY_MS g) = Inr (1000 * REFRESH_DELAY_MS g)" using Suc.prems(3,4) by simp
  note unfold = play_loop.simps [of g keys "int k"] b(1) print_board_picture [OF shapes(2)] gen
    compare_boards_eq [OF shapes] check_board_alive [OF shapes(2)] eq delay
  show ?case
  proof (cases "over g A k \<or> key_stops keys k")
    case True
    then have "play_loop g keys (int k) (keys (k - 1)) cur nxt out =
        Inr (\<lparr>r_generations = int k, r_key_pressed = (if over g A k then keys (k - 1) else keys k)\<rparr>,
             out @ [turn_text g A k])"
      using le small by (auto simp: unfold over_def key_stops_def Let_def turn_text_def)
    with game_ends_now [OF le(2) True] show ?thesis by blast
  next
    case False
    then have step: "play_loop g keys (int k) (keys (k - 1)) cur nxt out =
        play_loop g keys (int (Suc k)) (keys (Suc k - 1)) b cur (out @ [turn_text g A k])"
      using le small by (auto simp: unfold over_def key_stops_def Let_def turn_text_def add.commute)
    have "\<exists>n res scr. play_loop g keys (int (Suc k)) (keys (Suc k - 1)) b cur (out @ [turn_text g A k]) =
        Inr (res, (out @ [turn_text g A k]) @ scr) \<and> game_ends g keys A (Suc k) n res scr"
      using Suc.hyps(2) Suc.prems le b(2) gen shapes by (intro Suc.hyps(1)) auto
    with game_ends_later [OF _ le(2)] False show ?thesis unfolding step by fastforce
  qed
qed

section \<open>Reading a file\<close>

text \<open>The text of a board: each row and a line end.\<close>

definition file_text :: "string list \<Rightarrow> string" where
  "file_text rows = concat (map (\<lambda>row. row @ [CHR 0x0A]) rows)"

definition row_ok :: "life_globals \<Rightarrow> string \<Rightarrow> bool" where
  "row_ok g row \<longleftrightarrow> int (length row) = NUM_COLS g \<and> CHR 0x0A \<notin> set row \<and> CHR 0x00 \<notin> set row"

lemma file_text_simps [simp]: "file_text [] = []" "file_text (row # rows) = row @ CHR 0x0A # file_text rows"
  by (simp_all add: file_text_def)

lemma fgets_line:
  assumes "CHR 0x0A \<notin> set row" "length row < n - 1"
  shows "fgets n buf (row @ CHR 0x0A # rest) =
    (row @ CHR 0x0A # CHR 0x00 # drop (length row + 2) buf, rest, False)"
proof -
  have "takeWhile (\<lambda>c. c \<noteq> CHR 0x0A) (row @ CHR 0x0A # rest) = row"
    using assms(1) by (subst takeWhile_append2) auto
  then show ?thesis using assms(2) by (simp add: fgets_def)
qed

lemma read_row_cells:
  assumes "board_shape g b" "0 \<le> i" "i < NUM_ROWS g" "NUM_COLS g \<le> int (length buf)"
  shows "\<exists>b'. read_row g buf i b = Inr b' \<and> board_shape g b' \<and>
    (\<forall>k l. in_board g k l \<longrightarrow> cell b' k l = (if k = i then buf ! nat l else cell b k l))"
proof -
  let ?ps = "map (Pair i) [0..NUM_COLS g - 1]"
  have "\<exists>b'. foldE (\<lambda>(i, j). (\<lambda>i j b. bindE (ivec_at buf j) (cell_set b i j)) i j) ?ps b = Inr b' \<and>
      board_shape g b' \<and>
      (\<forall>k l. in_board g k l \<longrightarrow> cell b' k l = (if (k, l) \<in> set ?ps then buf ! nat l else cell b k l))"
    using assms by (intro write_cells) (auto simp: in_board_def distinct_map inj_on_def)
  then obtain b' where "read_row g buf i b = Inr b'" "board_shape g b'"
    "\<forall>k l. in_board g k l \<longrightarrow> cell b' k l = (if (k, l) \<in> set ?ps then buf ! nat l else cell b k l)"
    by (auto simp: read_row_def foldE_map)
  then show ?thesis by (auto simp: in_board_def)
qed

lemma read_rows_turn:
  assumes row: "row_ok g row" and len: "NUM_COLS g \<le> 998" "length buf = 1000"
    and buf: "buf = row @ CHR 0x0A # CHR 0x00 # tail"
    and b: "board_shape g b" "0 \<le> i" "i < NUM_ROWS g"
  shows "\<exists>b' buf'. length buf' = 1000 \<and> board_shape g b' \<and>
    (\<forall>k l. in_board g k l \<longrightarrow> cell b' k l = (if k = i then row ! nat l else cell b k l)) \<and>
    read_rows g buf h i b = (case fgets BUF_LEN buf' h of (buf, h', eof) \<Rightarrow>
      if eof then Inr (i + 1, b') else read_rows g buf h' (i + 1) b')"
proof -
  let ?buf = "row @ CHR 0x00 # CHR 0x00 # tail"
  have n: "NUM_COLS g = int (length row)" using row by (simp add: row_ok_def)
  have at: "ivec_at buf (NUM_COLS g) = Inr (CHR 0x0A)" and set: "ivec_set buf (NUM_COLS g) (CHR 0x00) = Inr ?buf"
    unfolding n buf by (simp_all add: ivec_at_def ivec_set_def)
  have "takeWhile (\<lambda>c. c \<noteq> CHR 0x00) ?buf = row"
    using row by (subst takeWhile_append2) (auto simp: row_ok_def)
  then have strlen: "int (strlen ?buf) = NUM_COLS g" using row by (simp add: strlen_def row_ok_def)
  obtain b' where b': "read_row g ?buf i b = Inr b'" "board_shape g b'"
    "\<forall>k l. in_board g k l \<longrightarrow> cell b' k l = (if k = i then ?buf ! nat l else cell b k l)"
    using read_row_cells [OF b, of ?buf] row by (auto simp: row_ok_def)
  have "\<forall>k l. in_board g k l \<longrightarrow> cell b' k l = (if k = i then row ! nat l else cell b k l)"
    using b'(3) row by (auto simp: in_board_def row_ok_def nth_append)
  moreover have "read_rows g buf h i b = (case fgets BUF_LEN ?buf h of (buf, h', eof) \<Rightarrow>
      if eof then Inr (i + 1, b') else read_rows g buf h' (i + 1) b')"
    by (subst read_rows.simps) (simp add: at set strlen b'(1))
  moreover have "length ?buf = 1000" using len(2) by (simp add: buf)
  ultimately show ?thesis using b'(2) by blast
qed

lemma read_rows_file:
  assumes "list_all (row_ok g) (row # rows)" "NUM_COLS g \<le> 998" "length buf = 1000"
    and "buf = row @ CHR 0x0A # CHR 0x00 # tail" "board_shape g b"
    and "int i + int (length (row # rows)) \<le> NUM_ROWS g"
  shows "\<exists>b'. read_rows g buf (file_text rows) (int i) b = Inr (int i + int (length (row # rows)), b') \<and>
    board_shape g b' \<and> (\<forall>k l. in_board g k l \<longrightarrow>
      cell b' k l = (if int i \<le> k \<and> k < int i + int (length (row # rows)) then ((row # rows) ! nat (k - int i)) ! nat l
                     else cell b k l))"
  using assms
proof (induction rows arbitrary: row buf tail b i)
  case Nil
  then have "row_ok g row" "int i < NUM_ROWS g" by simp_all
  from read_rows_turn [OF this(1) Nil.prems(2-5) _ this(2), of "[]"] obtain b' buf' where
    b': "board_shape g b'"
    "\<forall>k l. in_board g k l \<longrightarrow> cell b' k l = (if k = int i then row ! nat l else cell b k l)"
    "read_rows g buf [] (int i) b = (case fgets BUF_LEN buf' [] of (buf, h', eof) \<Rightarrow>
      if eof then Inr (int i + 1, b') else read_rows g buf h' (int i + 1) b')" by auto
  then have "read_rows g buf [] (int i) b = Inr (int i + 1, b')" by (simp add: fgets_def)
  with b'(1,2) show ?case by (intro exI [of _ b']) auto
next
  case (Cons row' rows)
  have ok: "row_ok g row" "int i < NUM_ROWS g" "row_ok g row'" using Cons.prems(1,6) by simp_all
  from read_rows_turn [OF ok(1) Cons.prems(2-5) _ ok(2), of "file_text (row' # rows)"] obtain b1 buf' where
    b1: "length buf' = 1000" "board_shape g b1"
    "\<forall>k l. in_board g k l \<longrightarrow> cell b1 k l = (if k = int i then row ! nat l else cell b k l)" and
    turn: "read_rows g buf (file_text (row' # rows)) (int i) b =
      (case fgets BUF_LEN buf' (file_text (row' # rows)) of (buf, h', eof) \<Rightarrow>
        if eof then Inr (int i + 1, b1) else read_rows g buf h' (int i + 1) b1)" by auto
  let ?buf = "row' @ CHR 0x0A # CHR 0x00 # drop (length row' + 2) buf'"
  have short: "length row' < BUF_LEN - 1" using ok(3) Cons.prems(2) by (simp add: row_ok_def BUF_LEN_def)
  have next_line: "read_rows g buf (file_text (row' # rows)) (int i) b =
      read_rows g ?buf (file_text rows) (int (Suc i)) b1"
    using turn fgets_line [OF _ short] ok(3) by (simp add: row_ok_def add.commute)
  have "length ?buf = 1000" using b1(1) short by (simp add: BUF_LEN_def)
  from Cons.IH [OF _ Cons.prems(2) this refl b1(2), of "Suc i"] Cons.prems(1,6) obtain b2 where
    b2: "read_rows g ?buf (file_text rows) (int (Suc i)) b1 = Inr (int (Suc i) + int (length (row' # rows)), b2)"
    "board_shape g b2"
    "\<forall>k l. in_board g k l \<longrightarrow> cell b2 k l =
      (if int (Suc i) \<le> k \<and> k < int (Suc i) + int (length (row' # rows)) then ((row' # rows) ! nat (k - int (Suc i))) ! nat l
       else cell b1 k l)" by auto
  have "cell b2 k l = (if int i \<le> k \<and> k < int i + int (length (row # row' # rows))
      then ((row # row' # rows) ! nat (k - int i)) ! nat l else cell b k l)" if "in_board g k l" for k l
  proof (cases "int (Suc i) \<le> k")
    case True
    then have "nat (k - int i) = Suc (nat (k - int (Suc i)))" by simp
    with True b2(3) b1(3) that show ?thesis by auto
  next
    case False
    then show ?thesis using b2(3) b1(3) that by (cases "k = int i") auto
  qed
  with b2(1,2) show ?case unfolding next_line by (intro exI [of _ b2]) simp
qed

lemma read_rows_past_end:
  assumes "row_ok g row" "0 < NUM_COLS g" "board_shape g b" "i = NUM_ROWS g" "0 \<le> i"
    and buf: "buf = row @ CHR 0x0A # CHR 0x00 # tail"
  shows "read_rows g buf h i b = Inl OutOfBounds"
proof -
  have n: "NUM_COLS g = int (length row)" using assms(1) by (simp add: row_ok_def)
  have "takeWhile (\<lambda>c. c \<noteq> CHR 0x00) (row @ CHR 0x00 # CHR 0x00 # tail) = row"
    using assms(1) by (subst takeWhile_append2) (auto simp: row_ok_def)
  moreover have "read_row g buf' i b = Inl OutOfBounds" if "NUM_COLS g \<le> int (length buf')" for buf'
  proof -
    have "[0..NUM_COLS g - 1] = 0 # [1..NUM_COLS g - 1]" using assms(2) by (simp add: upto_rec1)
    moreover have "cell_set b i j c = Inl OutOfBounds" for j c
      using assms(3,4,5) by (simp add: cell_set_def ivec_at_def board_shape_def)
    moreover have "0 < int (length buf')" using assms(2) that by linarith
    then have "ivec_at buf' 0 = Inr (buf' ! 0)" by (simp add: ivec_at_def)
    ultimately show ?thesis by (simp add: read_row_def)
  qed
  ultimately show ?thesis
    by (subst read_rows.simps) (simp add: n buf ivec_at_def ivec_set_def strlen_def)
qed

lemma read_rows_too_many:
  assumes "list_all (row_ok g) (row # rows)" "NUM_COLS g \<le> 998" "0 < NUM_COLS g" "length buf = 1000"
    and "buf = row @ CHR 0x0A # CHR 0x00 # tail" "board_shape g b"
    and "0 \<le> i" "i \<le> NUM_ROWS g" "NUM_ROWS g < i + int (length (row # rows))"
  shows "read_rows g buf (file_text rows) i b = Inl OutOfBounds"
  using assms
proof (induction rows arbitrary: row buf tail b i)
  case Nil
  then have i: "i = NUM_ROWS g" by simp
  show ?case by (rule read_rows_past_end) (use Nil i in simp_all)
next
  case (Cons row' rows)
  show ?case
  proof (cases "i = NUM_ROWS g")
    case True
    show ?thesis by (rule read_rows_past_end) (use Cons.prems True in simp_all)
  next
    case False
    have ok: "row_ok g row" "i < NUM_ROWS g" "row_ok g row'" using Cons.prems(1,8) False by simp_all
    from read_rows_turn [OF ok(1) Cons.prems(2,4,5,6,7) ok(2), of "file_text (row' # rows)"] obtain b1 buf' where
      b1: "length buf' = 1000" "board_shape g b1" and
      turn: "read_rows g buf (file_text (row' # rows)) i b =
        (case fgets BUF_LEN buf' (file_text (row' # rows)) of (buf, h', eof) \<Rightarrow>
          if eof then Inr (i + 1, b1) else read_rows g buf h' (i + 1) b1)" by auto
    let ?buf = "row' @ CHR 0x0A # CHR 0x00 # drop (length row' + 2) buf'"
    have short: "length row' < BUF_LEN - 1" using ok(3) Cons.prems(2) by (simp add: row_ok_def BUF_LEN_def)
    have "length ?buf = 1000" using b1(1) short by (simp add: BUF_LEN_def)
    then have "read_rows g ?buf (file_text rows) (i + 1) b1 = Inl OutOfBounds"
      using Cons.prems ok b1 by (intro Cons.IH) auto
    then show ?thesis using turn fgets_line [OF _ short] ok(3) by (simp add: row_ok_def)
  qed
qed

section \<open>Properties\<close>

text \<open>
  C29: The next generation is Conway's: from any board of live and dead cells, into any board of the same
  size whatever it holds, the rules give exactly the points with three live neighbours and the live
  points with two, where everything outside the board is dead; no cell is read or written out of range.
\<close>

theorem life_next_generation:
  assumes "board_ok g cur" "board_shape g nxt"
  shows "\<exists>b. calc_next_generation g cur nxt = Inr b \<and> board_ok g b \<and> alive g b = life_step g (alive g cur)"
  by (rule calc_next_ok [OF assms])

definition globals3 :: life_globals where
  "globals3 = initial_globals\<lparr>NUM_ROWS := 3, NUM_COLS := 3\<rparr>"

definition blinker :: board where
  "blinker = [''...'', ''XXX'', ''...'']"

lemma globals3_sizes [simp]: "NUM_ROWS globals3 = 3" "NUM_COLS globals3 = 3" "MAX_GENERATIONS globals3 = 10000" "FILENAME globals3 = []"
  "REFRESH_DELAY_MS globals3 = 125"
  by (simp_all add: globals3_def initial_globals_def)

lemma in_board3: "in_board globals3 i j \<longleftrightarrow> (i = 0 \<or> i = 1 \<or> i = 2) \<and> (j = 0 \<or> j = 1 \<or> j = 2)"
  by (auto simp: in_board_def)

lemma blinker_ok: "board_ok globals3 blinker"
  by (auto simp: board_ok_def board_shape_def in_board3 cell_def blinker_def ALIVE_def DEAD_def)

theorem life_next_generation_witness:
  "\<exists>b. calc_next_generation globals3 blinker [''abc'', ''def'', ''ghi''] = Inr b \<and>
     board_ok globals3 b \<and> alive globals3 b = life_step globals3 (alive globals3 blinker)"
  by (rule life_next_generation [OF blinker_ok]) (simp add: board_shape_def)

text \<open>
  C37: The loop of the game always comes to an end, on whatever board of live and dead cells it starts with,
  by chance or from a file, as long as the loop variable and the delay fit an \<open>int\<close>: the screen gets
  the first board and then its generations in order, one per turn, until the first that equals its
  predecessor, is empty, or is followed by a key, and at most the permitted number. The results name that
  generation and the last key read. \<open>play\<close> returns them if that was a key; if it was none, \<open>play\<close> waits for
  one, and returns only if one comes.
\<close>

theorem life_play_ends:
  assumes "first_board g e (board_of g (\<lambda>i j. DEAD)) = Inr b" "board_ok g b"
    and "0 \<le> MAX_GENERATIONS g" "MAX_GENERATIONS g < INT_MAX"
    and "0 \<le> REFRESH_DELAY_MS g" "1000 * REFRESH_DELAY_MS g \<le> INT_MAX"
  shows "\<exists>n res scr. game_ends g (e_keys e) (alive g b) 1 n res scr \<and>
    play g e = Inr (if r_key_pressed res = ERR \<and> e_last_key e = None then None else Some res,
      (printw (''Initial generation'' @ [CHR 0x0A]) @ picture g (alive g b)) # scr)"
proof -
  let ?first = "printw (''Initial generation'' @ [CHR 0x0A]) @ picture g (alive g b)"
  let ?dead = "board_of g (\<lambda>i j. DEAD)"
  have "board_shape g b" using assms(2) by (simp add: board_ok_def)
  note first = print_board_picture [OF this]
  have "\<exists>n res scr. play_loop g (e_keys e) (int 1) (e_keys e (1 - 1)) b ?dead [?first] = Inr (res, [?first] @ scr) \<and>
      game_ends g (e_keys e) (alive g b) 1 n res scr"
    using assms by (intro play_loop_game) (simp_all add: generation_def)
  then obtain n res scr where "play_loop g (e_keys e) 1 (e_keys e 0) b ?dead [?first] = Inr (res, ?first # scr)"
    "game_ends g (e_keys e) (alive g b) 1 n res scr" by auto
  then show ?thesis
    by (intro exI [of _ n] exI [of _ res] exI [of _ scr])
      (simp add: play_def allocate_board_dead assms(1) first play_end_def split: option.split)
qed

definition life_env_example :: life_env where
  "life_env_example = \<lparr>e_file = (\<lambda>_. None), e_raw_board = (\<lambda>i j. CHR ''?''), e_raw_buf = replicate 1000 CHR ''?'',
     e_rands = int, e_keys = (\<lambda>_. ERR), e_last_key = None\<rparr>"

lemma random_board_ok: "board_ok g (board_of g (random_cell g rands))"
  by (rule board_of_ok) (simp add: random_cell_def)

theorem life_play_ends_witness:
  "\<exists>n res scr. game_ends globals3 (\<lambda>_. ERR) (alive globals3 (board_of globals3 (random_cell globals3 int))) 1 n res scr \<and>
    play globals3 life_env_example = Inr (None,
      (printw (''Initial generation'' @ [CHR 0x0A]) @
        picture globals3 (alive globals3 (board_of globals3 (random_cell globals3 int)))) # scr)"
proof -
  have first: "first_board globals3 life_env_example (board_of globals3 (\<lambda>i j. DEAD)) =
      Inr (board_of globals3 (random_cell globals3 int))"
    by (simp add: first_board_def randomize_board_cells life_env_example_def)
  have key: "r_key_pressed res = ERR" if "game_ends globals3 (\<lambda>_. ERR) A 1 n res scr" for A n res scr
    using that by (simp add: game_ends_def Let_def)
  from life_play_ends [OF first random_board_ok] obtain n res scr where
    "game_ends globals3 (\<lambda>_. ERR) (alive globals3 (board_of globals3 (random_cell globals3 int))) 1 n res scr"
    "play globals3 life_env_example = Inr (if r_key_pressed res = ERR \<and> e_last_key life_env_example = None then None else Some res,
      (printw (''Initial generation'' @ [CHR 0x0A]) @
        picture globals3 (alive globals3 (board_of globals3 (random_cell globals3 int)))) # scr)"
    by (auto simp: life_env_example_def INT_MAX_def)
  with key show ?thesis by (auto simp: life_env_example_def)
qed

text \<open>
  A board that was written to a file, one line per row, is read back as it was: reading checks the
  number of rows and columns and fills every cell.
\<close>

theorem life_file_roundtrip:
  assumes "board_shape g b" "list_all (row_ok g) b" "0 < NUM_ROWS g" "NUM_COLS g \<le> 998"
    and "length raw = 1000" "board_shape g dest"
  shows "read_file g raw (Some (file_text b)) dest = Inr b"
proof -
  obtain row rows where rows: "b = row # rows" using assms(1,3) by (cases b) (auto simp: board_shape_def)
  let ?buf = "row @ CHR 0x0A # CHR 0x00 # drop (length row + 2) raw"
  have short: "CHR 0x0A \<notin> set row" "length row < BUF_LEN - 1"
    using assms(2,4) by (simp_all add: rows row_ok_def BUF_LEN_def)
  have start: "fgets BUF_LEN raw (file_text b) = (?buf, file_text rows, False)"
    using fgets_line [OF short] by (simp add: rows)
  have len: "int (length (row # rows)) = NUM_ROWS g" using assms(1,3) by (simp add: board_shape_def rows)
  have "length ?buf = 1000" using assms(5) short by (simp add: BUF_LEN_def)
  from read_rows_file [of g row rows ?buf _ dest 0, OF _ assms(4) this refl assms(6)] assms(2) len obtain b' where
    b': "read_rows g ?buf (file_text rows) 0 dest = Inr (NUM_ROWS g, b')" "board_shape g b'"
    "\<forall>k l. in_board g k l \<longrightarrow> cell b' k l = (if int 0 \<le> k \<and> k < NUM_ROWS g then ((row # rows) ! nat (k - int 0)) ! nat l else cell dest k l)"
    unfolding rows by auto
  have "b' = b" using b'(3) by (intro board_ext [OF b'(2) assms(1)]) (simp add: in_board_def cell_def rows)
  then show ?thesis using b'(1) by (simp add: read_file_def start)
qed

theorem life_file_roundtrip_witness:
  "read_file globals3 (replicate 1000 CHR ''?'') (Some (''...'' @ [CHR 0x0A] @ ''XXX'' @ [CHR 0x0A] @ ''...'' @ [CHR 0x0A]))
     [''???'', ''???'', ''???''] = Inr blinker"
  using life_file_roundtrip [of globals3 blinker "replicate 1000 CHR ''?''" "[''???'', ''???'', ''???'']"]
  by (simp add: blinker_def row_ok_def board_shape_def)

text \<open>
  A file with more rows than the board makes the reader write past the last row: the number of rows
  is compared only when the whole file has been stored.
\<close>

theorem life_file_overruns_board:
  assumes "list_all (row_ok g) rows" "NUM_ROWS g < int (length rows)" "0 \<le> NUM_ROWS g"
    and "0 < NUM_COLS g" "NUM_COLS g \<le> 998" "length raw = 1000" "board_shape g dest"
  shows "read_file g raw (Some (file_text rows)) dest = Inl OutOfBounds"
proof -
  obtain row rest where rows: "rows = row # rest" using assms(2,3) by (cases rows) auto
  let ?buf = "row @ CHR 0x0A # CHR 0x00 # drop (length row + 2) raw"
  have short: "CHR 0x0A \<notin> set row" "length row < BUF_LEN - 1"
    using assms(1,5) by (simp_all add: rows row_ok_def BUF_LEN_def)
  have start: "fgets BUF_LEN raw (file_text rows) = (?buf, file_text rest, False)"
    using fgets_line [OF short] by (simp add: rows)
  have "length ?buf = 1000" using assms(6) short by (simp add: BUF_LEN_def)
  then have "read_rows g ?buf (file_text rest) 0 dest = Inl OutOfBounds"
    using assms by (intro read_rows_too_many) (simp_all add: rows)
  then show ?thesis by (simp add: read_file_def start)
qed

theorem life_file_overruns_board_witness:
  "read_file globals3 (replicate 1000 CHR ''?'')
     (Some (''...'' @ [CHR 0x0A] @ ''XXX'' @ [CHR 0x0A] @ ''...'' @ [CHR 0x0A] @ ''XXX'' @ [CHR 0x0A]))
     blinker = Inl OutOfBounds"
  using life_file_overruns_board [of globals3 "[''...'', ''XXX'', ''...'', ''XXX'']" "replicate 1000 CHR ''?''" blinker]
  by (simp add: blinker_def row_ok_def board_shape_def)

text \<open>
  C40: \<open>set_cell\<close> checks its coordinates: inside the board it writes that cell and no other, and it ends
  the program for a row outside or a column below zero or beyond the one after the last; for exactly that
  column it writes past the end of the row.
\<close>

theorem life_set_cell_bounds:
  assumes "board_shape g b"
  shows "set_cell g b c i j =
    (if in_board g i j then Inr (put_cell b i j c)
     else if 0 \<le> i \<and> i < NUM_ROWS g \<and> 0 \<le> j \<and> j = NUM_COLS g then Inl OutOfBounds
     else Inl (Exits 1))"
proof -
  have "cell_set b i j c = Inl OutOfBounds" if "0 \<le> i" "i < NUM_ROWS g" "0 \<le> j" "j = NUM_COLS g"
  proof -
    have "i < int (length b)" using assms that by (simp add: board_shape_def)
    moreover from this that have "b ! nat i \<in> set b" by (intro nth_mem) linarith
    then have "int (length (b ! nat i)) = NUM_COLS g"
      using assms that by (auto simp: board_shape_def)
    ultimately show ?thesis using that by (simp add: cell_set_def ivec_set_def)
  qed
  then show ?thesis using cell_set_in [OF assms] by (auto simp: set_cell_def in_board_def)
qed

theorem life_set_cell_bounds_witness:
  "set_cell globals3 blinker ALIVE 1 3 = Inl OutOfBounds"
  using life_set_cell_bounds [of globals3 blinker ALIVE 1 3] by (simp add: in_board_def board_shape_def blinker_def)

text \<open>
  C38: What the operations that fill a board leave in it, cell by cell, for any board of the right size whatever
  it held: allocation gives a dead board, clearing the given character everywhere, copying the source,
  inverting the opposite of every cell, and random filling a live cell exactly where \<open>rand\<close>, called once
  per cell along the rows, was even.
\<close>

theorem life_board_operations:
  assumes "board_shape g b" "board_shape g dest"
  shows "allocate_board g raw = Inr (board_of g (\<lambda>i j. DEAD)) \<and>
    clear_board g b c = Inr (board_of g (\<lambda>i j. c)) \<and>
    copy_board g b dest = Inr b \<and>
    invert_board g b = Inr (board_of g (\<lambda>i j. if cell b i j = ALIVE then DEAD else ALIVE)) \<and>
    randomize_board g rands b =
      Inr (board_of g (\<lambda>i j. if rands (nat (i * NUM_COLS g + j)) mod 2 = 0 then ALIVE else DEAD))"
  using allocate_board_dead clear_board_all [OF assms(1)] copy_board_same [OF assms] invert_board_cells [OF assms(1)]
    randomize_board_cells [OF assms(1)]
  unfolding random_cell_def by blast

lemma upto3: "[0..2] = [0, 1, 2 :: int]"
  by (simp add: upto.simps)

theorem life_board_operations_witness:
  "invert_board globals3 blinker = Inr [''XXX'', ''...'', ''XXX''] \<and>
   copy_board globals3 blinker [''abc'', ''def'', ''ghi''] = Inr blinker \<and>
   randomize_board globals3 int blinker = Inr [''X.X'', ''.X.'', ''X.X'']"
proof -
  have "board_shape globals3 blinker" "board_shape globals3 [''abc'', ''def'', ''ghi'']"
    using blinker_ok by (simp_all add: board_ok_def board_shape_def)
  from life_board_operations [OF this, of "\<lambda>_ _. ALIVE" ALIVE int] show ?thesis
    by (simp add: board_of_def upto3 cell_def blinker_def ALIVE_def DEAD_def)
qed

end
