(* ===== verification/Sha1.thy ===== *)
theory Sha1
  imports Sha256
begin

text \<open>
  SHA-1 as in \<^verbatim>\<open>pmud/src/common/hash-library/sha1.cpp\<close>: the mixing functions, the five
  unrolled lines that each round repeats four times with the variables rotating through their
  places, and the streaming interface. The digest is proved equal to the definition of FIPS 180-4,
  which takes 80 uniform steps.
\<close>

unbundle bit_operations_syntax

section \<open>Mixing\<close>

definition sha1_f1 :: "u32 \<Rightarrow> u32 \<Rightarrow> u32 \<Rightarrow> u32" where
  "sha1_f1 b c d = d XOR (b AND (c XOR d))"

definition sha1_f2 :: "u32 \<Rightarrow> u32 \<Rightarrow> u32 \<Rightarrow> u32" where
  "sha1_f2 b c d = b XOR c XOR d"

definition sha1_f3 :: "u32 \<Rightarrow> u32 \<Rightarrow> u32 \<Rightarrow> u32" where
  "sha1_f3 b c d = (b AND c) OR (b AND d) OR (c AND d)"

type_synonym sha1_regs = "u32 \<times> u32 \<times> u32 \<times> u32 \<times> u32"

text \<open>
  One line of a round, \<open>e += rotate(a,5) + f(b,c,d) + w + k; b = rotate(b,30)\<close>: the new values of
  the variables that stand in the places of \<open>e\<close> and \<open>b\<close>.
\<close>

definition sha1_line ::
  "(u32 \<Rightarrow> u32 \<Rightarrow> u32 \<Rightarrow> u32) \<Rightarrow> u32 \<Rightarrow> u32 \<Rightarrow> u32 \<Rightarrow> u32 \<Rightarrow> u32 \<Rightarrow> u32 \<Rightarrow> u32 \<Rightarrow> u32 \<times> u32" where
  "sha1_line f k a b c d e w = (e + (rotate_left32 a 5 + f b c d + w + k), rotate_left32 b 30)"

text \<open>The body of a round's loop, with \<open>offset = 5*i\<close>.\<close>

definition sha1_lines5 ::
  "(u32 \<Rightarrow> u32 \<Rightarrow> u32 \<Rightarrow> u32) \<Rightarrow> u32 \<Rightarrow> u32 list \<Rightarrow> nat \<Rightarrow> sha1_regs \<Rightarrow> sha1_regs" where
  "sha1_lines5 f k words i = (\<lambda>(a, b, c, d, e).
     let offset = 5 * i;
         (e, b) = sha1_line f k a b c d e (words ! offset);
         (d, a) = sha1_line f k e a b c d (words ! (offset + 1));
         (c, e) = sha1_line f k d e a b c (words ! (offset + 2));
         (b, d) = sha1_line f k c d e a b (words ! (offset + 3));
         (a, c) = sha1_line f k b c d e a (words ! (offset + 4))
     in (a, b, c, d, e))"

definition sha1_round ::
  "(u32 \<Rightarrow> u32 \<Rightarrow> u32 \<Rightarrow> u32) \<Rightarrow> u32 \<Rightarrow> nat \<Rightarrow> nat \<Rightarrow> u32 list \<Rightarrow> sha1_regs \<Rightarrow> sha1_regs" where
  "sha1_round f k lo hi words = fold (sha1_lines5 f k words) [lo..<hi]"

definition sha1_extend :: "u32 list \<Rightarrow> u32 list" where
  "sha1_extend words =
     (let i = length words in
      words @ [rotate_left32
        (words ! (i - 3) XOR words ! (i - 8) XOR words ! (i - 14) XOR words ! (i - 16)) 1])"

definition sha1_processBlock :: "u32 list \<Rightarrow> byte list \<Rightarrow> u32 list" where
  "sha1_processBlock m_hash dat =
     (let regs = (m_hash ! 0, m_hash ! 1, m_hash ! 2, m_hash ! 3, m_hash ! 4);
          words = map (\<lambda>i. swap32 (load_le32 dat i)) [0..<16];
          words = (sha1_extend ^^ (80 - 16)) words;
          regs = sha1_round sha1_f1 0x5a827999 0 4 words regs;
          regs = sha1_round sha1_f2 0x6ed9eba1 4 8 words regs;
          regs = sha1_round sha1_f3 0x8f1bbcdc 8 12 words regs;
          regs = sha1_round sha1_f2 0xca62c1d6 12 16 words regs;
          (a, b, c, d, e) = regs
      in [m_hash ! 0 + a, m_hash ! 1 + b, m_hash ! 2 + c, m_hash ! 3 + d, m_hash ! 4 + e])"

section \<open>The digest object\<close>

definition sha1_init :: "u32 list" where
  "sha1_init = [0x67452301, 0xefcdab89, 0x98badcfe, 0x10325476, 0xc3d2e1f0]"

text \<open>The members of a SHA1 object: counter, fill of the buffer, buffer, five registers.\<close>

type_synonym sha1_object = "u32 list hasher"

definition sha1_reset :: "sha1_object \<Rightarrow> sha1_object" where
  "sha1_reset h = h\<lparr>hs_numBytes := 0, hs_bufferSize := 0, hs_hash := sha1_init\<rparr>"

definition sha1_new :: "byte list \<Rightarrow> sha1_object" where
  "sha1_new raw =
     sha1_reset \<lparr>hs_numBytes = 0, hs_bufferSize = 0, hs_buffer = raw, hs_hash = []\<rparr>"

definition sha1_add :: "sha1_object \<Rightarrow> byte list \<Rightarrow> sha1_object" where
  "sha1_add = hasher_add 64 sha1_processBlock"

definition sha1_processBuffer :: "byte list \<Rightarrow> sha1_object \<Rightarrow> sha1_object" where
  "sha1_processBuffer = process_buffer sha1_processBlock be_bytes64"

definition sha1_raw :: "u32 list \<Rightarrow> byte list" where
  "sha1_raw m_hash = concat (map be_bytes32 m_hash)"

definition sha1_getHash_bytes ::
  "byte list \<Rightarrow> sha1_object \<Rightarrow> byte list \<times> sha1_object" where
  "sha1_getHash_bytes = get_hash sha1_processBlock be_bytes64 sha1_raw"

definition sha1_getHash :: "byte list \<Rightarrow> sha1_object \<Rightarrow> string \<times> sha1_object" where
  "sha1_getHash junk h =
     (let (rawHash, h') = sha1_getHash_bytes junk h in (hex_string rawHash, h'))"

definition sha1_call :: "byte list \<Rightarrow> sha1_object \<Rightarrow> byte list \<Rightarrow> string \<times> sha1_object" where
  "sha1_call junk h dat = sha1_getHash junk (sha1_add (sha1_reset h) dat)"

definition sha1_call_text :: "byte list \<Rightarrow> sha1_object \<Rightarrow> string \<Rightarrow> string \<times> sha1_object" where
  "sha1_call_text junk h txt = sha1_getHash junk (sha1_add (sha1_reset h) (map byte_of_char txt))"

section \<open>FIPS 180-4\<close>

definition Parity :: "u32 \<Rightarrow> u32 \<Rightarrow> u32 \<Rightarrow> u32" where
  "Parity x y z = x XOR y XOR z"

definition fips1_f :: "nat \<Rightarrow> u32 \<Rightarrow> u32 \<Rightarrow> u32 \<Rightarrow> u32" where
  "fips1_f t = (if t < 20 then Ch else if t < 40 then Parity else if t < 60 then Maj else Parity)"

definition fips1_K :: "nat \<Rightarrow> u32" where
  "fips1_K t = (if t < 20 then 0x5a827999 else if t < 40 then 0x6ed9eba1
                else if t < 60 then 0x8f1bbcdc else 0xca62c1d6)"

definition fips1_step :: "u32 list \<Rightarrow> nat \<Rightarrow> sha1_regs \<Rightarrow> sha1_regs" where
  "fips1_step W t = (\<lambda>(a, b, c, d, e).
     let T = word_rotl 5 a + fips1_f t b c d + e + fips1_K t + W ! t
     in (T, a, word_rotl 30 b, c, d))"

definition fips1_next :: "u32 list \<Rightarrow> u32" where
  "fips1_next W = (let t = length W in
     word_rotl 1 (W ! (t - 3) XOR W ! (t - 8) XOR W ! (t - 14) XOR W ! (t - 16)))"

definition fips1_schedule :: "byte list \<Rightarrow> u32 list" where
  "fips1_schedule block =
     ((\<lambda>W. W @ [fips1_next W]) ^^ 64)
       (map (\<lambda>i. be_word32 [block ! (4 * i), block ! (4 * i + 1), block ! (4 * i + 2), block ! (4 * i + 3)])
         [0..<16])"

definition fips1_compress :: "u32 list \<Rightarrow> byte list \<Rightarrow> u32 list" where
  "fips1_compress H block =
     (let (a, b, c, d, e) =
            fold (fips1_step (fips1_schedule block)) [0..<80] (H ! 0, H ! 1, H ! 2, H ! 3, H ! 4)
      in map2 (+) H [a, b, c, d, e])"

definition fips_sha1 :: "byte list \<Rightarrow> byte list" where
  "fips_sha1 M = sha1_raw (absorb 64 fips1_compress sha1_init (M @ md_pad be_bytes64 M))"

section \<open>The compression function computes FIPS 180-4\<close>

lemma sha1_f1_eq: "sha1_f1 = Ch"
  by (intro ext, rule bit_word_eqI) (auto simp: sha1_f1_def Ch_def bit_simps)

lemma sha1_f2_eq: "sha1_f2 = Parity"
  by (intro ext) (simp add: sha1_f2_def Parity_def)

lemma sha1_f3_eq: "sha1_f3 = Maj"
  by (intro ext, rule bit_word_eqI) (auto simp: sha1_f3_def Maj_def bit_simps)

lemma fips1_step_line:
  "fips1_step W t (a, b, c, d, e) =
   (case sha1_line (fips1_f t) (fips1_K t) a b c d e (W ! t) of (e', b') \<Rightarrow> (e', a, b', c, d))"
  by (simp add: fips1_step_def sha1_line_def rotate_left32_rotl Let_def ac_simps)

text \<open>Five lines are five steps, and a round's loop is its twenty steps.\<close>

lemma sha1_lines5_steps:
  assumes "\<And>t. t \<in> {5 * i..<5 * i + 5} \<Longrightarrow> fips1_f t = f \<and> fips1_K t = k"
  shows "sha1_lines5 f k W i regs = fold (fips1_step W) [5 * i..<5 * i + 5] regs"
proof -
  have "fips1_f (5 * i + j) = f \<and> fips1_K (5 * i + j) = k" if "j < 5" for j
    using that by (intro assms) simp
  from this [of 0] this [of 1] this [of 2] this [of 3] this [of 4]
  have steps: "fips1_f (5 * i) = f" "fips1_K (5 * i) = k"
    "fips1_f (5 * i + 1) = f" "fips1_K (5 * i + 1) = k" "fips1_f (5 * i + 2) = f" "fips1_K (5 * i + 2) = k"
    "fips1_f (5 * i + 3) = f" "fips1_K (5 * i + 3) = k" "fips1_f (5 * i + 4) = f" "fips1_K (5 * i + 4) = k"
    by simp_all
  have range: "[5 * i..<5 * i + 5] = [5 * i, 5 * i + 1, 5 * i + 2, 5 * i + 3, 5 * i + 4]"
    by (simp add: upt_rec)
  show ?thesis
    by (cases regs) (simp only: range fold.simps comp_apply id_apply sha1_lines5_def prod.case Let_def
        fips1_step_line steps split: prod.split, simp)
qed

lemma sha1_round_steps:
  assumes "lo \<le> hi" "\<And>t. t \<in> {5 * lo..<5 * hi} \<Longrightarrow> fips1_f t = f \<and> fips1_K t = k"
  shows "sha1_round f k lo hi W regs = fold (fips1_step W) [5 * lo..<5 * hi] regs"
  using assms
proof (induction hi rule: dec_induct)
  case base
  then show ?case by (simp add: sha1_round_def)
next
  case (step n)
  have split: "[5 * lo..<5 * Suc n] = [5 * lo..<5 * n] @ [5 * n..<5 * n + 5]"
    using step.hyps upt_add_eq_append [of "5 * lo" "5 * n" 5] by (simp add: add.commute)
  have "sha1_round f k lo (Suc n) W regs = sha1_lines5 f k W n (sha1_round f k lo n W regs)"
    using step.hyps by (simp add: sha1_round_def)
  also have "\<dots> = sha1_lines5 f k W n (fold (fips1_step W) [5 * lo..<5 * n] regs)"
    using step.IH step.prems by simp
  also have "\<dots> = fold (fips1_step W) [5 * n..<5 * n + 5] (fold (fips1_step W) [5 * lo..<5 * n] regs)"
    using step.hyps by (intro sha1_lines5_steps step.prems) simp
  finally show ?case by (simp only: split fold_append comp_apply)
qed

lemma sha1_rounds:
  "sha1_round sha1_f2 0xca62c1d6 12 16 W (sha1_round sha1_f3 0x8f1bbcdc 8 12 W
     (sha1_round sha1_f2 0x6ed9eba1 4 8 W (sha1_round sha1_f1 0x5a827999 0 4 W regs))) =
   fold (fips1_step W) [0..<80] regs"
proof -
  have r: "sha1_round sha1_f1 0x5a827999 0 4 W s = fold (fips1_step W) [0..<20] s"
    "sha1_round sha1_f2 0x6ed9eba1 4 8 W s = fold (fips1_step W) [20..<40] s"
    "sha1_round sha1_f3 0x8f1bbcdc 8 12 W s = fold (fips1_step W) [40..<60] s"
    "sha1_round sha1_f2 0xca62c1d6 12 16 W s = fold (fips1_step W) [60..<80] s" for s
    by (subst sha1_round_steps; simp add: fips1_f_def fips1_K_def sha1_f1_eq sha1_f2_eq sha1_f3_eq)+
  have "[0..<80] = [0..<20] @ [20..<40] @ [40..<60] @ [60..<80::nat]"
    using upt_add_eq_append [of 0 20 60] upt_add_eq_append [of 20 40 40] upt_add_eq_append [of 40 60 20] by simp
  then show ?thesis by (simp only: r fold_append comp_apply)
qed

lemma sha1_extend_eq: "sha1_extend = (\<lambda>W. W @ [fips1_next W])"
  by (intro ext) (simp add: sha1_extend_def fips1_next_def rotate_left32_rotl Let_def)

lemma list_of_length_5:
  assumes "length xs = 5"
  obtains x0 x1 x2 x3 x4 where "xs = [x0, x1, x2, x3, x4]"
  using that list_as_nths [OF assms] by (simp add: upt_rec)

lemma sha1_processBlock_fips_aux:
  assumes "length H = 5"
  shows "sha1_processBlock H block = fips1_compress H block"
proof -
  have "map2 (+) H [a, b, c, d, e] = [H ! 0 + a, H ! 1 + b, H ! 2 + c, H ! 3 + d, H ! 4 + e]" for a b c d e
    by (rule list_of_length_5 [OF assms]) simp
  moreover have "(sha1_extend ^^ (80 - 16)) (map (\<lambda>i. swap32 (load_le32 block i)) [0..<16]) = fips1_schedule block"
    by (simp only: fips1_schedule_def sha1_extend_eq swap32_load_le32) simp
  ultimately show ?thesis
    by (simp only: sha1_processBlock_def fips1_compress_def Let_def sha1_rounds)
qed

section \<open>The digest object as a stream of calls\<close>

lemma length_sha1_processBlock [simp]: "length (sha1_processBlock H b) = 5"
  by (simp add: sha1_processBlock_def Let_def split: prod.split)

lemma absorb_fips1: "length H = 5 \<Longrightarrow> absorb 64 sha1_processBlock H m = absorb 64 fips1_compress H m"
  by (rule absorb_cong [where P = "\<lambda>H. length H = 5"]) (simp_all add: sha1_processBlock_fips_aux [symmetric])

interpretation sha1: md_hash 64 sha1_processBlock be_bytes64 sha1_raw
  by unfold_locales simp_all

abbreviation sha1_holds :: "sha1_object \<Rightarrow> byte list \<Rightarrow> bool" where
  "sha1_holds h m \<equiv> sha1.fed sha1_init h m \<and> length (hs_buffer h) = 64"

lemma fips_sha1_absorb:
  "hex_string (fips_sha1 m) =
   hex_string (sha1_raw (absorb 64 sha1_processBlock sha1_init (m @ md_pad be_bytes64 m)))"
  by (simp add: fips_sha1_def absorb_fips1 sha1_init_def)

interpretation sha1_object: digest_object sha1_add sha1_getHash sha1_holds "\<lambda>m. hex_string (fips_sha1 m)" "\<lambda>junk. length junk = 64"
  unfolding fips_sha1_absorb
  by (rule sha1.md_digest_object) (simp_all add: sha1_add_def sha1_getHash_def sha1_getHash_bytes_def)

lemma sha1_reset_holds: "length (hs_buffer h) = 64 \<Longrightarrow> sha1_holds (sha1_reset h) []"
  by (rule sha1.reset_fed) (simp_all add: sha1_reset_def)

text \<open>Both overloads of \<open>operator()\<close>, on an object in any state.\<close>

lemma sha1_calls_eq:
  assumes "length (hs_buffer h) = 64" "length junk = 64"
  shows "fst (sha1_call junk h dat) = hex_string (fips_sha1 dat)"
    and "fst (sha1_call_text junk h txt) = hex_string (fips_sha1 (map byte_of_char txt))"
  unfolding sha1_call_def sha1_call_text_def
  by (rule sha1_object.one_shot [OF sha1_reset_holds [OF assms(1)] assms(2)])+

lemma sha1_new_holds: "length raw = 64 \<Longrightarrow> sha1_holds (sha1_new raw) []"
  using sha1_reset_holds by (simp add: sha1_new_def)

section \<open>Properties\<close>

text \<open>
  C24: A SHA1 object, fed in any number of pieces and asked for its digest at any time, answers each
  getHash with the FIPS 180-4 digest of exactly the bytes added so far: the loops of five unrolled
  lines with rotating variables take the 80 steps of the standard, and neither the uninitialised
  buffer nor the stack array of processBuffer has any influence.
\<close>

theorem sha1_streaming:
  assumes "length raw = 64" and "list_all stack_ok cs"
  shows "digest_calls sha1_add sha1_getHash (sha1_new raw) cs =
    digest_calls_spec (\<lambda>m. hex_string (fips_sha1 m)) [] cs"
  by (rule sha1_object.calls_eq [OF sha1_new_holds [OF assms(1)] assms(2)])

theorem sha1_streaming_witness:
  "digest_calls sha1_add sha1_getHash (sha1_new (replicate 64 7))
     [Add [1, 2], Get (replicate 64 9), Add [3], Get (replicate 64 5)] =
   [hex_string (fips_sha1 [1, 2]), hex_string (fips_sha1 [1, 2, 3])]"
  using sha1_streaming [of "replicate 64 7" "[Add [1, 2], Get (replicate 64 9), Add [3], Get (replicate 64 5)]"]
  by simp

end
