(* ===== verification/Md5.thy ===== *)
theory Md5
  imports Sha1
begin

text \<open>
  MD5 as in \<^verbatim>\<open>pmud/src/common/hash-library/md5.cpp\<close>: the mixing functions in the form that saves
  an operation, the 64 unrolled lines as four rounds of four groups of lines with the variables
  rotating through their places, and the streaming interface with the little-endian message length
  and output. The digest is proved equal to the definition of RFC 1321, in which step \<open>t\<close> reads the
  word of an index computed from \<open>t\<close>.
\<close>

unbundle bit_operations_syntax

section \<open>Mixing\<close>

definition md5_f1 :: "u32 \<Rightarrow> u32 \<Rightarrow> u32 \<Rightarrow> u32" where
  "md5_f1 b c d = d XOR (b AND (c XOR d))"

definition md5_f2 :: "u32 \<Rightarrow> u32 \<Rightarrow> u32 \<Rightarrow> u32" where
  "md5_f2 b c d = c XOR (d AND (b XOR c))"

definition md5_f3 :: "u32 \<Rightarrow> u32 \<Rightarrow> u32 \<Rightarrow> u32" where
  "md5_f3 b c d = b XOR c XOR d"

definition md5_f4 :: "u32 \<Rightarrow> u32 \<Rightarrow> u32 \<Rightarrow> u32" where
  "md5_f4 b c d = c XOR (b OR NOT d)"

type_synonym md5_regs = "u32 \<times> u32 \<times> u32 \<times> u32"
type_synonym md5_mix = "u32 \<Rightarrow> u32 \<Rightarrow> u32 \<Rightarrow> u32"

text \<open>
  One line, \<open>a = rotate(a + f(b,c,d) + word + k, s) + b\<close>; a row of a table below is the word index
  and the constant of a line.
\<close>

definition md5_line ::
  "md5_mix \<Rightarrow> u32 list \<Rightarrow> u32 \<Rightarrow> u32 \<Rightarrow> u32 \<Rightarrow> u32 \<Rightarrow> nat \<times> u32 \<Rightarrow> nat \<Rightarrow> u32" where
  "md5_line f words a b c d row s =
     rotate_left32 (a + f b c d + words ! fst row + snd row) s + b"

text \<open>The four lines of a group, for \<open>a\<close>, \<open>d\<close>, \<open>c\<close> and \<open>b\<close> in turn, and the groups of a round.\<close>

definition md5_lines4 ::
  "md5_mix \<Rightarrow> nat \<times> nat \<times> nat \<times> nat \<Rightarrow> u32 list \<Rightarrow> nat \<times> u32 \<Rightarrow> nat \<times> u32 \<Rightarrow> nat \<times> u32 \<Rightarrow> nat \<times> u32 \<Rightarrow>
   md5_regs \<Rightarrow> md5_regs" where
  "md5_lines4 f = (\<lambda>(s0, s1, s2, s3) words r0 r1 r2 r3 (a, b, c, d).
     let a = md5_line f words a b c d r0 s0;
         d = md5_line f words d a b c r1 s1;
         c = md5_line f words c d a b r2 s2;
         b = md5_line f words b c d a r3 s3
     in (a, b, c, d))"

fun md5_round ::
  "md5_mix \<Rightarrow> nat \<times> nat \<times> nat \<times> nat \<Rightarrow> u32 list \<Rightarrow> (nat \<times> u32) list \<Rightarrow> md5_regs \<Rightarrow> md5_regs" where
  "md5_round f shifts words (r0 # r1 # r2 # r3 # rows) regs =
     md5_round f shifts words rows (md5_lines4 f shifts words r0 r1 r2 r3 regs)"
| "md5_round f shifts words rows regs = regs"

text \<open>The word indices and constants of the lines of each round.\<close>

definition md5_rows1 :: "(nat \<times> u32) list" where
  "md5_rows1 =
     [(0, 0xd76aa478), (1, 0xe8c7b756), (2, 0x242070db), (3, 0xc1bdceee)] @
     [(4, 0xf57c0faf), (5, 0x4787c62a), (6, 0xa8304613), (7, 0xfd469501)] @
     [(8, 0x698098d8), (9, 0x8b44f7af), (10, 0xffff5bb1), (11, 0x895cd7be)] @
     [(12, 0x6b901122), (13, 0xfd987193), (14, 0xa679438e), (15, 0x49b40821)]"

definition md5_rows2 :: "(nat \<times> u32) list" where
  "md5_rows2 =
     [(1, 0xf61e2562), (6, 0xc040b340), (11, 0x265e5a51), (0, 0xe9b6c7aa)] @
     [(5, 0xd62f105d), (10, 0x02441453), (15, 0xd8a1e681), (4, 0xe7d3fbc8)] @
     [(9, 0x21e1cde6), (14, 0xc33707d6), (3, 0xf4d50d87), (8, 0x455a14ed)] @
     [(13, 0xa9e3e905), (2, 0xfcefa3f8), (7, 0x676f02d9), (12, 0x8d2a4c8a)]"

definition md5_rows3 :: "(nat \<times> u32) list" where
  "md5_rows3 =
     [(5, 0xfffa3942), (8, 0x8771f681), (11, 0x6d9d6122), (14, 0xfde5380c)] @
     [(1, 0xa4beea44), (4, 0x4bdecfa9), (7, 0xf6bb4b60), (10, 0xbebfbc70)] @
     [(13, 0x289b7ec6), (0, 0xeaa127fa), (3, 0xd4ef3085), (6, 0x04881d05)] @
     [(9, 0xd9d4d039), (12, 0xe6db99e5), (15, 0x1fa27cf8), (2, 0xc4ac5665)]"

definition md5_rows4 :: "(nat \<times> u32) list" where
  "md5_rows4 =
     [(0, 0xf4292244), (7, 0x432aff97), (14, 0xab9423a7), (5, 0xfc93a039)] @
     [(12, 0x655b59c3), (3, 0x8f0ccc92), (10, 0xffeff47d), (1, 0x85845dd1)] @
     [(8, 0x6fa87e4f), (15, 0xfe2ce6e0), (6, 0xa3014314), (13, 0x4e0811a1)] @
     [(4, 0xf7537e82), (11, 0xbd3af235), (2, 0x2ad7d2bb), (9, 0xeb86d391)]"

definition md5_processBlock :: "u32 list \<Rightarrow> byte list \<Rightarrow> u32 list" where
  "md5_processBlock m_hash dat =
     (let regs = (m_hash ! 0, m_hash ! 1, m_hash ! 2, m_hash ! 3);
          words = map (load_le32 dat) [0..<16];
          regs = md5_round md5_f1 (7, 12, 17, 22) words md5_rows1 regs;
          regs = md5_round md5_f2 (5, 9, 14, 20) words md5_rows2 regs;
          regs = md5_round md5_f3 (4, 11, 16, 23) words md5_rows3 regs;
          regs = md5_round md5_f4 (6, 10, 15, 21) words md5_rows4 regs;
          (a, b, c, d) = regs
      in [m_hash ! 0 + a, m_hash ! 1 + b, m_hash ! 2 + c, m_hash ! 3 + d])"

section \<open>The digest object\<close>

definition md5_init :: "u32 list" where
  "md5_init = [0x67452301, 0xefcdab89, 0x98badcfe, 0x10325476]"

text \<open>The members of an MD5 object: counter, fill of the buffer, buffer, four registers.\<close>

type_synonym md5_object = "u32 list hasher"

definition md5_reset :: "md5_object \<Rightarrow> md5_object" where
  "md5_reset h = h\<lparr>hs_numBytes := 0, hs_bufferSize := 0, hs_hash := md5_init\<rparr>"

definition md5_new :: "byte list \<Rightarrow> md5_object" where
  "md5_new raw =
     md5_reset \<lparr>hs_numBytes = 0, hs_bufferSize = 0, hs_buffer = raw, hs_hash = []\<rparr>"

definition md5_add :: "md5_object \<Rightarrow> byte list \<Rightarrow> md5_object" where
  "md5_add = hasher_add 64 md5_processBlock"

definition md5_processBuffer :: "byte list \<Rightarrow> md5_object \<Rightarrow> md5_object" where
  "md5_processBuffer = process_buffer md5_processBlock le_bytes64"

definition le_bytes32 :: "u32 \<Rightarrow> byte list" where
  "le_bytes32 w =
     [ucast (w AND 0xFF), ucast (drop_bit 8 w AND 0xFF),
      ucast (drop_bit 16 w AND 0xFF), ucast (drop_bit 24 w AND 0xFF)]"

definition md5_raw :: "u32 list \<Rightarrow> byte list" where
  "md5_raw m_hash = concat (map le_bytes32 m_hash)"

definition md5_getHash_bytes ::
  "byte list \<Rightarrow> md5_object \<Rightarrow> byte list \<times> md5_object" where
  "md5_getHash_bytes = get_hash md5_processBlock le_bytes64 md5_raw"

definition md5_getHash :: "byte list \<Rightarrow> md5_object \<Rightarrow> string \<times> md5_object" where
  "md5_getHash junk h =
     (let (rawHash, h') = md5_getHash_bytes junk h in (hex_string rawHash, h'))"

definition md5_call :: "byte list \<Rightarrow> md5_object \<Rightarrow> byte list \<Rightarrow> string \<times> md5_object" where
  "md5_call junk h dat = md5_getHash junk (md5_add (md5_reset h) dat)"

definition md5_call_text :: "byte list \<Rightarrow> md5_object \<Rightarrow> string \<Rightarrow> string \<times> md5_object" where
  "md5_call_text junk h txt = md5_getHash junk (md5_add (md5_reset h) (map byte_of_char txt))"

section \<open>RFC 1321\<close>

text \<open>A word is decoded from four bytes, the low-order byte first.\<close>

definition le_word32 :: "byte list \<Rightarrow> u32" where
  "le_word32 bs = be_word32 (rev bs)"

definition rfc_F :: "u32 \<Rightarrow> u32 \<Rightarrow> u32 \<Rightarrow> u32" where "rfc_F x y z = (x AND y) OR (NOT x AND z)"
definition rfc_G :: "u32 \<Rightarrow> u32 \<Rightarrow> u32 \<Rightarrow> u32" where "rfc_G x y z = (x AND z) OR (y AND NOT z)"
definition rfc_H :: "u32 \<Rightarrow> u32 \<Rightarrow> u32 \<Rightarrow> u32" where "rfc_H x y z = x XOR y XOR z"
definition rfc_I :: "u32 \<Rightarrow> u32 \<Rightarrow> u32 \<Rightarrow> u32" where "rfc_I x y z = y XOR (x OR NOT z)"

text \<open>The sine table of section 3.4: the integer part of 4294967296 times \<open>abs(sin(t + 1))\<close>.\<close>

definition rfc_T :: "u32 list" where
  "rfc_T =
     [0xd76aa478, 0xe8c7b756, 0x242070db, 0xc1bdceee, 0xf57c0faf, 0x4787c62a, 0xa8304613, 0xfd469501] @
     [0x698098d8, 0x8b44f7af, 0xffff5bb1, 0x895cd7be, 0x6b901122, 0xfd987193, 0xa679438e, 0x49b40821] @
     [0xf61e2562, 0xc040b340, 0x265e5a51, 0xe9b6c7aa, 0xd62f105d, 0x02441453, 0xd8a1e681, 0xe7d3fbc8] @
     [0x21e1cde6, 0xc33707d6, 0xf4d50d87, 0x455a14ed, 0xa9e3e905, 0xfcefa3f8, 0x676f02d9, 0x8d2a4c8a] @
     [0xfffa3942, 0x8771f681, 0x6d9d6122, 0xfde5380c, 0xa4beea44, 0x4bdecfa9, 0xf6bb4b60, 0xbebfbc70] @
     [0x289b7ec6, 0xeaa127fa, 0xd4ef3085, 0x04881d05, 0xd9d4d039, 0xe6db99e5, 0x1fa27cf8, 0xc4ac5665] @
     [0xf4292244, 0x432aff97, 0xab9423a7, 0xfc93a039, 0x655b59c3, 0x8f0ccc92, 0xffeff47d, 0x85845dd1] @
     [0x6fa87e4f, 0xfe2ce6e0, 0xa3014314, 0x4e0811a1, 0xf7537e82, 0xbd3af235, 0x2ad7d2bb, 0xeb86d391]"

definition rfc_mix :: "nat \<Rightarrow> md5_mix" where
  "rfc_mix t = [rfc_F, rfc_G, rfc_H, rfc_I] ! (t div 16)"

definition rfc_index :: "nat \<Rightarrow> nat" where
  "rfc_index t = [t, 5 * t + 1, 3 * t + 5, 7 * t] ! (t div 16) mod 16"

definition rfc_shift :: "nat \<Rightarrow> nat" where
  "rfc_shift t = [[7, 12, 17, 22], [5, 9, 14, 20], [4, 11, 16, 23], [6, 10, 15, 21]] ! (t div 16) ! (t mod 4)"

definition rfc_op :: "u32 list \<Rightarrow> md5_mix \<times> nat \<times> u32 \<times> nat \<Rightarrow> md5_regs \<Rightarrow> md5_regs" where
  "rfc_op X = (\<lambda>(f, k, T, s) (a, b, c, d). (d, b + word_rotl s (a + f b c d + X ! k + T), b, c))"

definition rfc_step :: "nat \<Rightarrow> md5_mix \<times> nat \<times> u32 \<times> nat" where
  "rfc_step t = (rfc_mix t, rfc_index t, rfc_T ! t, rfc_shift t)"

definition rfc_words :: "byte list \<Rightarrow> u32 list" where
  "rfc_words block =
     map (\<lambda>i. le_word32 [block ! (4 * i), block ! (4 * i + 1), block ! (4 * i + 2), block ! (4 * i + 3)])
       [0..<16]"

definition rfc_compress :: "u32 list \<Rightarrow> byte list \<Rightarrow> u32 list" where
  "rfc_compress H block =
     (let (a, b, c, d) = fold (rfc_op (rfc_words block)) (map rfc_step [0..<64])
            (H ! 0, H ! 1, H ! 2, H ! 3)
      in map2 (+) H [a, b, c, d])"

definition rfc_md5 :: "byte list \<Rightarrow> byte list" where
  "rfc_md5 M = md5_raw (absorb 64 rfc_compress md5_init (M @ md_pad le_bytes64 M))"

section \<open>The compression function computes RFC 1321\<close>

lemma md5_mix_eq: "md5_f1 = rfc_F" "md5_f2 = rfc_G" "md5_f3 = rfc_H" "md5_f4 = rfc_I"
  by ((intro ext, rule bit_word_eqI),
      auto simp: md5_f1_def md5_f2_def md5_f3_def md5_f4_def rfc_F_def rfc_G_def rfc_H_def rfc_I_def bit_simps)+

lemma load_le32_le_word:
  "load_le32 dat i =
   le_word32 [dat ! (4 * i), dat ! (4 * i + 1), dat ! (4 * i + 2), dat ! (4 * i + 3)]"
proof -
  let ?b = "\<lambda>k. ucast (dat ! (4 * i + k)) :: u32"
  have "load_le32 dat i = push_bit 8 (push_bit 8 (push_bit 8 (?b 3) OR ?b 2) OR ?b 1) OR ?b 0"
    by (simp add: load_le32_def push_bit_or ac_simps)
  then show ?thesis
    by (simp add: or_add_byte be_word32_def be_value_def le_word32_def unsigned_ucast_eq)
qed

text \<open>The lines of a round as operations of the RFC.\<close>

fun md5_ops :: "md5_mix \<Rightarrow> nat \<times> nat \<times> nat \<times> nat \<Rightarrow> (nat \<times> u32) list \<Rightarrow> (md5_mix \<times> nat \<times> u32 \<times> nat) list" where
  "md5_ops f (s0, s1, s2, s3) (r0 # r1 # r2 # r3 # rows) =
     (f, fst r0, snd r0, s0) # (f, fst r1, snd r1, s1) # (f, fst r2, snd r2, s2) # (f, fst r3, snd r3, s3) #
     md5_ops f (s0, s1, s2, s3) rows"
| "md5_ops f shifts rows = []"

fun shifts_ok :: "nat \<times> nat \<times> nat \<times> nat \<Rightarrow> bool" where
  "shifts_ok (s0, s1, s2, s3) \<longleftrightarrow> (\<forall>s\<in>{s0, s1, s2, s3}. 0 < s \<and> s < 32)"

lemma md5_round_ops: "shifts_ok shifts \<Longrightarrow> md5_round f shifts W rows regs = fold (rfc_op W) (md5_ops f shifts rows) regs"
proof (induction f shifts W rows regs rule: md5_round.induct)
  case (1 f shifts words r0 r1 r2 r3 rows regs)
  obtain s0 s1 s2 s3 where s: "shifts = (s0, s1, s2, s3)" by (cases shifts)
  obtain a b c d where r: "regs = (a, b, c, d)" by (cases regs)
  from 1 show ?case
    by (simp add: s r md5_lines4_def md5_line_def rfc_op_def rotate_left32_rotl Let_def add.commute)
qed simp_all

lemma rfc_steps:
  "map rfc_step [0..<64] =
   md5_ops rfc_F (7, 12, 17, 22) md5_rows1 @ md5_ops rfc_G (5, 9, 14, 20) md5_rows2 @
   md5_ops rfc_H (4, 11, 16, 23) md5_rows3 @ md5_ops rfc_I (6, 10, 15, 21) md5_rows4"
  by (simp add: upt_rec rfc_step_def rfc_mix_def rfc_index_def rfc_shift_def rfc_T_def
      md5_rows1_def md5_rows2_def md5_rows3_def md5_rows4_def)

lemma list_of_length_4:
  assumes "length xs = 4"
  obtains x0 x1 x2 x3 where "xs = [x0, x1, x2, x3]"
  using that list_as_nths [OF assms] by (simp add: upt_rec)

lemma md5_processBlock_rfc_aux:
  assumes "length H = 4"
  shows "md5_processBlock H block = rfc_compress H block"
proof -
  have "map2 (+) H [a, b, c, d] = [H ! 0 + a, H ! 1 + b, H ! 2 + c, H ! 3 + d]" for a b c d
    by (rule list_of_length_4 [OF assms]) simp
  moreover have "map (load_le32 block) [0..<16] = rfc_words block"
    by (simp add: rfc_words_def load_le32_le_word)
  ultimately show ?thesis
    by (simp add: md5_processBlock_def rfc_compress_def Let_def md5_round_ops rfc_steps md5_mix_eq)
qed

section \<open>The digest object as a stream of calls\<close>

lemma length_md5_processBlock [simp]: "length (md5_processBlock H b) = 4"
  by (simp add: md5_processBlock_def Let_def split: prod.split)

lemma absorb_rfc: "length H = 4 \<Longrightarrow> absorb 64 md5_processBlock H m = absorb 64 rfc_compress H m"
  by (rule absorb_cong [where P = "\<lambda>H. length H = 4"]) (simp_all add: md5_processBlock_rfc_aux [symmetric])

interpretation md5: md_hash 64 md5_processBlock le_bytes64 md5_raw
  by unfold_locales simp_all

abbreviation md5_holds :: "md5_object \<Rightarrow> byte list \<Rightarrow> bool" where
  "md5_holds h m \<equiv> md5.fed md5_init h m \<and> length (hs_buffer h) = 64"

lemma rfc_md5_absorb:
  "hex_string (rfc_md5 m) =
   hex_string (md5_raw (absorb 64 md5_processBlock md5_init (m @ md_pad le_bytes64 m)))"
  by (simp add: rfc_md5_def absorb_rfc md5_init_def)

interpretation md5_object: digest_object md5_add md5_getHash md5_holds "\<lambda>m. hex_string (rfc_md5 m)" "\<lambda>junk. length junk = 64"
  unfolding rfc_md5_absorb
  by (rule md5.md_digest_object) (simp_all add: md5_add_def md5_getHash_def md5_getHash_bytes_def)

lemma md5_reset_holds: "length (hs_buffer h) = 64 \<Longrightarrow> md5_holds (md5_reset h) []"
  by (rule md5.reset_fed) (simp_all add: md5_reset_def)

text \<open>Both overloads of \<open>operator()\<close>, on an object in any state.\<close>

lemma md5_calls_eq:
  assumes "length (hs_buffer h) = 64" "length junk = 64"
  shows "fst (md5_call junk h dat) = hex_string (rfc_md5 dat)"
    and "fst (md5_call_text junk h txt) = hex_string (rfc_md5 (map byte_of_char txt))"
  unfolding md5_call_def md5_call_text_def
  by (rule md5_object.one_shot [OF md5_reset_holds [OF assms(1)] assms(2)])+

lemma md5_new_holds: "length raw = 64 \<Longrightarrow> md5_holds (md5_new raw) []"
  using md5_reset_holds by (simp add: md5_new_def)

section \<open>Properties\<close>

text \<open>
  C26: An MD5 object, fed in any number of pieces and asked for its digest at any time, answers each
  getHash with the RFC 1321 digest of exactly the bytes added so far: the 64 unrolled lines with
  their literal word indices, constants and rotations are the 64 operations of the RFC.
\<close>

theorem md5_streaming:
  assumes "length raw = 64" and "list_all stack_ok cs"
  shows "digest_calls md5_add md5_getHash (md5_new raw) cs =
    digest_calls_spec (\<lambda>m. hex_string (rfc_md5 m)) [] cs"
  by (rule md5_object.calls_eq [OF md5_new_holds [OF assms(1)] assms(2)])

theorem md5_streaming_witness:
  "digest_calls md5_add md5_getHash (md5_new (replicate 64 7))
     [Add [1, 2], Get (replicate 64 9), Add [3], Get (replicate 64 5)] =
   [hex_string (rfc_md5 [1, 2]), hex_string (rfc_md5 [1, 2, 3])]"
  using md5_streaming [of "replicate 64 7" "[Add [1, 2], Get (replicate 64 9), Add [3], Get (replicate 64 5)]"]
  by simp

end
