(* ===== verification/Hmac.thy ===== *)
theory Hmac
  imports Md5
begin

text \<open>
  The template \<open>hmac\<close> of \<^verbatim>\<open>pmud/src/common/hash-library/hmac.h\<close>: what it needs of a hash class as a
  record of operations, the laws as the locale \<open>hash_class\<close>, and the equality with RFC 2104 for every
  class that has them. MD5, SHA-1 and SHA-256 interpret the locale.
\<close>

unbundle bit_operations_syntax

section \<open>The template\<close>

text \<open>
  The members of \<open>HashMethod\<close>: the constructor, over the memory it finds, \<open>add\<close>, both \<open>getHash\<close> and
  the constants.
\<close>

record 's hash_method =
  hm_new :: "byte list \<Rightarrow> 's"
  hm_add :: "'s \<Rightarrow> byte list \<Rightarrow> 's"
  hm_getHash_bytes :: "byte list \<Rightarrow> 's \<Rightarrow> byte list \<times> 's"
  hm_getHash :: "byte list \<Rightarrow> 's \<Rightarrow> string \<times> 's"
  hm_BlockSize :: nat
  hm_HashBytes :: nat

text \<open>
  \<open>mem\<close> and \<open>stack\<close> are the uninitialised memory that the three hashers and their \<open>getHash\<close> calls find.
\<close>

definition hmac ::
  "'s hash_method \<Rightarrow> (nat \<Rightarrow> byte list) \<Rightarrow> (nat \<Rightarrow> byte list) \<Rightarrow> byte list \<Rightarrow> byte list \<Rightarrow> string" where
  "hmac H mem stack dat key =
     (let usedKey = replicate (hm_BlockSize H) 0;
          usedKey =
            (if length key \<le> hm_BlockSize H then write_bytes usedKey 0 key
             else let keyHasher = hm_add H (hm_new H (mem 0)) key
                  in write_bytes usedKey 0 (fst (hm_getHash_bytes H (stack 0) keyHasher)));
          usedKey = map (\<lambda>b. b XOR 0x36) usedKey;
          insideHasher = hm_new H (mem 1);
          insideHasher = hm_add H insideHasher usedKey;
          insideHasher = hm_add H insideHasher dat;
          inside = fst (hm_getHash_bytes H (stack 1) insideHasher);
          usedKey = map (\<lambda>b. b XOR (0x5C XOR 0x36)) usedKey;
          finalHasher = hm_new H (mem 2);
          finalHasher = hm_add H finalHasher usedKey;
          finalHasher = hm_add H finalHasher inside
      in fst (hm_getHash H (stack 2) finalHasher))"

definition hmac_text ::
  "'s hash_method \<Rightarrow> (nat \<Rightarrow> byte list) \<Rightarrow> (nat \<Rightarrow> byte list) \<Rightarrow> string \<Rightarrow> string \<Rightarrow> string" where
  "hmac_text H mem stack dat key = hmac H mem stack (map byte_of_char dat) (map byte_of_char key)"

section \<open>RFC 2104\<close>

definition rfc2104 :: "(byte list \<Rightarrow> byte list) \<Rightarrow> nat \<Rightarrow> byte list \<Rightarrow> byte list \<Rightarrow> byte list" where
  "rfc2104 digest B K text =
     (let K0 = (if length K \<le> B then K else digest K);
          K0 = K0 @ replicate (B - length K0) 0
      in digest (map2 (XOR) K0 (replicate B 0x5c) @ digest (map2 (XOR) K0 (replicate B 0x36) @ text)))"

locale hash_class =
  fixes H :: "'s hash_method"
    and holds_bytes :: "'s \<Rightarrow> byte list \<Rightarrow> bool"
    and digest :: "byte list \<Rightarrow> byte list"
    and mem_ok :: "byte list \<Rightarrow> bool"
    and junk_ok :: "byte list \<Rightarrow> bool"
  assumes new_empty: "mem_ok raw \<Longrightarrow> holds_bytes (hm_new H raw) []"
    and add_bytes: "holds_bytes h m \<Longrightarrow> holds_bytes (hm_add H h d) (m @ d)"
    and bytes_digest: "holds_bytes h m \<Longrightarrow> junk_ok junk \<Longrightarrow> fst (hm_getHash_bytes H junk h) = digest m"
    and text_digest: "holds_bytes h m \<Longrightarrow> junk_ok junk \<Longrightarrow> fst (hm_getHash H junk h) = hex_string (digest m)"
    and length_digest: "length (digest m) \<le> hm_BlockSize H"
begin

lemma two_adds:
  assumes "mem_ok raw"
  shows "holds_bytes (hm_add H (hm_add H (hm_new H raw) d) e) (d @ e)"
  using add_bytes [OF add_bytes [OF new_empty [OF assms], of d], of e] by simp

lemma pad_key: "length k \<le> B \<Longrightarrow> write_bytes (replicate B 0) 0 k = k @ replicate (B - length k) 0"
  by (simp add: write_bytes_eq)

lemma map_xor: "length K = B \<Longrightarrow> map (\<lambda>b. b XOR c) K = map2 (XOR) K (replicate B c)"
  by (rule nth_equalityI) simp_all

lemma hmac_rfc:
  assumes "\<And>i. mem_ok (mem i)" "\<And>i. junk_ok (stack i)"
  shows "hmac H mem stack dat key = hex_string (rfc2104 digest (hm_BlockSize H) key dat)"
proof -
  let ?B = "hm_BlockSize H"
  let ?k = "if length key \<le> ?B then key else digest key"
  let ?K = "?k @ replicate (?B - length ?k) 0"
  have "fst (hm_getHash_bytes H (stack 0) (hm_add H (hm_new H (mem 0)) key)) = digest key"
    using bytes_digest [OF add_bytes [OF new_empty [OF assms(1)]] assms(2)] by simp
  then have used: "(if length key \<le> ?B then write_bytes (replicate ?B 0) 0 key
      else let keyHasher = hm_add H (hm_new H (mem 0)) key
           in write_bytes (replicate ?B 0) 0 (fst (hm_getHash_bytes H (stack 0) keyHasher))) = ?K"
    by (simp add: pad_key length_digest)
  have len: "length ?K = ?B" using length_digest by simp
  have again: "map (\<lambda>b. b XOR (0x5C XOR 0x36)) (map (\<lambda>b. b XOR 0x36) K) = map (\<lambda>b. b XOR 0x5C) K" for K :: "byte list"
    by (simp add: xor.assoc)
  show ?thesis
    unfolding hmac_def rfc2104_def Let_def [of "replicate ?B 0"] used
    by (simp only: Let_def again bytes_digest [OF two_adds [OF assms(1)] assms(2)]
        text_digest [OF two_adds [OF assms(1)] assms(2)] map_xor [OF len])
qed

end

section \<open>The classes\<close>

definition md5_class :: "u32 list hasher hash_method" where
  "md5_class = \<lparr>hm_new = md5_new, hm_add = md5_add, hm_getHash_bytes = md5_getHash_bytes,
     hm_getHash = md5_getHash, hm_BlockSize = BlockSize, hm_HashBytes = 16\<rparr>"

definition sha1_class :: "u32 list hasher hash_method" where
  "sha1_class = \<lparr>hm_new = sha1_new, hm_add = sha1_add, hm_getHash_bytes = sha1_getHash_bytes,
     hm_getHash = sha1_getHash, hm_BlockSize = BlockSize, hm_HashBytes = 20\<rparr>"

definition sha256_class :: "u32 list hasher hash_method" where
  "sha256_class = \<lparr>hm_new = sha256_new, hm_add = sha256_add, hm_getHash_bytes = sha256_getHash_bytes,
     hm_getHash = sha256_getHash, hm_BlockSize = BlockSize, hm_HashBytes = 32\<rparr>"

lemma length_raw: "length (sha256_raw H) = 4 * length H" "length (sha1_raw H) = 4 * length H" "length (md5_raw H) = 4 * length H"
  by (induction H) (simp_all add: sha256_raw_def sha1_raw_def md5_raw_def be_bytes32_def le_bytes32_def)

lemma md5_absorb: "md5_raw (absorb 64 md5_processBlock md5_init m) = md5_raw (absorb 64 rfc_compress md5_init m)"
  by (simp add: absorb_rfc md5_init_def)

lemma length_rfc_md5: "length (rfc_md5 m) = 16"
proof -
  have "length (absorb 64 md5_processBlock md5_init l) = 4" for l
    by (rule length_absorb) (simp_all add: md5_init_def)
  then show ?thesis by (simp add: rfc_md5_def length_raw flip: md5_absorb)
qed

interpretation md5_hmac: hash_class md5_class md5_holds rfc_md5 "\<lambda>raw. length raw = 64" "\<lambda>junk. length junk = 64"
proof (unfold_locales, unfold md5_class_def hash_method.simps)
  fix h m and junk :: "byte list" assume h: "md5_holds h m" and junk: "length junk = 64"
  show "fst (md5_getHash_bytes junk h) = rfc_md5 m"
    using md5.get_hash_bytes [OF h junk] by (simp add: md5_getHash_bytes_def rfc_md5_def md5_absorb)
  show "fst (md5_getHash junk h) = hex_string (rfc_md5 m)"
    by (rule md5_object.get_text [OF h junk])
next
  show "length (rfc_md5 m) \<le> BlockSize" for m by (simp add: BlockSize_def length_rfc_md5)
qed (rule md5_new_holds md5_object.add_bytes; assumption)+

lemma sha1_absorb: "sha1_raw (absorb 64 sha1_processBlock sha1_init m) = sha1_raw (absorb 64 fips1_compress sha1_init m)"
  by (simp add: absorb_fips1 sha1_init_def)

lemma length_fips_sha1: "length (fips_sha1 m) = 20"
proof -
  have "length (absorb 64 sha1_processBlock sha1_init l) = 5" for l
    by (rule length_absorb) (simp_all add: sha1_init_def)
  then show ?thesis by (simp add: fips_sha1_def length_raw flip: sha1_absorb)
qed

interpretation sha1_hmac: hash_class sha1_class sha1_holds fips_sha1 "\<lambda>raw. length raw = 64" "\<lambda>junk. length junk = 64"
proof (unfold_locales, unfold sha1_class_def hash_method.simps)
  fix h m and junk :: "byte list" assume h: "sha1_holds h m" and junk: "length junk = 64"
  show "fst (sha1_getHash_bytes junk h) = fips_sha1 m"
    using sha1.get_hash_bytes [OF h junk] by (simp add: sha1_getHash_bytes_def fips_sha1_def sha1_absorb)
  show "fst (sha1_getHash junk h) = hex_string (fips_sha1 m)"
    by (rule sha1_object.get_text [OF h junk])
next
  show "length (fips_sha1 m) \<le> BlockSize" for m by (simp add: BlockSize_def length_fips_sha1)
qed (rule sha1_new_holds sha1_object.add_bytes; assumption)+

lemma sha256_absorb: "sha256_raw (absorb 64 sha256_processBlock sha256_init m) = sha256_raw (absorb 64 fips_compress sha256_init m)"
  by (simp add: absorb_fips sha256_init_def)

lemma length_fips_sha256: "length (fips_sha256 m) = 32"
proof -
  have "length (absorb 64 sha256_processBlock sha256_init l) = 8" for l
    by (rule length_absorb) (simp_all add: sha256_init_def)
  then show ?thesis by (simp add: fips_sha256_def length_raw flip: sha256_absorb)
qed

interpretation sha256_hmac: hash_class sha256_class sha256_holds fips_sha256 "\<lambda>raw. length raw = 64" "\<lambda>junk. length junk = 64"
proof (unfold_locales, unfold sha256_class_def hash_method.simps)
  fix h m and junk :: "byte list" assume h: "sha256_holds h m" and junk: "length junk = 64"
  show "fst (sha256_getHash_bytes junk h) = fips_sha256 m"
    using sha256.get_hash_bytes [OF h junk] by (simp add: sha256_getHash_bytes_def fips_sha256_def sha256_absorb)
  show "fst (sha256_getHash junk h) = hex_string (fips_sha256 m)"
    by (rule sha256_object.get_text [OF h junk])
next
  show "length (fips_sha256 m) \<le> BlockSize" for m by (simp add: BlockSize_def length_fips_sha256)
qed (rule sha256_new_holds sha256_object.add_bytes; assumption)+

section \<open>Properties\<close>

text \<open>
  C22: hmac computes the message authentication code of RFC 2104, in lower-case hexadecimal, with MD5,
  SHA-1 and SHA-256, for keys shorter and longer than a block and whatever the uninitialised memory of
  its three hashers holds; undoing one exclusive or and applying the next in a single pass is sound.
\<close>

theorem hmac_rfc2104:
  assumes "\<And>i. length (mem i) = 64" "\<And>i. length (stack i) = 64"
  shows "hmac md5_class mem stack dat key = hex_string (rfc2104 rfc_md5 64 key dat) \<and>
    hmac sha1_class mem stack dat key = hex_string (rfc2104 fips_sha1 64 key dat) \<and>
    hmac sha256_class mem stack dat key = hex_string (rfc2104 fips_sha256 64 key dat)"
  using md5_hmac.hmac_rfc [of mem stack dat key] sha1_hmac.hmac_rfc [of mem stack dat key]
    sha256_hmac.hmac_rfc [of mem stack dat key]
  by (simp add: assms md5_class_def sha1_class_def sha256_class_def BlockSize_def)

theorem hmac_rfc2104_witness:
  "hmac sha256_class (\<lambda>i. replicate 64 7) (\<lambda>i. replicate 64 9) [1, 2, 3] [107, 101, 121] =
   hex_string (rfc2104 fips_sha256 64 [107, 101, 121] [1, 2, 3])"
  using hmac_rfc2104 [of "\<lambda>i. replicate 64 7" "\<lambda>i. replicate 64 9"] by simp

end
