(* ===== verification/Keccak.thy ===== *)
theory Keccak
  imports Digest_Stream
begin

text \<open>
  Keccak and SHA-3 as in \<^verbatim>\<open>pmud/src/common/hash-library/keccak.cpp\<close> and \<^verbatim>\<open>sha3.cpp\<close>, which repeat
  each other up to the first byte of the padding: the 24 rounds on 25 lanes that are updated in place,
  the sponge over the buffering scheme of \<open>Block_Hash\<close> with a block size that depends on the variant,
  and the hexadecimal digest with its half lane for 224 bits. The permutation is proved equal to the
  step mappings of FIPS 202 on the lanes \<open>A[x, y]\<close>, whose rotation offsets and round constants are
  computed there instead of listed.
\<close>

unbundle bit_operations_syntax

section \<open>The permutation\<close>

definition rotate_left64 :: "u64 \<Rightarrow> nat \<Rightarrow> u64" where
  "rotate_left64 x numBits = push_bit numBits x OR drop_bit (64 - numBits) x"

definition mod5 :: "nat \<Rightarrow> nat" where
  "mod5 x = (if x < 5 then x else x - 5)"

definition XorMasks :: "u64 list" where
  "XorMasks =
     [0x0000000000000001, 0x0000000000008082, 0x800000000000808a] @
     [0x8000000080008000, 0x000000000000808b, 0x0000000080000001] @
     [0x8000000080008081, 0x8000000000008009, 0x000000000000008a] @
     [0x0000000000000088, 0x0000000080008009, 0x000000008000000a] @
     [0x000000008000808b, 0x800000000000008b, 0x8000000000008089] @
     [0x8000000000008003, 0x8000000000008002, 0x8000000000000080] @
     [0x000000000000800a, 0x800000008000000a, 0x8000000080008081] @
     [0x8000000000008080, 0x0000000080000001, 0x8000000080008008]"

definition xor_lane :: "u64 \<Rightarrow> nat \<Rightarrow> u64 list \<Rightarrow> u64 list" where
  "xor_lane v i m_hash = m_hash[i := m_hash ! i XOR v]"

definition keccak_theta :: "u64 list \<Rightarrow> u64 list" where
  "keccak_theta m_hash =
     (let coefficients = map (\<lambda>i. m_hash ! i XOR m_hash ! (i + 5) XOR m_hash ! (i + 10) XOR
            m_hash ! (i + 15) XOR m_hash ! (i + 20)) [0..<5]
      in fold (\<lambda>i m_hash.
           let one = coefficients ! mod5 (i + 4) XOR rotate_left64 (coefficients ! mod5 (i + 1)) 1
           in xor_lane one (i + 20) (xor_lane one (i + 15) (xor_lane one (i + 10)
                (xor_lane one (i + 5) (xor_lane one i m_hash)))))
         [0..<5] m_hash)"

text \<open>The lines \<open>one = m_hash[i]; m_hash[i] = rotateLeft(last, n); last = one;\<close>, as \<open>(i, n)\<close>.\<close>

definition rho_pi_lines :: "(nat \<times> nat) list" where
  "rho_pi_lines =
     [(10, 1), (7, 3), (11, 6), (17, 10), (18, 15), (3, 21), (5, 28), (16, 36)] @
     [(8, 45), (21, 55), (24, 2), (4, 14), (15, 27), (23, 41), (19, 56), (13, 8)] @
     [(12, 25), (2, 43), (20, 62), (14, 18), (22, 39), (9, 61), (6, 20), (1, 44)]"

definition rho_pi_line :: "nat \<times> nat \<Rightarrow> u64 list \<times> u64 \<Rightarrow> u64 list \<times> u64" where
  "rho_pi_line = (\<lambda>(i, n) (m_hash, last). let one = m_hash ! i in (m_hash[i := rotate_left64 last n], one))"

definition keccak_rho_pi :: "u64 list \<Rightarrow> u64 list" where
  "keccak_rho_pi m_hash = fst (fold rho_pi_line rho_pi_lines (m_hash, m_hash ! 1))"

definition keccak_chi :: "u64 list \<Rightarrow> u64 list" where
  "keccak_chi m_hash = fold (\<lambda>j m_hash.
     let one = m_hash ! j;
         two = m_hash ! (j + 1);
         m_hash = xor_lane (m_hash ! (j + 2) AND NOT two) j m_hash;
         m_hash = xor_lane (m_hash ! (j + 3) AND NOT (m_hash ! (j + 2))) (j + 1) m_hash;
         m_hash = xor_lane (m_hash ! (j + 4) AND NOT (m_hash ! (j + 3))) (j + 2) m_hash;
         m_hash = xor_lane (one AND NOT (m_hash ! (j + 4))) (j + 3) m_hash
     in xor_lane (two AND NOT one) (j + 4) m_hash) [0, 5, 10, 15, 20] m_hash"

definition keccak_round :: "u64 \<Rightarrow> u64 list \<Rightarrow> u64 list" where
  "keccak_round xorMask m_hash = xor_lane xorMask 0 (keccak_chi (keccak_rho_pi (keccak_theta m_hash)))"

text \<open>\<open>((const uint64_t*) data)[i]\<close> on a little-endian host.\<close>

definition load_le64 :: "byte list \<Rightarrow> nat \<Rightarrow> u64" where
  "load_le64 dat i = foldr (\<lambda>k w. push_bit 8 w OR ucast (dat ! (8 * i + k))) [0..<8] 0"

definition keccak_processBlock :: "nat \<Rightarrow> u64 list \<Rightarrow> byte list \<Rightarrow> u64 list" where
  "keccak_processBlock blockSize m_hash dat =
     fold keccak_round XorMasks
       (fold (\<lambda>i m_hash. xor_lane (load_le64 dat i) i m_hash) [0..<blockSize div 8] m_hash)"

section \<open>FIPS 202: the step mappings\<close>

definition lane :: "u64 list \<Rightarrow> nat \<Rightarrow> nat \<Rightarrow> u64" where
  "lane A x y = A ! (x mod 5 + 5 * (y mod 5))"

definition of_lanes :: "(nat \<Rightarrow> nat \<Rightarrow> u64) \<Rightarrow> u64 list" where
  "of_lanes f = map (\<lambda>k. f (k mod 5) (k div 5)) [0..<25]"

definition fips_theta :: "u64 list \<Rightarrow> u64 list" where
  "fips_theta A =
     (let C = (\<lambda>x. lane A x 0 XOR lane A x 1 XOR lane A x 2 XOR lane A x 3 XOR lane A x 4);
          D = (\<lambda>x. C (x + 4) XOR word_rotl 1 (C (x + 1)))
      in of_lanes (\<lambda>x y. lane A x y XOR D x))"

text \<open>The walk \<open>(x, y) := (y, 2x + 3y)\<close> from \<open>(1, 0)\<close>; its step \<open>t\<close> has the offset \<open>(t+1)(t+2)/2\<close>.\<close>

primrec rho_walk :: "nat \<Rightarrow> nat \<times> nat" where
  "rho_walk 0 = (1, 0)"
| "rho_walk (Suc t) = (let (x, y) = rho_walk t in (y, (2 * x + 3 * y) mod 5))"

definition rho_offset :: "nat \<Rightarrow> nat \<Rightarrow> nat" where
  "rho_offset x y =
     (if (x, y) = (0, 0) then 0
      else let t = length (takeWhile (\<lambda>t. rho_walk t \<noteq> (x, y)) [0..<24]) in (t + 1) * (t + 2) div 2)"

definition fips_rho :: "u64 list \<Rightarrow> u64 list" where
  "fips_rho A = of_lanes (\<lambda>x y. word_rotl (rho_offset x y) (lane A x y))"

definition fips_pi :: "u64 list \<Rightarrow> u64 list" where
  "fips_pi A = of_lanes (\<lambda>x y. lane A (x + 3 * y) x)"

definition fips_chi :: "u64 list \<Rightarrow> u64 list" where
  "fips_chi A = of_lanes (\<lambda>x y. lane A x y XOR (NOT (lane A (x + 1) y) AND lane A (x + 2) y))"

text \<open>The round constants: bits of a linear feedback shift register at the positions \<open>2^j - 1\<close>.\<close>

fun lfsr :: "bool list \<Rightarrow> bool list" where
  "lfsr [r0, r1, r2, r3, r4, r5, r6, r7] = [r7, r0, r1, r2, r3 \<noteq> r7, r4 \<noteq> r7, r5 \<noteq> r7, r6]"
| "lfsr R = R"

primrec rc_bits :: "nat \<Rightarrow> bool list \<Rightarrow> bool list" where
  "rc_bits 0 R = []"
| "rc_bits (Suc n) R = hd R # rc_bits n (lfsr R)"

definition rc :: "bool list" where
  "rc = rc_bits 168 [True, False, False, False, False, False, False, False]"

definition fips_RC :: "nat \<Rightarrow> u64" where
  "fips_RC ir = foldr (\<lambda>j w. (if rc ! (j + 7 * ir) then push_bit (2 ^ j - 1) 1 else 0) OR w) [0..<7] 0"

definition fips_iota :: "u64 \<Rightarrow> u64 list \<Rightarrow> u64 list" where
  "fips_iota RC A = of_lanes (\<lambda>x y. if x = 0 \<and> y = 0 then lane A 0 0 XOR RC else lane A x y)"

definition fips_Rnd :: "nat \<Rightarrow> u64 list \<Rightarrow> u64 list" where
  "fips_Rnd ir A = fips_iota (fips_RC ir) (fips_chi (fips_pi (fips_rho (fips_theta A))))"

definition fips_keccak_p :: "u64 list \<Rightarrow> u64 list" where
  "fips_keccak_p A = fold fips_Rnd [0..<24] A"

section \<open>The permutation computes KECCAK-p[1600, 24]\<close>

lemma rotate_left64_rotl: "0 < n \<Longrightarrow> n < 64 \<Longrightarrow> rotate_left64 x n = word_rotl n x"
  using shifts_rotl [of n x] by (simp add: rotate_left64_def)

lemma list_of_length_25:
  assumes "length xs = 25"
  obtains a0 a1 a2 a3 a4 a5 a6 a7 a8 a9 a10 a11 a12 a13 a14 a15 a16 a17 a18 a19 a20 a21 a22 a23 a24
  where "xs = [a0, a1, a2, a3, a4, a5, a6, a7, a8, a9, a10, a11, a12, a13, a14, a15, a16, a17, a18,
    a19, a20, a21, a22, a23, a24]"
  using that list_as_nths [OF assms] by (simp add: upt_rec)

lemma upt_25: "[0..<25] = [0, 1, 2, 3, 4, 5, 6, 7, 8, 9, 10, 11, 12, 13, 14, 15, 16, 17, 18, 19, 20,
    21, 22, 23, 24::nat]"
  by code_simp

lemma keccak_theta_fips:
  assumes "length A = 25"
  shows "keccak_theta A = fips_theta A"
  by (rule list_of_length_25 [OF assms])
     (simp add: keccak_theta_def fips_theta_def of_lanes_def lane_def upt_25 upt_rec xor_lane_def mod5_def
        rotate_left64_rotl Let_def)

lemma length_of_lanes [simp]: "length (of_lanes f) = 25"
  by (simp add: of_lanes_def)

definition rho_offsets :: "nat list" where
  "rho_offsets =
     [0, 1, 62, 28, 27, 36, 44, 6, 55, 20, 3, 10, 43, 25, 39, 41, 45, 15, 21, 8, 18, 2, 61, 56, 14]"

lemma rho_offsets_eq: "rho_offsets = map (\<lambda>k. rho_offset (k mod 5) (k div 5) mod 64) [0..<25]"
  by code_simp

lemma rotl_mod: "word_rotl (n mod 64) v = word_rotl n (v :: u64)"
  by (rule bit_word_eqI) (simp add: bit_simps)

lemma rotl_0 [simp]: "word_rotl 0 v = (v :: u64)"
  by (rule bit_word_eqI) (simp add: bit_simps)

lemma fips_rho_offsets: "fips_rho A = map (\<lambda>k. word_rotl (rho_offsets ! k) (A ! k)) [0..<25]"
  unfolding fips_rho_def of_lanes_def
proof (rule map_cong [OF refl])
  fix k assume "k \<in> set [0..<25]"
  then have k: "k < 25" by simp
  then have "k div 5 mod 5 = k div 5" by (simp add: div_less_iff_less_mult)
  then have "k mod 5 + 5 * (k div 5 mod 5) = k" by simp
  moreover have "word_rotl (rho_offset (k mod 5) (k div 5)) v = word_rotl (rho_offsets ! k) v" for v :: u64
    using k by (simp add: rho_offsets_eq rotl_mod)
  ultimately show "word_rotl (rho_offset (k mod 5) (k div 5)) (lane A (k mod 5) (k div 5)) =
    word_rotl (rho_offsets ! k) (A ! k)"
    by (simp add: lane_def)
qed

lemma keccak_rho_pi_fips:
  assumes "length A = 25"
  shows "keccak_rho_pi A = fips_pi (fips_rho A)"
  by (rule list_of_length_25 [OF assms])
     (simp add: keccak_rho_pi_def rho_pi_lines_def rho_pi_line_def fips_rho_offsets rho_offsets_def fips_pi_def
        of_lanes_def lane_def upt_25 rotate_left64_rotl Let_def)

lemma keccak_chi_fips:
  assumes "length A = 25"
  shows "keccak_chi A = fips_chi A"
  by (rule list_of_length_25 [OF assms])
     (simp add: keccak_chi_def fips_chi_def of_lanes_def lane_def upt_25 xor_lane_def and.commute Let_def)

lemma keccak_iota_fips:
  assumes "length A = 25"
  shows "xor_lane m 0 A = fips_iota m A"
  by (rule list_of_length_25 [OF assms])
     (simp add: fips_iota_def of_lanes_def lane_def upt_25 xor_lane_def)

lemma XorMasks_RC: "XorMasks = map fips_RC [0..<24]"
  by code_simp

lemma length_fips_Rnd [simp]: "length (fips_Rnd ir A) = 25"
  by (simp add: fips_Rnd_def fips_iota_def)

lemma keccak_round_fips: "length A = 25 \<Longrightarrow> keccak_round (fips_RC ir) A = fips_Rnd ir A"
  by (simp add: keccak_round_def fips_Rnd_def keccak_theta_fips keccak_rho_pi_fips keccak_chi_fips
      keccak_iota_fips fips_theta_def fips_pi_def fips_chi_def Let_def)

lemma keccak_rounds_fips: "length A = 25 \<Longrightarrow> fold keccak_round (map fips_RC irs) A = fold fips_Rnd irs A"
  by (induction irs arbitrary: A) (simp_all add: keccak_round_fips)

lemma length_fips_keccak_p [simp]: "length A = 25 \<Longrightarrow> length (fips_keccak_p A) = 25"
  by (simp add: fips_keccak_p_def upt_rec)

lemma keccak_permutation: "length A = 25 \<Longrightarrow> fold keccak_round XorMasks A = fips_keccak_p A"
  by (simp only: XorMasks_RC keccak_rounds_fips fips_keccak_p_def)

section \<open>FIPS 202: the sponge\<close>

text \<open>Bit \<open>z\<close> of a lane is bit \<open>z mod 8\<close> of its byte \<open>z div 8\<close>.\<close>

definition fips_lane :: "byte list \<Rightarrow> nat \<Rightarrow> u64" where
  "fips_lane block k =
     horner_sum of_bool 2 (map (\<lambda>z. bit (block ! (8 * k + z div 8)) (z mod 8)) [0..<64])"

definition fips_absorb :: "nat \<Rightarrow> u64 list \<Rightarrow> byte list \<Rightarrow> u64 list" where
  "fips_absorb r A block =
     fips_keccak_p (map (\<lambda>k. if k < r div 8 then A ! k XOR fips_lane block k else A ! k) [0..<25])"

text \<open>
  The padding \<open>10*1\<close> of a message of bytes, after the suffix of the variant: \<open>sfx\<close> is the byte with
  the suffix and the first one bit.
\<close>

definition fips_pad :: "byte \<Rightarrow> nat \<Rightarrow> byte list \<Rightarrow> byte list" where
  "fips_pad sfx r m =
     (let q = r - length m mod r
      in if q = 1 then [sfx OR 0x80] else sfx # replicate (q - 2) 0 @ [0x80])"

text \<open>The digest of \<open>d\<close> bits with the capacity \<open>2d\<close>.\<close>

definition fips_keccak :: "byte \<Rightarrow> nat \<Rightarrow> byte list \<Rightarrow> byte list" where
  "fips_keccak sfx d M =
     (let r = (1600 - 2 * d) div 8
      in take (d div 8) (concat (map le_bytes64
           (absorb r (fips_absorb r) (replicate 25 0) (M @ fips_pad sfx r M)))))"

lemma bit_load:
  "bit (foldr (\<lambda>k w. push_bit 8 w OR ucast (f k)) [i..<i + m] (0 :: u64)) n \<longleftrightarrow>
   n < 64 \<and> n < 8 * m \<and> bit (f (i + n div 8) :: byte) (n mod 8)"
proof (induction m arbitrary: i n)
  case 0
  then show ?case by simp
next
  case (Suc m)
  let ?w = "\<lambda>i m. foldr (\<lambda>k w. push_bit 8 w OR ucast (f k)) [i..<i + m] (0 :: u64)"
  have range: "[i..<i + Suc m] = i # [Suc i..<Suc i + m]"
    by (subst upt_conv_Cons) simp_all
  have split: "?w i (Suc m) = push_bit 8 (?w (Suc i) m) OR ucast (f i)"
    by (simp only: range foldr.simps comp_apply)
  show ?case
  proof (cases "n < 8")
    case True
    then show ?thesis unfolding split by (simp add: bit_simps del: upt_Suc)
  next
    case False
    then have eqs: "Suc i + (n - 8) div 8 = i + n div 8" "(n - 8) mod 8 = n mod 8"
      by (simp_all add: le_div_geq le_mod_geq)
    have IH: "bit (?w (Suc i) m) (n - 8) \<longleftrightarrow> n - 8 < 64 \<and> n - 8 < 8 * m \<and> bit (f (i + n div 8)) (n mod 8)"
      unfolding Suc.IH eqs ..
    show ?thesis
      unfolding split using False IH by (auto simp: bit_simps not_bit_byte simp del: upt_Suc)
  qed
qed

lemma load_le64_lane: "load_le64 dat k = fips_lane dat k"
proof (rule bit_word_eqI)
  fix n assume "n < LENGTH(64)"
  then have n: "n < 64" by simp
  then show "bit (load_le64 dat k) n = bit (fips_lane dat k) n"
    using bit_load [of "\<lambda>j. dat ! (8 * k + j)" 0 8 n]
    by (simp add: load_le64_def fips_lane_def bit_horner_sum_bit_word_iff)
qed

lemma xor_lanes:
  "n \<le> length A \<Longrightarrow> fold (\<lambda>i. xor_lane (f i) i) [0..<n] A =
   map (\<lambda>k. if k < n then A ! k XOR f k else A ! k) [0..<length A]"
proof (induction n)
  case 0
  then show ?case by (simp add: map_nth)
next
  case (Suc n)
  then show ?case
    by (auto simp: xor_lane_def less_Suc_eq intro!: nth_equalityI)
qed

lemma keccak_processBlock_fips:
  assumes "length A = 25" "r \<le> 200"
  shows "keccak_processBlock r A block = fips_absorb r A block"
proof -
  have "r div 8 \<le> length A" using assms by simp
  from xor_lanes [OF this, of "fips_lane block"] show ?thesis
    by (simp add: keccak_processBlock_def fips_absorb_def keccak_permutation load_le64_lane assms(1))
qed

lemma keccak_processBlock_take:
  assumes "r \<le> length b"
  shows "keccak_processBlock r A (take r b) = keccak_processBlock r A b"
proof -
  have "load_le64 (take r b) i = load_le64 b i" if "i < r div 8" for i
  proof -
    have "take r b ! (8 * i + k) = b ! (8 * i + k)" if "k < 8" for k
      using that \<open>i < r div 8\<close> by (intro nth_take) simp
    then show ?thesis unfolding load_le64_def by (intro foldr_cong) simp_all
  qed
  then have "fold (\<lambda>i. xor_lane (load_le64 (take r b) i) i) [0..<r div 8] A =
      fold (\<lambda>i. xor_lane (load_le64 b i) i) [0..<r div 8] A"
    by (intro fold_cong) simp_all
  then show ?thesis by (simp add: keccak_processBlock_def)
qed

end
