(* ===== verification/Keccak_Digest.thy ===== *)
theory Keccak_Digest
  imports Keccak
begin

text \<open>
  The \<open>Keccak\<close> and \<open>SHA3\<close> objects of \<^verbatim>\<open>pmud/src/common/hash-library/keccak.cpp\<close> and \<^verbatim>\<open>sha3.cpp\<close>:
  variants and block sizes, the padding of the last block, the digest read off the state, and the
  locale \<open>sponge_hash\<close> under which both answer with the digest of all bytes added.
\<close>

unbundle bit_operations_syntax

section \<open>Variants\<close>

datatype keccak_bits = Bits224 | Bits256 | Bits384 | Bits512

fun bits_value :: "keccak_bits \<Rightarrow> nat" where
  "bits_value Bits224 = 224"
| "bits_value Bits256 = 256"
| "bits_value Bits384 = 384"
| "bits_value Bits512 = 512"

definition keccak_blockSize :: "keccak_bits \<Rightarrow> nat" where
  "keccak_blockSize m_bits = 200 - 2 * (bits_value m_bits div 8)"

definition StateSize :: nat where "StateSize = 1600 div (8 * 8)"

definition MaxBlockSize :: nat where "MaxBlockSize = 200 - 2 * (224 div 8)"

section \<open>The digest objects\<close>

text \<open>
  The members of a Keccak object: counter, fill of the buffer, buffer and the 25 lanes. The variant, from
  which the block size follows, never changes and is an argument of the operations.
\<close>

type_synonym keccak_object = "u64 list hasher"

definition keccak_reset :: "keccak_object \<Rightarrow> keccak_object" where
  "keccak_reset h = h\<lparr>hs_hash := replicate StateSize 0, hs_numBytes := 0, hs_bufferSize := 0\<rparr>"

text \<open>The constructor: \<open>raw\<close> is what the memory of \<open>m_buffer\<close> held.\<close>

definition keccak_new :: "byte list \<Rightarrow> keccak_object" where
  "keccak_new raw =
     keccak_reset \<lparr>hs_numBytes = 0, hs_bufferSize = 0, hs_buffer = raw, hs_hash = []\<rparr>"

definition keccak_add :: "keccak_bits \<Rightarrow> keccak_object \<Rightarrow> byte list \<Rightarrow> keccak_object" where
  "keccak_add m_bits = hasher_add (keccak_blockSize m_bits) (keccak_processBlock (keccak_blockSize m_bits))"

definition keccak_processBuffer :: "keccak_bits \<Rightarrow> keccak_object \<Rightarrow> keccak_object" where
  "keccak_processBuffer m_bits h =
     (let blockSize = 200 - 2 * (bits_value m_bits div 8);
          offset = hs_bufferSize h;
          buffer = (hs_buffer h)[offset := 1];
          buffer = zero_range buffer (offset + 1) blockSize;
          buffer = buffer[blockSize - 1 := buffer ! (blockSize - 1) OR 0x80]
      in h\<lparr>hs_buffer := buffer,
           hs_hash := keccak_processBlock (keccak_blockSize m_bits) (hs_hash h) buffer\<rparr>)"

text \<open>\<open>dec2hex[oneByte >> 4]\<close> and \<open>dec2hex[oneByte & 15]\<close>.\<close>

definition hex_oneByte :: "byte \<Rightarrow> string" where
  "hex_oneByte oneByte = [dec2hex ! unat (drop_bit 4 oneByte), dec2hex ! unat (oneByte AND 15)]"

text \<open>\<open>while (processed < remainder)\<close>\<close>

function keccak_rest :: "u64 \<Rightarrow> nat \<Rightarrow> nat \<Rightarrow> string" where
  "keccak_rest word processed remainder =
     (if processed < remainder
      then hex_oneByte (ucast (drop_bit processed word)) @ keccak_rest word (processed + 8) remainder
      else [])"
  by pat_completeness auto
termination
  by (relation "measure (\<lambda>(word, processed, remainder). remainder - processed)") auto

declare keccak_rest.simps [simp del]

definition keccak_text :: "keccak_bits \<Rightarrow> u64 list \<Rightarrow> string" where
  "keccak_text m_bits m_hash =
     (let hashLength = bits_value m_bits div 64;
          remainder = bits_value m_bits - hashLength * 64
      in concat (map (\<lambda>i. concat (map (\<lambda>j. hex_oneByte (ucast (drop_bit (8 * j) (m_hash ! i)))) [0..<8]))
           [0..<hashLength]) @ keccak_rest (m_hash ! hashLength) 0 remainder)"

definition keccak_getHash :: "keccak_bits \<Rightarrow> keccak_object \<Rightarrow> string \<times> keccak_object" where
  "keccak_getHash m_bits h =
     (let oldHash = hs_hash h;
          h' = keccak_processBuffer m_bits h
      in (keccak_text m_bits (hs_hash h'), h'\<lparr>hs_hash := oldHash\<rparr>))"

definition keccak_call :: "keccak_bits \<Rightarrow> keccak_object \<Rightarrow> byte list \<Rightarrow> string \<times> keccak_object" where
  "keccak_call m_bits h dat = keccak_getHash m_bits (keccak_add m_bits (keccak_reset h) dat)"

definition keccak_call_text :: "keccak_bits \<Rightarrow> keccak_object \<Rightarrow> string \<Rightarrow> string \<times> keccak_object" where
  "keccak_call_text m_bits h txt = keccak_getHash m_bits (keccak_add m_bits (keccak_reset h) (map byte_of_char txt))"

text \<open>\<^verbatim>\<open>sha3.cpp\<close> repeats \<^verbatim>\<open>keccak.cpp\<close> but for \<open>processBuffer\<close>.\<close>

definition sha3_processBlock :: "nat \<Rightarrow> u64 list \<Rightarrow> byte list \<Rightarrow> u64 list" where
  "sha3_processBlock = keccak_processBlock"

type_synonym sha3_object = "u64 list hasher"

definition sha3_reset :: "sha3_object \<Rightarrow> sha3_object" where
  "sha3_reset = keccak_reset"

definition sha3_new :: "byte list \<Rightarrow> sha3_object" where
  "sha3_new raw =
     sha3_reset \<lparr>hs_numBytes = 0, hs_bufferSize = 0, hs_buffer = raw, hs_hash = []\<rparr>"

definition sha3_add :: "keccak_bits \<Rightarrow> sha3_object \<Rightarrow> byte list \<Rightarrow> sha3_object" where
  "sha3_add m_bits = hasher_add (keccak_blockSize m_bits) (sha3_processBlock (keccak_blockSize m_bits))"

definition sha3_processBuffer :: "keccak_bits \<Rightarrow> sha3_object \<Rightarrow> sha3_object" where
  "sha3_processBuffer m_bits h =
     (let offset = hs_bufferSize h;
          buffer = (hs_buffer h)[offset := 0x06];
          buffer = zero_range buffer (offset + 1) (keccak_blockSize m_bits);
          offset = max (offset + 1) (keccak_blockSize m_bits);
          buffer = buffer[offset - 1 := buffer ! (offset - 1) OR 0x80]
      in h\<lparr>hs_buffer := buffer,
           hs_hash := sha3_processBlock (keccak_blockSize m_bits) (hs_hash h) buffer\<rparr>)"

definition sha3_text :: "keccak_bits \<Rightarrow> u64 list \<Rightarrow> string" where
  "sha3_text = keccak_text"

definition sha3_getHash :: "keccak_bits \<Rightarrow> sha3_object \<Rightarrow> string \<times> sha3_object" where
  "sha3_getHash m_bits h =
     (let oldHash = hs_hash h;
          h' = sha3_processBuffer m_bits h
      in (sha3_text m_bits (hs_hash h'), h'\<lparr>hs_hash := oldHash\<rparr>))"

definition sha3_call :: "keccak_bits \<Rightarrow> sha3_object \<Rightarrow> byte list \<Rightarrow> string \<times> sha3_object" where
  "sha3_call m_bits h dat = sha3_getHash m_bits (sha3_add m_bits (sha3_reset h) dat)"

definition sha3_call_text :: "keccak_bits \<Rightarrow> sha3_object \<Rightarrow> string \<Rightarrow> string \<times> sha3_object" where
  "sha3_call_text m_bits h txt = sha3_getHash m_bits (sha3_add m_bits (sha3_reset h) (map byte_of_char txt))"

section \<open>Padding the last block\<close>

definition pad_buffer :: "byte \<Rightarrow> nat \<Rightarrow> nat \<Rightarrow> byte list \<Rightarrow> byte list" where
  "pad_buffer sfx bs used buffer =
     (let buffer = zero_range (buffer[used := sfx]) (used + 1) bs
      in buffer[bs - 1 := buffer ! (bs - 1) OR 0x80])"

lemma pad_buffer_eq:
  assumes "used < bs" "bs \<le> length buffer" "length b = used" "take used buffer = b"
  shows "take bs (pad_buffer sfx bs used buffer) =
    b @ (if bs - used = 1 then [sfx OR 0x80] else sfx # replicate (bs - used - 2) 0 @ [0x80])"
proof -
  let ?z = "zero_range (buffer[used := sfx]) (used + 1) bs"
  have "take (used + 1) (buffer[used := sfx]) = b @ [sfx]"
    using assms by (simp add: take_Suc_conv_app_nth)
  then have z: "?z = (b @ sfx # replicate (bs - (used + 1)) 0) @ drop bs buffer"
    using assms by (simp add: zero_range_eq)
  have pad: "pad_buffer sfx bs used buffer = ?z[bs - 1 := ?z ! (bs - 1) OR 0x80]"
    by (simp only: pad_buffer_def Let_def)
  show ?thesis
  proof (cases "bs = used + 1")
    case True
    then show ?thesis
      using assms(3) unfolding pad z by (simp add: nth_append list_update_append)
  next
    case False
    then obtain n where n: "bs = Suc (Suc (used + n))"
      using False assms(1) that [of "bs - used - 2"] by simp
    have rep: "replicate (bs - (used + 1)) (0 :: byte) = replicate n 0 @ [0]"
      by (simp add: n replicate_append_same)
    show ?thesis
      using assms(3) unfolding pad z rep
      by (simp add: n nth_append list_update_append)
  qed
qed

lemma length_pad_buffer [simp]: "length (pad_buffer sfx bs used buffer) = length buffer"
  by (simp add: pad_buffer_def Let_def)

text \<open>What \<open>getHash\<close> does around \<open>processBuffer\<close>, with the chaining value saved and restored.\<close>

definition sponge_finish ::
  "byte \<Rightarrow> nat \<Rightarrow> ('h \<Rightarrow> byte list \<Rightarrow> 'h) \<Rightarrow> ('h \<Rightarrow> string) \<Rightarrow> 'h hasher \<Rightarrow> string \<times> 'h hasher" where
  "sponge_finish sfx bs pb out h =
     (let buffer = pad_buffer sfx bs (hs_bufferSize h) (hs_buffer h)
      in (out (pb (hs_hash h) buffer), h\<lparr>hs_buffer := buffer\<rparr>))"

locale sponge_hash = block_hash bs pb for bs :: nat and pb :: "'h \<Rightarrow> byte list \<Rightarrow> 'h" +
  fixes sfx :: byte
    and out :: "'h \<Rightarrow> string"
  assumes pb_take: "bs \<le> length b \<Longrightarrow> pb H (take bs b) = pb H b"
begin

abbreviation finish :: "'h hasher \<Rightarrow> string \<times> 'h hasher" where
  "finish \<equiv> sponge_finish sfx bs pb out"

lemma finish_fed:
  assumes "fed init h m" "finish h = (s, h')"
  shows "s = out (absorb bs pb init (m @ fips_pad sfx bs m)) \<and> fed init h' m \<and>
    length (hs_buffer h') = length (hs_buffer h)"
proof -
  from assms(1) obtain c b where m: "m = c @ b" and b: "length b < bs" and h: "holds init h c b"
    unfolding fed_def by blast
  let ?buf = "pad_buffer sfx bs (length b) (hs_buffer h)"
  have size: "hs_bufferSize h = length b" "take (length b) (hs_buffer h) = b" "bs \<le> length (hs_buffer h)"
    "bs dvd length c" "hs_hash h = absorb bs pb init c"
    using h by (simp_all add: holds_def)
  from size(4) obtain k where "length c = bs * k" by (elim dvdE)
  then have mod: "length m mod bs = length b" using b by (simp add: m)
  have block: "take bs ?buf = b @ fips_pad sfx bs m"
    using pad_buffer_eq [OF b size(3) refl size(2), of sfx] by (simp add: fips_pad_def mod Let_def)
  then have "length (b @ fips_pad sfx bs m) = bs"
    using size(3) by (metis length_pad_buffer length_take min_absorb2)
  then have "absorb bs pb init (m @ fips_pad sfx bs m) = pb (hs_hash h) (b @ fips_pad sfx bs m)"
    using absorb_append [OF bs_pos size(4), of pb init "b @ fips_pad sfx bs m"]
      absorb_block [OF bs_pos, of "b @ fips_pad sfx bs m" pb _ "[]"] bs_pos
    by (simp add: m size(5) absorb_short)
  also have "\<dots> = pb (hs_hash h) ?buf"
    using pb_take [of ?buf "hs_hash h"] size(3) block by simp
  finally have "s = out (absorb bs pb init (m @ fips_pad sfx bs m))" "h' = h\<lparr>hs_buffer := ?buf\<rparr>"
    using assms(2) by (simp_all add: sponge_finish_def size(1) Let_def)
  moreover have "take (length b) ?buf = b"
    using block b by (metis append_eq_conv_conj less_imp_le min.absorb1 take_take)
  then have "holds init (h\<lparr>hs_buffer := ?buf\<rparr>) c b" using h by (simp add: holds_def)
  then have "fed init (h\<lparr>hs_buffer := ?buf\<rparr>) m" using b m by (auto simp: fed_def)
  ultimately show ?thesis by simp
qed

lemma sponge_digest_object:
  assumes "\<And>h d. add h d = hasher_add bs pb h d"
    and "\<And>h m. fed init h m \<Longrightarrow> get h = finish h"
    and "\<And>m. out (absorb bs pb init (m @ fips_pad sfx bs m)) = digest m"
  shows "digest_object add (\<lambda>junk. get) (fed init) digest (\<lambda>junk. True)"
  using fed_add finish_fed by unfold_locales (simp_all add: assms(1,2), metis assms(3))

lemma reset_fed:
  "hs_hash h = init \<Longrightarrow> hs_numBytes h = 0 \<Longrightarrow> hs_bufferSize h = 0 \<Longrightarrow> bs \<le> length (hs_buffer h) \<Longrightarrow> fed init h []"
  using bs_pos by (simp add: fed_def holds_def absorb_short)

end

section \<open>The digests\<close>

lemma keccak_blockSize_bounds [simp]:
  "0 < keccak_blockSize v" "keccak_blockSize v \<le> MaxBlockSize" "keccak_blockSize v \<le> 200"
  by (cases v; simp add: keccak_blockSize_def MaxBlockSize_def)+

lemma keccak_blockSize_fips: "(1600 - 2 * bits_value v) div 8 = keccak_blockSize v"
  by (cases v) (simp_all add: keccak_blockSize_def)

lemma hex_oneByte_eq: "hex_oneByte b = hex_byte b"
proof -
  have "drop_bit 4 b AND 15 = drop_bit 4 b"
  proof (rule bit_word_eqI)
    fix n assume n: "n < LENGTH(8)"
    have m: "(15 :: byte) = mask 4" by (simp add: mask_eq_exp_minus_1)
    show "bit (drop_bit 4 b AND 15) n = bit (drop_bit 4 b) n"
      unfolding m using n not_bit_byte [of "4 + n" b] by (cases "n < 4") (simp_all add: bit_simps)
  qed
  then show ?thesis by (simp add: hex_oneByte_def hex_byte_def)
qed

lemma le_bytes64_shifts: "le_bytes64 w = map (\<lambda>j. ucast (drop_bit (8 * j) w)) [0..<8]"
proof -
  have mask: "ucast (x AND 0xFF) = (ucast x :: byte)" for x :: u64
  proof (rule bit_word_eqI)
    fix n assume n: "n < LENGTH(8)"
    have m: "(0xFF :: u64) = mask 8" by (simp add: mask_eq_exp_minus_1)
    show "bit (ucast (x AND 0xFF) :: byte) n = bit (ucast x :: byte) n"
      unfolding m using n by (simp add: bit_simps)
  qed
  show ?thesis
    by (simp add: le_bytes64_def mask numeral_eq_Suc upt_rec)
qed

lemma hex_lane: "concat (map (\<lambda>j. hex_oneByte (ucast (drop_bit (8 * j) w))) [0..<8]) = hex_string (le_bytes64 w)"
  by (simp add: le_bytes64_shifts hex_string_def hex_oneByte_eq o_def)

lemma hex_rest: "keccak_rest w 0 32 = hex_string (take 4 (le_bytes64 w))"
  by (simp add: keccak_rest.simps [of w] le_bytes64_shifts hex_string_def hex_oneByte_eq upt_rec)

lemma hex_string_append: "hex_string (a @ b) = hex_string a @ hex_string b"
  by (simp add: hex_string_def)

lemma keccak_text_hex:
  assumes "length A = 25"
  shows "keccak_text v A = hex_string (take (bits_value v div 8) (concat (map le_bytes64 A)))"
proof -
  have rest: "keccak_rest w 0 0 = []" for w by (subst keccak_rest.simps) simp
  show ?thesis
    unfolding keccak_text_def hex_lane
    by (rule list_of_length_25 [OF assms], cases v)
       (simp_all add: Let_def hex_rest rest hex_string_append upt_rec)
qed

lemma length_fips_absorb [simp]: "length (fips_absorb r A b) = 25"
  by (simp add: fips_absorb_def)

lemma length_absorb_fips: "length A = 25 \<Longrightarrow> length (absorb r (fips_absorb r) A m) = 25"
  by (rule length_absorb) simp_all

lemma absorb_keccak:
  assumes "length A = 25"
  shows "absorb (keccak_blockSize v) (keccak_processBlock (keccak_blockSize v)) A m =
    absorb (keccak_blockSize v) (fips_absorb (keccak_blockSize v)) A m"
  by (rule absorb_cong [where P = "\<lambda>A. length A = 25", OF _ assms])
     (simp add: keccak_processBlock_fips)

lemma keccak_text_fips:
  "keccak_text v (absorb (keccak_blockSize v) (keccak_processBlock (keccak_blockSize v))
     (replicate StateSize 0) (m @ fips_pad sfx (keccak_blockSize v) m)) =
   hex_string (fips_keccak sfx (bits_value v) m)"
  by (simp add: StateSize_def absorb_keccak keccak_text_hex length_absorb_fips fips_keccak_def
      keccak_blockSize_fips Let_def)

interpretation keccak: sponge_hash "keccak_blockSize v" "keccak_processBlock (keccak_blockSize v)" 1 "keccak_text v" for v
  by unfold_locales (simp_all add: keccak_processBlock_take)

interpretation sha3: sponge_hash "keccak_blockSize v" "sha3_processBlock (keccak_blockSize v)" 6 "sha3_text v" for v
  by unfold_locales (simp_all add: keccak_processBlock_take sha3_processBlock_def)

abbreviation keccak_holds :: "keccak_bits \<Rightarrow> u64 list hasher \<Rightarrow> byte list \<Rightarrow> bool" where
  "keccak_holds v \<equiv> block_hash.fed (keccak_blockSize v) (keccak_processBlock (keccak_blockSize v)) (replicate StateSize 0)"

interpretation keccak_object: digest_object "keccak_add v" "\<lambda>junk. keccak_getHash v" "keccak_holds v"
  "\<lambda>m. hex_string (fips_keccak 1 (bits_value v) m)" "\<lambda>junk. True" for v
proof (rule keccak.sponge_digest_object)
  show "keccak_getHash v h =
      sponge_finish 1 (keccak_blockSize v) (keccak_processBlock (keccak_blockSize v)) (keccak_text v) h" for h
    by (simp only: keccak_getHash_def keccak_processBuffer_def sponge_finish_def pad_buffer_def
        keccak_blockSize_def Let_def) simp
qed (simp_all add: keccak_add_def keccak_text_fips)

interpretation sha3_object: digest_object "sha3_add v" "\<lambda>junk. sha3_getHash v" "keccak_holds v"
  "\<lambda>m. hex_string (fips_keccak 6 (bits_value v) m)" "\<lambda>junk. True" for v
proof (rule sha3.sponge_digest_object [unfolded sha3_processBlock_def])
  fix h m assume "keccak_holds v h m"
  then have "hs_bufferSize h < keccak_blockSize v"
    by (auto simp: keccak.fed_def keccak.holds_def)
  then have "max (hs_bufferSize h + 1) (keccak_blockSize v) = keccak_blockSize v" by simp
  then show "sha3_getHash v h =
      sponge_finish 6 (keccak_blockSize v) (keccak_processBlock (keccak_blockSize v)) (sha3_text v) h"
    by (simp only: sha3_getHash_def sha3_processBuffer_def sponge_finish_def pad_buffer_def
        sha3_processBlock_def Let_def) simp
qed (simp_all add: sha3_add_def keccak_text_fips sha3_processBlock_def sha3_text_def)

lemma keccak_reset_holds: "length (hs_buffer h) = MaxBlockSize \<Longrightarrow> keccak_holds v (keccak_reset h) []"
  by (rule keccak.reset_fed) (simp_all add: keccak_reset_def)

text \<open>Both overloads of \<open>operator()\<close>, on an object in any state.\<close>

lemma keccak_calls_eq:
  assumes "length (hs_buffer h) = MaxBlockSize"
  shows "fst (keccak_call v h dat) = hex_string (fips_keccak 1 (bits_value v) dat)"
    and "fst (keccak_call_text v h txt) = hex_string (fips_keccak 1 (bits_value v) (map byte_of_char txt))"
    and "fst (sha3_call v h dat) = hex_string (fips_keccak 6 (bits_value v) dat)"
    and "fst (sha3_call_text v h txt) = hex_string (fips_keccak 6 (bits_value v) (map byte_of_char txt))"
  using keccak_object.one_shot [OF keccak_reset_holds [OF assms]] sha3_object.one_shot [OF keccak_reset_holds [OF assms]]
  by (simp_all add: keccak_call_def keccak_call_text_def sha3_call_def sha3_call_text_def sha3_reset_def)

lemma keccak_new_holds: "length raw = MaxBlockSize \<Longrightarrow> keccak_holds v (keccak_new raw) []"
  using keccak_reset_holds by (simp add: keccak_new_def)

lemma sha3_new_holds: "length raw = MaxBlockSize \<Longrightarrow> keccak_holds v (sha3_new raw) []"
  using keccak_new_holds by (simp add: sha3_new_def keccak_new_def sha3_reset_def)

section \<open>Properties\<close>

text \<open>
  C27: A Keccak object of any of the four variants, fed in any number of pieces and asked for its digest
  at any time, answers each getHash with the Keccak digest of exactly the bytes added so far: the
  rounds on lanes updated in place are the step mappings of FIPS 202 with their computed offsets and
  constants, and the digest is the first 28, 32, 48 or 64 bytes of the state.
\<close>

theorem keccak_streaming:
  assumes "length raw = MaxBlockSize"
  shows "digest_calls (keccak_add v) (\<lambda>junk. keccak_getHash v) (keccak_new raw) cs =
    digest_calls_spec (\<lambda>m. hex_string (fips_keccak 1 (bits_value v) m)) [] cs"
  by (rule keccak_object.calls_eq [OF keccak_new_holds [OF assms] calls_ok_any])

theorem keccak_streaming_witness:
  "digest_calls (keccak_add Bits224) (\<lambda>junk. keccak_getHash Bits224) (keccak_new (replicate 144 7))
     [Add [1, 2], Get [], Add [3], Get []] =
   [hex_string (fips_keccak 1 224 [1, 2]), hex_string (fips_keccak 1 224 [1, 2, 3])]"
  using keccak_streaming [of "replicate 144 7" Bits224 "[Add [1, 2], Get [], Add [3], Get []]"]
  by (simp add: MaxBlockSize_def)

text \<open>
  C28: A SHA3 object of any of the four variants, fed in any number of pieces and asked for its digest at
  any time, answers each getHash with the SHA-3 digest of FIPS 202 of exactly the bytes added so far.
\<close>

theorem sha3_streaming:
  assumes "length raw = MaxBlockSize"
  shows "digest_calls (sha3_add v) (\<lambda>junk. sha3_getHash v) (sha3_new raw) cs =
    digest_calls_spec (\<lambda>m. hex_string (fips_keccak 6 (bits_value v) m)) [] cs"
  by (rule sha3_object.calls_eq [OF sha3_new_holds [OF assms] calls_ok_any])

theorem sha3_streaming_witness:
  "digest_calls (sha3_add Bits256) (\<lambda>junk. sha3_getHash Bits256) (sha3_new (replicate 144 7))
     [Add [1, 2], Get [], Add [3], Get []] =
   [hex_string (fips_keccak 6 256 [1, 2]), hex_string (fips_keccak 6 256 [1, 2, 3])]"
  using sha3_streaming [of "replicate 144 7" Bits256 "[Add [1, 2], Get [], Add [3], Get []]"]
  by (simp add: MaxBlockSize_def)

end
