(* ===== verification/Digest_Tool.thy ===== *)
theory Digest_Tool
  imports Md5 Keccak_Digest Crc32
begin

text \<open>
  The program \<^verbatim>\<open>pmud/src/common/hash-library/digest.cpp\<close>, which feeds a file through the selected
  digests in pieces of about a megabyte. Opening a file and what it holds are the environment; the
  lines printed are proved to be the digests of the whole input.
\<close>

section \<open>Options\<close>

record digest_flags =
  computeCrc32 :: bool
  computeMd5 :: bool
  computeSha1 :: bool
  computeSha2 :: bool
  computeKeccak :: bool
  computeSha3 :: bool

definition digest_flags_of :: "string \<Rightarrow> digest_flags" where
  "digest_flags_of algorithm =
     \<lparr>computeCrc32 = algorithm = [] \<or> algorithm = ''--crc'',
      computeMd5 = algorithm = [] \<or> algorithm = ''--md5'',
      computeSha1 = algorithm = [] \<or> algorithm = ''--sha1'',
      computeSha2 = algorithm = [] \<or> algorithm = ''--sha2'' \<or> algorithm = ''--sha256'',
      computeKeccak = algorithm = [] \<or> algorithm = ''--keccak'',
      computeSha3 = algorithm = [] \<or> algorithm = ''--sha3''\<rparr>"

section \<open>The digests\<close>

record digests =
  digestCrc32 :: u32
  digestMd5 :: "u32 list hasher"
  digestSha1 :: "u32 list hasher"
  digestSha2 :: "u32 list hasher"
  digestKeccak :: "u64 list hasher"
  digestSha3 :: "u64 list hasher"

text \<open>The memory that the local objects and the arrays of \<open>getHash\<close> find.\<close>

record digest_memory =
  dm_crc :: u32
  dm_block :: "byte list"
  dm_state :: "byte list"
  dm_stack :: "byte list"

definition new_digests :: "digest_memory \<Rightarrow> digests" where
  "new_digests mem =
     \<lparr>digestCrc32 = crc32_new (dm_crc mem), digestMd5 = md5_new (dm_block mem), digestSha1 = sha1_new (dm_block mem),
      digestSha2 = sha256_new (dm_block mem), digestKeccak = keccak_new (dm_state mem),
      digestSha3 = sha3_new (dm_state mem)\<rparr>"

definition add_digests :: "digest_flags \<Rightarrow> digests \<Rightarrow> byte list \<Rightarrow> digests" where
  "add_digests fl d buffer =
     (let d = (if computeCrc32 fl then d\<lparr>digestCrc32 := crc32_add (digestCrc32 d) buffer\<rparr> else d);
          d = (if computeMd5 fl then d\<lparr>digestMd5 := md5_add (digestMd5 d) buffer\<rparr> else d);
          d = (if computeSha1 fl then d\<lparr>digestSha1 := sha1_add (digestSha1 d) buffer\<rparr> else d);
          d = (if computeSha2 fl then d\<lparr>digestSha2 := sha256_add (digestSha2 d) buffer\<rparr> else d);
          d = (if computeKeccak fl then d\<lparr>digestKeccak := keccak_add Bits256 (digestKeccak d) buffer\<rparr> else d)
      in if computeSha3 fl then d\<lparr>digestSha3 := sha3_add Bits256 (digestSha3 d) buffer\<rparr> else d)"

definition BufferSize :: nat where "BufferSize = 144 * 7 * 1024"

text \<open>
  \<open>while (*input)\<close>: a read that finds fewer bytes than it asks for takes what there is and leaves the
  stream failed, so the loop ends after the first short read, which may be empty.
\<close>

function read_cycles :: "digest_flags \<Rightarrow> digests \<Rightarrow> byte list \<Rightarrow> digests" where
  "read_cycles fl d input =
     (if BufferSize \<le> length input
      then read_cycles fl (add_digests fl d (take BufferSize input)) (drop BufferSize input)
      else add_digests fl d input)"
  by pat_completeness auto
termination
  by (relation "measure (\<lambda>(fl, d, input). length input)") (auto simp: BufferSize_def)

declare read_cycles.simps [simp del]

definition show_digests :: "digest_memory \<Rightarrow> digest_flags \<Rightarrow> digests \<Rightarrow> string list" where
  "show_digests mem fl d =
     (if computeCrc32 fl then [''CRC32:      '' @ crc32_getHash (digestCrc32 d)] else []) @
     (if computeMd5 fl then [''MD5:        '' @ fst (md5_getHash (dm_stack mem) (digestMd5 d))] else []) @
     (if computeSha1 fl then [''SHA1:       '' @ fst (sha1_getHash (dm_stack mem) (digestSha1 d))] else []) @
     (if computeSha2 fl then [''SHA2/256:   '' @ fst (sha256_getHash (dm_stack mem) (digestSha2 d))] else []) @
     (if computeKeccak fl then [''Keccak/256: '' @ fst (keccak_getHash Bits256 (digestKeccak d))] else []) @
     (if computeSha3 fl then [''SHA3/256:   '' @ fst (sha3_getHash Bits256 (digestSha3 d))] else [])"

text \<open>
  \<open>main\<close>: exit code and the lines on the standard output and the error output. \<open>files\<close> gives the
  bytes of a file that opens, \<open>cin\<close> those of the standard input; \<open>argv\<close> holds the name of the program.
\<close>

definition digest_main ::
  "digest_memory \<Rightarrow> (string \<Rightarrow> byte list option) \<Rightarrow> byte list \<Rightarrow> string list \<Rightarrow> nat \<times> string list \<times> string list" where
  "digest_main mem files cin argv =
     (if length argv < 2 \<or> 3 < length argv
      then (1, [''./digest filename [--crc|--md5|--sha1|--sha256|--keccak|--sha3]''], [])
      else
        let filename = argv ! 1;
            algorithm = (if length argv = 3 then argv ! 2 else []);
            fl = digest_flags_of algorithm
        in case (if filename = ''-'' then Some cin else files filename) of
             None \<Rightarrow> (2, [], [''Can't open '' @ [CHR 0x27] @ filename @ [CHR 0x27]])
           | Some input \<Rightarrow> (0, show_digests mem fl (read_cycles fl (new_digests mem) input), []))"

section \<open>What the lines are\<close>

definition memory_ok :: "digest_memory \<Rightarrow> bool" where
  "memory_ok mem \<longleftrightarrow> length (dm_block mem) = 64 \<and> length (dm_state mem) = MaxBlockSize \<and> length (dm_stack mem) = 64"

text \<open>Each selected digest has been fed \<open>m\<close>.\<close>

definition digests_hold :: "digest_flags \<Rightarrow> digests \<Rightarrow> byte list \<Rightarrow> bool" where
  "digests_hold fl d m \<longleftrightarrow>
     (computeCrc32 fl \<longrightarrow> digestCrc32 d = crc32_value m) \<and> (computeMd5 fl \<longrightarrow> md5_holds (digestMd5 d) m) \<and>
     (computeSha1 fl \<longrightarrow> sha1_holds (digestSha1 d) m) \<and> (computeSha2 fl \<longrightarrow> sha256_holds (digestSha2 d) m) \<and>
     (computeKeccak fl \<longrightarrow> keccak_holds Bits256 (digestKeccak d) m) \<and>
     (computeSha3 fl \<longrightarrow> keccak_holds Bits256 (digestSha3 d) m)"

lemma new_digests_hold: "memory_ok mem \<Longrightarrow> digests_hold fl (new_digests mem) []"
  by (simp add: digests_hold_def new_digests_def memory_ok_def md5_new_holds sha1_new_holds sha256_new_holds
      keccak_new_holds sha3_new_holds crc32_new_value)

lemma add_digests_hold: "digests_hold fl d m \<Longrightarrow> digests_hold fl (add_digests fl d b) (m @ b)"
  using md5_object.add_bytes [of "digestMd5 d" m b] sha1_object.add_bytes [of "digestSha1 d" m b]
    sha256_object.add_bytes [of "digestSha2 d" m b] keccak_object.add_bytes [of Bits256 "digestKeccak d" m b]
    sha3_object.add_bytes [of Bits256 "digestSha3 d" m b]
  by (simp add: digests_hold_def add_digests_def Let_def crc32_add_value)

lemma read_cycles_hold: "digests_hold fl d m \<Longrightarrow> digests_hold fl (read_cycles fl d input) (m @ input)"
proof (induction fl d input arbitrary: m rule: read_cycles.induct)
  case (1 fl d input)
  show ?case
  proof (cases "BufferSize \<le> length input")
    case True
    then show ?thesis
      using "1.IH" [OF True add_digests_hold [OF "1.prems"]]
      by (subst read_cycles.simps) simp
  next
    case False
    then show ?thesis using add_digests_hold [OF "1.prems"] by (subst read_cycles.simps) simp
  qed
qed

text \<open>What each algorithm computes, in the order of the output.\<close>

definition digest_lines :: "digest_flags \<Rightarrow> byte list \<Rightarrow> string list" where
  "digest_lines fl m =
     map snd (filter fst
       [(computeCrc32 fl, ''CRC32:      '' @ hex_string (crc32_getHash_bytes (crc32_value m))),
        (computeMd5 fl, ''MD5:        '' @ hex_string (rfc_md5 m)),
        (computeSha1 fl, ''SHA1:       '' @ hex_string (fips_sha1 m)),
        (computeSha2 fl, ''SHA2/256:   '' @ hex_string (fips_sha256 m)),
        (computeKeccak fl, ''Keccak/256: '' @ hex_string (fips_keccak 1 256 m)),
        (computeSha3 fl, ''SHA3/256:   '' @ hex_string (fips_keccak 6 256 m))])"

lemma show_digests_lines:
  assumes "memory_ok mem" "digests_hold fl d m"
  shows "show_digests mem fl d = digest_lines fl m"
proof -
  have stack: "length (dm_stack mem) = 64" using assms(1) by (simp add: memory_ok_def)
  note texts = md5_object.get_text [OF _ stack] sha1_object.get_text [OF _ stack]
    sha256_object.get_text [OF _ stack]
  show ?thesis
    using assms(2) keccak_object.get_text [of Bits256 "digestKeccak d" m]
      sha3_object.get_text [of Bits256 "digestSha3 d" m]
    by (simp add: show_digests_def digest_lines_def digests_hold_def crc32_getHash_hex texts)
qed

section \<open>Properties\<close>

text \<open>
  C30: The digest program prints, for each selected algorithm in turn, the digest of the whole input,
  however long it is and although it is read in pieces; without an input that opens it prints only an
  error and ends with 2, and with a wrong number of arguments only its syntax and ends with 1.
\<close>

theorem digest_program:
  assumes "memory_ok mem"
  shows "digest_main mem files cin argv =
    (if length argv = 2 \<or> length argv = 3
     then case (if argv ! 1 = ''-'' then Some cin else files (argv ! 1)) of
            None \<Rightarrow> (2, [], [''Can't open '' @ [CHR 0x27] @ argv ! 1 @ [CHR 0x27]])
          | Some input \<Rightarrow> (0, digest_lines (digest_flags_of (if length argv = 3 then argv ! 2 else [])) input, [])
     else (1, [''./digest filename [--crc|--md5|--sha1|--sha256|--keccak|--sha3]''], []))"
proof -
  have "show_digests mem fl (read_cycles fl (new_digests mem) input) = digest_lines fl input" for fl input
    using show_digests_lines [OF assms read_cycles_hold [OF new_digests_hold [OF assms]]] by simp
  moreover have "(length argv < 2 \<or> 3 < length argv) \<longleftrightarrow> \<not> (length argv = 2 \<or> length argv = 3)" by linarith
  ultimately show ?thesis by (simp add: digest_main_def Let_def split: option.split)
qed

theorem digest_program_witness:
  "digest_main \<lparr>dm_crc = 7, dm_block = replicate 64 7, dm_state = replicate 144 7, dm_stack = replicate 64 9\<rparr>
     (\<lambda>_. None) [1, 2, 3] [''digest'', ''-'', ''--sha2''] =
   (0, [''SHA2/256:   '' @ hex_string (fips_sha256 [1, 2, 3])], [])"
  using digest_program [of "\<lparr>dm_crc = 7, dm_block = replicate 64 7, dm_state = replicate 144 7, dm_stack = replicate 64 9\<rparr>"
      "\<lambda>_. None" "[1, 2, 3]" "[''digest'', ''-'', ''--sha2'']"]
  by (simp add: memory_ok_def MaxBlockSize_def digest_lines_def digest_flags_of_def)

end
