(* ===== verification/Util_Trials.thy ===== *)
theory Util_Trials
  imports Prelude
begin

text \<open>
  The trials of \<^verbatim>\<open>util\<close>: the line interpreter \<^verbatim>\<open>lua.cpp\<close> over the interpreter library, the three
  message queue programs over what their sockets receive, and the programs that print the compiler's
  version, the environment, a number and a pipeline of views over fixed point numbers.
\<close>

section \<open>The interpreter of lines\<close>

text \<open>
  \<open>fgets(buff, n, stdin)\<close>: at most \<open>n - 1\<close> characters, up to and with the first newline; \<open>None\<close> at
  the end of the input.
\<close>

fun fgets_chars :: "nat \<Rightarrow> string \<Rightarrow> string \<times> string" where
  "fgets_chars (Suc n) (c # rest) =
     (if c = CHR 0x0A then ([c], rest) else (let (s, rest') = fgets_chars n rest in (c # s, rest')))"
| "fgets_chars n rest = ([], rest)"

definition fgets :: "nat \<Rightarrow> string \<Rightarrow> (string \<times> string) option" where
  "fgets n stdin = (if stdin = [] then None else Some (fgets_chars (n - 1) stdin))"

lemma fgets_chars_append: "fst (fgets_chars n s) @ snd (fgets_chars n s) = s"
  by (induction n s rule: fgets_chars.induct) (auto split: prod.splits)

lemma fgets_chars_progress: "s \<noteq> [] \<Longrightarrow> 0 < n \<Longrightarrow> length (snd (fgets_chars n s)) < length s"
proof -
  assume "s \<noteq> []" "0 < n"
  then have "fst (fgets_chars n s) \<noteq> []" by (cases n; cases s) (auto split: prod.split)
  then show ?thesis
    using fgets_chars_append [of n s] by (metis append_eq_append_conv2 append_self_conv2 length_append
        length_greater_0_conv less_add_same_cancel2)
qed

text \<open>
  The loop. \<open>run l chunk\<close> is what loading and calling a chunk does to the interpreter, with the value it
  leaves on the stack when one of the two fails: \<open>lua_tostring\<close> answers \<open>None\<close>, a null pointer, when that is
  not a string. The chunk is the buffer up to its first NUL.
\<close>

type_synonym 'l lua = "'l \<Rightarrow> string \<Rightarrow> 'l \<times> string option option"

definition LUA_BUFFER :: nat where "LUA_BUFFER = 256"

definition lua_error :: "string option option \<Rightarrow> fault + string" where
  "lua_error error =
     (case error of None \<Rightarrow> Inr [] | Some None \<Rightarrow> Inl NullPointer | Some (Some msg) \<Rightarrow> Inr (c_str msg))"

function lua_main :: "'l lua \<Rightarrow> 'l \<Rightarrow> string \<Rightarrow> fault + 'l \<times> string" where
  "lua_main run l stdin =
     (case fgets LUA_BUFFER stdin of
        None \<Rightarrow> Inr (l, [])
      | Some (buff, rest) \<Rightarrow>
          (let (l', error) = run l (c_str buff)
           in bindE (lua_error error) (\<lambda>out.
                bindE (lua_main run l' rest) (\<lambda>(l'', stderr). Inr (l'', out @ stderr)))))"
  by pat_completeness auto
termination
proof (relation "measure (\<lambda>(run, l, stdin). length stdin)", goal_cases)
  case (2 run l stdin x buff rest)
  then show ?case
    using fgets_chars_progress [of stdin "LUA_BUFFER - 1"]
    by (auto simp: fgets_def LUA_BUFFER_def split: if_splits)
qed simp

declare lua_main.simps [simp del]

text \<open>The buffers that the loop fills.\<close>

function buffers :: "string \<Rightarrow> string list" where
  "buffers stdin =
     (case fgets LUA_BUFFER stdin of None \<Rightarrow> [] | Some (buff, rest) \<Rightarrow> buff # buffers rest)"
  by pat_completeness auto
termination
proof (relation "measure length", goal_cases)
  case (2 stdin x buff rest)
  then show ?case
    using fgets_chars_progress [of stdin "LUA_BUFFER - 1"]
    by (auto simp: fgets_def LUA_BUFFER_def split: if_splits)
qed simp

declare buffers.simps [simp del]

text \<open>Running chunks one after the other, each in the state that the one before it left.\<close>

fun run_chunks :: "'l lua \<Rightarrow> 'l \<Rightarrow> string list \<Rightarrow> fault + 'l \<times> string" where
  "run_chunks run l [] = Inr (l, [])"
| "run_chunks run l (s # ss) =
     (let (l', error) = run l s
      in bindE (lua_error error) (\<lambda>out.
           bindE (run_chunks run l' ss) (\<lambda>(l'', stderr). Inr (l'', out @ stderr))))"

lemma lua_main_chunks: "lua_main run l stdin = run_chunks run l (map c_str (buffers stdin))"
proof (induction run l stdin rule: lua_main.induct)
  case (1 run l stdin)
  show ?case
  proof (cases "fgets LUA_BUFFER stdin")
    case None
    then show ?thesis by (subst lua_main.simps, subst buffers.simps) simp
  next
    case (Some br)
    obtain buff rest where br: "br = (buff, rest)" by (cases br)
    obtain l' error where r: "run l (c_str buff) = (l', error)" by force
    from 1 [OF Some br [symmetric] r [symmetric] refl] have "lua_main run l' rest = run_chunks run l' (map c_str (buffers rest))"
      by simp
    with Some br r show ?thesis
      by (subst lua_main.simps, subst buffers.simps) simp
  qed
qed

lemma concat_buffers: "concat (buffers s) = s"
proof (induction s rule: buffers.induct)
  case (1 stdin)
  then show ?case
    using fgets_chars_append [of "LUA_BUFFER - 1" stdin]
    by (subst buffers.simps) (auto simp: fgets_def split: prod.splits)
qed

lemma fgets_chars_line:
  "CHR 0x0A \<notin> set l \<Longrightarrow> length l < n \<Longrightarrow> fgets_chars n (l @ CHR 0x0A # rest) = (l @ [CHR 0x0A], rest)"
proof (induction l arbitrary: n)
  case Nil
  then show ?case by (cases n) simp_all
next
  case (Cons c l)
  then show ?case by (cases n) auto
qed

lemma fgets_chars_long: "CHR 0x0A \<notin> set l \<Longrightarrow> length l = n \<Longrightarrow> fgets_chars n (l @ rest) = (l, rest)"
proof (induction l arbitrary: n)
  case Nil
  then show ?case by simp
next
  case (Cons c l)
  then show ?case by (cases n) auto
qed

lemma buffers_lines:
  "\<forall>l \<in> set ls. CHR 0x0A \<notin> set l \<and> length l < LUA_BUFFER - 1 \<Longrightarrow>
   buffers (concat (map (\<lambda>l. l @ [CHR 0x0A]) ls)) = map (\<lambda>l. l @ [CHR 0x0A]) ls"
proof (induction ls)
  case Nil
  then show ?case by (subst buffers.simps) (simp add: fgets_def)
next
  case (Cons l ls)
  then have "fgets_chars (LUA_BUFFER - 1) (l @ CHR 0x0A # concat (map (\<lambda>l. l @ [CHR 0x0A]) ls)) =
      (l @ [CHR 0x0A], concat (map (\<lambda>l. l @ [CHR 0x0A]) ls))"
    by (intro fgets_chars_line) auto
  with Cons show ?case by (subst buffers.simps) (simp add: fgets_def)
qed

lemma buffers_cut:
  assumes "CHR 0x0A \<notin> set a" "length a = LUA_BUFFER - 1"
  shows "buffers (a @ rest) = a # buffers rest"
proof -
  have "a \<noteq> []" using assms(2) by (auto simp: LUA_BUFFER_def)
  with fgets_chars_long [OF assms, of rest] show ?thesis by (subst buffers.simps) (simp add: fgets_def)
qed

text \<open>
  Lines of up to 254 characters are run as they are typed, one chunk each; a longer line is cut behind its
  255th character, and what follows is run as a chunk of its own.
\<close>

lemma lua_runs_lines:
  assumes "\<forall>l \<in> set ls. CHR 0x0A \<notin> set l \<and> CHR 0x00 \<notin> set l \<and> length l < LUA_BUFFER - 1"
  shows "lua_main run l (concat (map (\<lambda>l. l @ [CHR 0x0A]) ls)) = run_chunks run l (map (\<lambda>l. l @ [CHR 0x0A]) ls)"
proof -
  have "c_str (l @ [CHR 0x0A]) = l @ [CHR 0x0A]" if "l \<in> set ls" for l
    using assms that by (intro c_str_literal) auto
  then have "map c_str (map (\<lambda>l. l @ [CHR 0x0A]) ls) = map (\<lambda>l. l @ [CHR 0x0A]) ls" by simp
  moreover have "buffers (concat (map (\<lambda>l. l @ [CHR 0x0A]) ls)) = map (\<lambda>l. l @ [CHR 0x0A]) ls"
    using assms by (intro buffers_lines) simp
  ultimately show ?thesis by (simp only: lua_main_chunks)
qed

lemma lua_cuts_long_line:
  assumes "CHR 0x0A \<notin> set a" "CHR 0x00 \<notin> set a" "length a = LUA_BUFFER - 1"
  shows "lua_main run l (a @ rest) = run_chunks run l (a # map c_str (buffers rest))"
proof -
  have "c_str a = a" using assms(2) by (rule c_str_literal)
  with buffers_cut [OF assms(1,3), of rest] show ?thesis by (simp add: lua_main_chunks)
qed

section \<open>The message queue programs\<close>

abbreviation newline :: string where "newline \<equiv> [CHR 0x0A]"

text \<open>
  \<open>recv\<close> answers with a message, or without a value when it was interrupted; \<open>value()\<close> is the number of
  bytes received, and throws on the empty answer. A turn yields what is printed and what is sent.
\<close>

definition received :: "string option \<Rightarrow> fault + nat" where
  "received reply = (case reply of None \<Rightarrow> Inl (Thrown ''bad optional access'') | Some text \<Rightarrow> Inr (length text))"

definition zmq_server_turn :: "string option \<Rightarrow> fault + string \<times> string" where
  "zmq_server_turn request =
     bindE (received request) (\<lambda>n.
       Inr (''Received '' @ string_of_nat n @ '':'' @ the request @ newline, ''World''))"

fun zmq_server_run :: "string option list \<Rightarrow> fault + string \<times> string list" where
  "zmq_server_run [] = Inr ([], [])"
| "zmq_server_run (request # requests) =
     bindE (zmq_server_turn request) (\<lambda>(out, reply).
       bindE (zmq_server_run requests) (\<lambda>(outs, replies). Inr (out @ outs, reply # replies)))"

definition zmq_client_sends :: "nat \<Rightarrow> string \<times> string" where
  "zmq_client_sends request_num = (''Sending Hello '' @ string_of_nat request_num @ ''...'' @ newline, ''Hello'')"

definition zmq_client_receives :: "nat \<Rightarrow> string option \<Rightarrow> fault + string" where
  "zmq_client_receives request_num reply =
     bindE (received reply) (\<lambda>n.
       Inr (''Received '' @ string_of_nat n @ '':'' @ the reply @ '' ('' @ string_of_nat request_num @ '')'' @ newline))"

text \<open>The client's loop from \<open>request_num\<close> on; it waits forever when no reply is left.\<close>

fun zmq_client_loop :: "nat \<Rightarrow> string option list \<Rightarrow> (string \<times> string list) result" where
  "zmq_client_loop request_num [] = (if request_num < 10 then None else Some (Inr ([], [])))"
| "zmq_client_loop request_num (reply # replies) =
     (if request_num < 10 then
        (let (out, request) = zmq_client_sends request_num in
         case zmq_client_receives request_num reply of
           Inl f \<Rightarrow> Some (Inl f)
         | Inr out' \<Rightarrow>
             map_option (\<lambda>r. bindE r (\<lambda>(outs, requests). Inr (out @ out' @ outs, request # requests)))
               (zmq_client_loop (Suc request_num) replies))
      else Some (Inr ([], [])))"

definition zmq_client_main :: "string option list \<Rightarrow> (string \<times> string list) result" where
  "zmq_client_main replies = zmq_client_loop 0 replies"

lemma zmq_server_world:
  "\<exists>out. zmq_server_run (map Some requests) = Inr (out, replicate (length requests) ''World'')"
  by (induction requests) (auto simp: zmq_server_turn_def received_def)

lemma zmq_client_hellos:
  "i \<le> 10 \<Longrightarrow> 10 - i \<le> length replies \<Longrightarrow>
   \<exists>out. zmq_client_loop i (map Some replies) = Some (Inr (out, replicate (10 - i) ''Hello''))"
proof (induction replies arbitrary: i)
  case Nil
  then show ?case by simp
next
  case (Cons r rs)
  show ?case
  proof (cases "i < 10")
    case True
    with Cons.prems have "Suc i \<le> 10" "10 - Suc i \<le> length rs" by simp_all
    from Cons.IH [OF this] True show ?thesis
      by (auto simp: zmq_client_sends_def zmq_client_receives_def received_def Suc_diff_Suc simp flip: replicate_Suc)
  qed (use Cons.prems in simp)
qed

text \<open>
  Client and server together: the requests of the client are those that the server answers, its replies are
  those that the client waits for, and both end their ten exchanges.
\<close>

lemma zmq_exchange:
  "\<exists>requests replies out out'.
     zmq_client_main (map Some replies) = Some (Inr (out, requests)) \<and>
     zmq_server_run (map Some requests) = Inr (out', replies) \<and> length requests = 10"
proof -
  let ?replies = "replicate 10 ''World''" and ?requests = "replicate 10 ''Hello''"
  obtain out where "zmq_client_loop 0 (map Some ?replies) = Some (Inr (out, ?requests))"
    using zmq_client_hellos [of 0 ?replies] by auto
  moreover obtain out' where "zmq_server_run (map Some ?requests) = Inr (out', ?replies)"
    using zmq_server_world [of ?requests] by auto
  ultimately show ?thesis unfolding zmq_client_main_def by (metis length_replicate)
qed

text \<open>
  \<^verbatim>\<open>cli-zmq.cpp\<close>: every turn has an answer of \<open>recv\<close>, the number of bytes or nothing, and reads the next
  word of the input; \<open>cin\<close> leaves the string empty at the end of the input.
\<close>

definition cli_connection :: "string list \<Rightarrow> string" where
  "cli_connection argv = (if length argv > 1 then argv ! 1 else ''tcp://localhost:49201'')"

fun cli_turns :: "nat option list \<Rightarrow> string list \<Rightarrow> string \<times> string list" where
  "cli_turns [] input_words = ([], [])"
| "cli_turns (Some n # results) input_words =
     (let w = (case input_words of [] \<Rightarrow> [] | w # _ \<Rightarrow> w);
          (out, sent) = cli_turns results (tl input_words)
      in (string_of_nat n @ newline @ out, w # sent))"
| "cli_turns (None # results) input_words =
     (let (out, sent) = cli_turns results input_words in (''Nothing from server'' @ newline @ out, sent))"

definition cli_zmq_main :: "string list \<Rightarrow> nat option list \<Rightarrow> string list \<Rightarrow> string \<times> string list" where
  "cli_zmq_main argv results input_words =
     (let (out, sent) = cli_turns results input_words
      in (''Using connection: '' @ c_str (cli_connection argv) @ out, sent))"

text \<open>Once the input has ended, every message from the server is answered with an empty one.\<close>

lemma cli_answers_end: "snd (cli_zmq_main argv (map Some ns) []) = replicate (length ns) []"
  by (induction ns) (simp_all add: cli_zmq_main_def split: prod.splits)

section \<open>The trials of the language\<close>

text \<open>\<open>__cplusplus\<close> is the compiler's; the environment is an array of pointers with a null pointer at its end.\<close>

definition cpp_version :: "int \<Rightarrow> string" where
  "cpp_version cplusplus =
     (if cplusplus \<le> 199711 then ''C++1997''
      else if cplusplus \<le> 201103 then ''C++11''
      else if cplusplus \<le> 201402 then ''C++14''
      else if cplusplus \<le> 201703 then ''C++17''
      else if cplusplus \<le> 202002 then ''C++20''
      else if cplusplus \<le> 202302 then ''C++23''
      else ''C++Unknown'')"

definition cppversion_main :: "int \<Rightarrow> string" where
  "cppversion_main cplusplus = cpp_version cplusplus @ newline"

fun print_env :: "string option list \<Rightarrow> fault + string" where
  "print_env [] = Inl OutOfBounds"
| "print_env (None # env) = Inr []"
| "print_env (Some v # env) = bindE (print_env env) (\<lambda>out. Inr (v @ newline @ out))"

lemma print_env_lines: "print_env (map Some vs @ None # rest) = Inr (concat (map (\<lambda>v. v @ newline) vs))"
  by (induction vs) simp_all

definition scratch_main :: string where
  "scratch_main = string_of_nat (of_char (CHR 0x0A)) @ newline"

section \<open>Views over fixed point numbers\<close>

text \<open>
  The number type \<open>ScaledInt64\<close> of the fixed point library, with the types of a product and of a quotient,
  which the library chooses, and the conversions back that the program relies on.
\<close>

record ('n, 'p, 'q) fixed_point =
  fx_of_int :: "int \<Rightarrow> 'n"
  fx_to_int :: "'n \<Rightarrow> int"
  fx_times :: "'n \<Rightarrow> 'n \<Rightarrow> 'p"
  fx_of_product :: "'p \<Rightarrow> 'n"
  fx_over :: "'n \<Rightarrow> int \<Rightarrow> 'q"
  fx_of_quotient :: "'q \<Rightarrow> 'n"
  fx_show :: "'n \<Rightarrow> string"
  fx_show_quotient :: "'q \<Rightarrow> string"

definition fixed_ints :: "('n, 'p, 'q) fixed_point \<Rightarrow> 'n list" where
  "fixed_ints L = map (fx_of_int L) [0, 1, 2, 3, 4, 5]"

definition fixed_even :: "('n, 'p, 'q) fixed_point \<Rightarrow> 'n \<Rightarrow> bool" where
  "fixed_even L i \<longleftrightarrow> 2 dvd fx_to_int L i"

definition fixed_square :: "('n, 'p, 'q) fixed_point \<Rightarrow> 'n \<Rightarrow> 'p" where
  "fixed_square L i = fx_times L i i"

definition fixed_div3 :: "('n, 'p, 'q) fixed_point \<Rightarrow> 'n \<Rightarrow> 'q" where
  "fixed_div3 L i = fx_over L i 3"

text \<open>What a loop over a view prints: every element is converted to the type of the loop variable.\<close>

definition fixed_line :: "('n, 'p, 'q) fixed_point \<Rightarrow> 'n list \<Rightarrow> string" where
  "fixed_line L is = concat (map (\<lambda>i. fx_show L i @ '' '') is)"

definition math_main :: "('n, 'p, 'q) fixed_point \<Rightarrow> string" where
  "math_main L =
     fixed_line L (map (fx_of_quotient L) (map (\<lambda>p. fixed_div3 L (fx_of_product L p))
       (map (fixed_square L) (filter (fixed_even L) (fixed_ints L))))) @ newline @
     fixed_line L (map (fx_of_product L) (map (fixed_square L) (filter (fixed_even L) (fixed_ints L)))) @ newline @
     (let result = fx_over L (fx_of_int L 10) 3 in fx_show_quotient L result @ newline) @ newline"

text \<open>
  With a library that reads back the integers it was given and multiplies them exactly, the second line holds
  the squares of the even ones.
\<close>

lemma math_squares:
  assumes "\<And>n. fx_to_int L (fx_of_int L n) = n"
    and "\<And>n. fx_of_product L (fx_times L (fx_of_int L n) (fx_of_int L n)) = fx_of_int L (n * n)"
  shows "map (fx_of_product L) (map (fixed_square L) (filter (fixed_even L) (fixed_ints L))) =
    map (fx_of_int L) [0, 4, 16]"
  using assms(2) [of 0] assms(2) [of 2] assms(2) [of 4] assms(1)
  by (simp add: fixed_ints_def fixed_even_def fixed_square_def)

end
