(* ===== verification/Repository_Tests.thy ===== *)
theory Repository_Tests
  imports Graph Yaml_Storage Storage_Actor Security
begin

text \<open>
  The tests of the repository, run on the model: \<^verbatim>\<open>pmud/graph/test\<close>, \<^verbatim>\<open>pmud/test/non-actor\<close> and the storage
  test of \<^verbatim>\<open>pmud/test/actor\<close>. Each lemma has the operations of a test and states its expectations.
\<close>

section \<open>Graphs\<close>

text \<open>\<open>graph[u].adjSize()\<close>, \<open>graph[u][i]\<close> and \<open>graph[graph[u][i]].index()\<close>\<close>

definition adj_size_at :: "graph \<Rightarrow> int \<Rightarrow> fault + nat" where
  "adj_size_at g u = bindE (graph_vertex g u) (\<lambda>x. Inr (adjSize x))"

definition neighbour :: "graph \<Rightarrow> int \<Rightarrow> nat \<Rightarrow> fault + int" where
  "neighbour g u i = bindE (graph_vertex g u) (\<lambda>x. adj_at x i)"

definition neighbour_index :: "graph \<Rightarrow> int \<Rightarrow> nat \<Rightarrow> fault + int" where
  "neighbour_index g u i = bindE (neighbour g u i) (\<lambda>v. bindE (graph_vertex g v) (\<lambda>x. Inr (index x)))"

definition build :: "int \<Rightarrow> graph_type \<Rightarrow> (int \<times> int) list \<Rightarrow> fault + graph" where
  "build n t es = foldE (\<lambda>(u, v) g. addEdge u v g) es (graph_new n t)"

definition test_edges :: "(int \<times> int) list" where
  "test_edges = [(0, 1), (1, 0), (1, 1), (1, 2)]"

text \<open>The expectations of a test hold of a result that is not a fault.\<close>

definition expect :: "fault + 'a \<Rightarrow> ('a \<Rightarrow> bool) \<Rightarrow> bool" where
  "expect r P = (case r of Inl f \<Rightarrow> False | Inr x \<Rightarrow> P x)"

lemma DirectedGraphShouldHaveSpecifiedAdjacencies:
  "expect (build 2 GRAPHTYPE_DIRECTED [(0, 1)]) (\<lambda>g. numVertices g = 2 \<and>
     adj_size_at g 0 = Inr 1 \<and> adj_size_at g 1 = Inr 0 \<and> neighbour g 0 0 = Inr 1)"
  by code_simp

lemma UndirectedGraphShouldHaveSpecifiedAdjacencies:
  "expect (build 2 GRAPHTYPE_UNDIRECTED [(0, 1)]) (\<lambda>g. numVertices g = 2 \<and>
     adj_size_at g 0 = Inr 1 \<and> adj_size_at g 1 = Inr 1 \<and> neighbour g 0 0 = Inr 1 \<and> neighbour g 1 0 = Inr 0)"
  by code_simp

definition keeps_test_edges :: "graph \<Rightarrow> bool" where
  "keeps_test_edges g \<longleftrightarrow> numVertices g = 3 \<and> neighbour_index g 0 0 = Inr 1 \<and> neighbour_index g 1 0 = Inr 0 \<and>
     neighbour_index g 1 1 = Inr 1 \<and> neighbour_index g 1 2 = Inr 2"

lemma DirectedGraphAssignmenShouldCloneGraph:
  "expect (bindE (build 3 GRAPHTYPE_DIRECTED test_edges) graph_copy) keeps_test_edges"
  by code_simp

lemma UnDirectedGraphAssignmentShouldCloneGraph:
  "expect (bindE (build 3 GRAPHTYPE_UNDIRECTED test_edges) graph_copy) keeps_test_edges"
  by code_simp

lemma TransposedGraphShouldTranposeGraph:
  "expect (build 3 GRAPHTYPE_DIRECTED [(0, 1), (1, 0), (1, 2)]) (\<lambda>g. expect (transpose_graph g) (\<lambda>t.
     numVertices g = 3 \<and> numVertices t = 3 \<and>
     map (adj_size_at g) [0, 1, 2] = [Inr 1, Inr 2, Inr 0] \<and> map (adj_size_at t) [0, 1, 2] = [Inr 1, Inr 1, Inr 1]))"
  by code_simp

lemma ShouldAssignAdjancencyIndices:
  "expect (build 3 GRAPHTYPE_DIRECTED test_edges) keeps_test_edges"
  by code_simp

section \<open>Storage\<close>

text \<open>The document of \<open>SequenceTest\<close>, as the parser delivers it, loaded under \<open>test\<close>.\<close>

definition monster_kinds :: yaml where
  "monster_kinds = YMap [(YScalar ''monster-kind'',
     YSeq (map YScalar [''undead'', ''feral'', ''magical'', ''demonic'', ''celestial'']))]"

text \<open>A load runs its list of storage calls.\<close>

lemma load_runs:
  "yaml_ops scalar_text path n True = Inr ops \<Longrightarrow>
   yaml_to_storage mock_ops scalar_text mock_empty path n True = Inr (foldl (run_op mock_ops) mock_empty ops)"
  by (simp add: load_runs_ops(1))

lemmas yaml_ops_defs = scalar_text_def is_scalar_def new_path_def path_name_def

lemma monster_kinds_ops:
  "yaml_ops scalar_text ''test'' monster_kinds True = Inr (OpDel ''test:monster-kind'' #
     map (OpSet ''test:monster-kind'') [''undead'', ''feral'', ''magical'', ''demonic'', ''celestial''])"
  by (simp add: monster_kinds_def yaml_ops_defs)

lemma SequenceTest:
  "expect (yaml_to_storage mock_ops scalar_text mock_empty ''test'' monster_kinds True) (\<lambda>s.
     expect (so_set_get mock_ops s ''test:monster-kind'') (\<lambda>r. map_option length r = Some 5))"
  unfolding load_runs [OF monster_kinds_ops] by code_simp

definition monsters :: yaml where
  "monsters = YMap
     [(YScalar ''monster_abominable snowman'', YMap [(YScalar ''kind'', YScalar ''feral''), (YScalar ''hit-dice'', YScalar ''4d6'')]),
      (YScalar ''monster_banshee'', YMap [(YScalar ''kind'', YScalar ''magical''), (YScalar ''hit-dice'', YScalar ''4d10'')])]"

lemma monsters_ops:
  "yaml_ops scalar_text ''monsters'' monsters True = Inr
     [OpDel ''monsters:monster:abominable snowman'', OpMap ''monsters:monster:abominable snowman'' ''kind'' ''feral'',
      OpMap ''monsters:monster:abominable snowman'' ''hit-dice'' ''4d6'',
      OpDel ''monsters:monster:banshee'', OpMap ''monsters:monster:banshee'' ''kind'' ''magical'',
      OpMap ''monsters:monster:banshee'' ''hit-dice'' ''4d10'']"
  by (simp add: monsters_def yaml_ops_defs)

lemma MapTest:
  "expect (yaml_to_storage mock_ops scalar_text mock_empty ''monsters'' monsters True) (\<lambda>s.
     expect (so_map_get mock_ops s ''monsters:monster:abominable snowman'') (\<lambda>r. map_option length r = Some 2) \<and>
     expect (so_map_get mock_ops s ''monsters:monster:banshee'') (\<lambda>r. map_option length r = Some 2))"
  unfolding load_runs [OF monsters_ops] by code_simp

text \<open>The storage actor: the stores of a test, then its question; the answer is the last reply.\<close>

definition asked :: "message list \<Rightarrow> message \<Rightarrow> fault + storage_reply" where
  "asked stores question =
     bindE (storage_actor_run mock_ops (Some mock_empty) (stores @ [question])) (\<lambda>(_, replies). Inr (last replies))"

lemma value_store_test:
  "asked [StorageValueStore ''foo'' ''bar''] (StorageValueGet ''foo'') = Inr (ReplyString (Some ''bar''))"
  by code_simp

lemma map_store_test:
  "expect (asked [StorageMapStore ''mymap'' ''foo'' ''bar''] (StorageMapGet ''mymap''))
     (\<lambda>r. case r of ReplyMap (Some m) \<Rightarrow> smap_get m ''foo'' = Some ''bar'' | _ \<Rightarrow> False)"
  by code_simp

lemma list_store_test:
  "expect (asked [StorageListStore ''mylist'' ''foo'', StorageListStore ''mylist'' ''bar''] (StorageListGet ''mylist''))
     (\<lambda>r. case r of ReplyList (Some l) \<Rightarrow> ''foo'' \<in> set l \<and> ''bar'' \<in> set l | _ \<Rightarrow> False)"
  by code_simp

lemma set_store_test:
  "expect (asked [StorageSetStore ''myset'' ''foo'', StorageSetStore ''myset'' ''bar''] (StorageSetGet ''myset''))
     (\<lambda>r. case r of ReplySet (Some l) \<Rightarrow> ''foo'' \<in> set l \<and> ''bar'' \<in> set l | _ \<Rightarrow> False)"
  by code_simp

section \<open>Credentials\<close>

text \<open>
  \<open>BackAndForth\<close> and \<open>SamePasshraseSameSalt\<close> for every outcome of the random numbers and every content of the
  uninitialised memory. \<open>SamePasshraseDifferentSalt\<close> asks for different
  hashes of different salts, which no hash function can promise; that the text that is stored differs is
  proved in \<open>Security\<close>.
\<close>

lemma BackAndForth:
  "let salt = generate_random_salt env; c = hash_credentials env ''password'' salt
   in ch_salt c = salt \<and> ch_iterations c = 0 \<and>
      string_of_nat (ch_iterations c) @ '':'' @ ch_salt c @ '':'' @ ch_hash c = credential_to_string c"
  by (simp add: Let_def hash_credentials_def credential_to_string_def)

lemma SamePasshraseSameSalt:
  assumes "crypto_env_ok env" "crypto_env_ok env'"
  shows "ch_hash (hash_credentials env ''password'' salt) = ch_hash (hash_credentials env' ''password'' salt)"
  by (simp add: hash_credentials_eq assms)

end
