(* ===== verification/Spec2Isabelle.thy ===== *)
theory Spec2Isabelle
  imports Mud_Main Shutdown_Run Stream_Tools Graph_Programs Life Hmac Digest_Tool Util_Trials Repository_Tests
begin

text \<open>
  Primordia MUD: a line-oriented game server built on an actor framework, with the libraries that live
  beside it in the repository. Paths are below \<^verbatim>\<open>src/\<close>; \<^verbatim>\<open>pmud/src\<close> is written \<^verbatim>\<open>P\<close>.

  \<^bold>\<open>The program.\<close> The main thread (\<^verbatim>\<open>pmud/main.cpp\<close>) reads a YAML configuration, connects to a Redis
  server, spawns a storage actor, an event recorder and the server actor, and waits for an interrupt. The
  server actor accepts sockets and spawns a connection actor for each; the connection actor writes and
  polls its socket and spawns a command actor, which routes each typed line to the login controller or
  to the default controller. A completed login is recorded: the event recorder turns the event into a
  store message, the storage actor into a call of the storage, and a function of the Redis server appends
  it to a stream. At the interrupt the main thread sends every registered connection a goodbye and stops
  the server actor.

  \<^bold>\<open>Theories, in the order of dependency.\<close>

  \<^item> \<open>Prelude\<close>: machine types, the \<open>fault\<close> type (undefined behaviour, exceptions and exits as values of a
    sum), vector accesses, decimal printing, results under fuel.
  \<^item> \<open>Block_Hash\<close>, \<open>Word_Bytes\<close>, \<open>Digest_Stream\<close>: what the digest classes of \<^verbatim>\<open>P/common/hash-library\<close> share.
    A digest object is a record of counter, buffer and chaining value; \<open>hasher_add\<close> and
    \<open>process_buffer\<close> are the code that every class repeats, over its block size and compression
    function. Locale \<open>block_hash\<close> shows that buffering feeds the concatenation of all pieces, \<open>md_hash\<close>
    adds the padding, and \<open>digest_object\<close> is the interface of a stream of \<open>add\<close> and \<open>getHash\<close> calls.
  \<^item> \<open>Sha256\<close>, \<open>Sha1\<close>, \<open>Md5\<close>, \<open>Keccak\<close> and \<open>Keccak_Digest\<close>, \<open>Crc32\<close>: the classes of \<^verbatim>\<open>sha256.cpp\<close>,
    \<^verbatim>\<open>sha1.cpp\<close>, \<^verbatim>\<open>md5.cpp\<close>, \<^verbatim>\<open>keccak.cpp\<close>, \<^verbatim>\<open>sha3.cpp\<close> and \<^verbatim>\<open>crc32.cpp\<close>, each proved equal to its standard
    (FIPS 180-4, RFC 1321, FIPS 202, the bitwise division) as an interpretation of \<open>digest_object\<close>.
    \<open>Hmac\<close> is the template of \<^verbatim>\<open>hmac.h\<close> over locale \<open>hash_class\<close>, \<open>Digest_Tool\<close> the program \<^verbatim>\<open>digest.cpp\<close>.
  \<^item> \<open>Security\<close>: \<^verbatim>\<open>P/common/pmud_security.h\<close>, the salted credential.
  \<^item> \<open>Std_Map\<close>, \<open>Messages\<close>, \<open>Storage\<close>, \<open>Storage_Actor\<close>: ordered maps and sets, the messages of
    \<^verbatim>\<open>P/common/global_type_id.h\<close>, the interface \<^verbatim>\<open>P/storage/storage.h\<close> as a record of operations with its
    contract as the locale \<open>storage_contract\<close> (one key space per kind) and the weaker \<open>typed_storage\<close> (one
    key space), the storage in memory that the tests use, the storage actor and the event recorder.
  \<^item> \<open>Redis_Storage\<close>: \<^verbatim>\<open>P/storage/redis_storage.h\<close> and \<^verbatim>\<open>redis_stream_injestor.h\<close> over the client library
    (record \<open>redis_api\<close>) and what the server documents (locale \<open>redis_server\<close>); it keeps \<open>typed_storage\<close>.
    \<open>Redis_Events\<close>: the server functions \<^verbatim>\<open>pmud/scripts/redis-functions/events.lua\<close>.
    \<open>Yaml_Storage\<close>: \<^verbatim>\<open>P/storage/yaml_storage.h\<close> and \<^verbatim>\<open>P/common/yaml_util.h\<close> on parsed documents.
  \<^item> \<open>Comm_Static\<close>, \<open>Controllers\<close>, \<open>Connection_Actor\<close>, \<open>Server_Actor\<close>: \<^verbatim>\<open>P/pnet\<close> and \<^verbatim>\<open>P/controllers\<close>. A
    handler takes the actor's members, a message and what the system calls answer, and returns the new
    members and the list of effects (sends, spawns, registry changes) in the order of the code.
  \<^item> \<open>Mud_System\<close>: all actors with their mailboxes and the registry as a step relation; \<open>Mud_Main\<close>:
    \<^verbatim>\<open>pmud/main.cpp\<close>. \<open>System_Events\<close>: locale \<open>message_contract\<close>, a predicate on messages that every
    handler hands on, with its instance that passwords leave the login controller as salted hashes; and runs
    along a schedule of turns (\<open>run_schedule\<close>), with the session of a new user as one. \<open>Session_Isolation\<close>:
    the invariant that the actors of a session know only each other. \<open>Shutdown_Run\<close>: runs behind the
    goodbyes of the main thread.
  \<^item> \<open>Text_Tools\<close>, \<open>Redis_Tools\<close>, \<open>Stream_Tools\<close>: \<^verbatim>\<open>P/common/pmud_io.h\<close> and \<^verbatim>\<open>pmud_string.h\<close>, and the
    programs \<^verbatim>\<open>util/redis-keydump.cpp\<close>, \<^verbatim>\<open>yaml-redis-loader.cpp\<close>, \<^verbatim>\<open>yaml-print.cpp\<close>, \<^verbatim>\<open>redis-stream-in.cpp\<close> and
    \<^verbatim>\<open>redis-stream-out.cpp\<close>. Locales \<open>redis_types\<close> and \<open>stream_server\<close> say what the server answers about the
    type of a key and about a stream; the server in memory is the instance of both.
  \<^item> \<open>Graph\<close>, \<open>BFS\<close>, \<open>DFS\<close>: the graph library \<^verbatim>\<open>pmud/graph/include\<close>; \<open>Graph_Programs\<close>: the seven programs of
    \<^verbatim>\<open>pmud/graph/application\<close>. \<open>Life\<close>: \<^verbatim>\<open>life/life.c\<close>. \<open>Util_Trials\<close>: the small programs of \<^verbatim>\<open>util\<close>.
  \<^item> \<open>Repository_Tests\<close>: the unit tests of the repository, run on the model.

  \<^bold>\<open>What the lemmas show.\<close> For the server: an invariant of all reachable states (every
  waiting message has a handler, no actor fails, the registry names exactly the open connections, no password is
  sent or stored in the clear, nobody's lines reach another session), the dialogue of a login and what it
  records as functions of the lines typed, a complete session from the socket to the storage, a refinement of
  the connection actor by a small automaton of polls, and the shutdown: no open connection ends before it is
  told goodbye, and it closes within a bounded number of its own turns afterwards, but a connection that is
  accepted behind the goodbyes stays open while its client is silent. For the storage: contracts, refinement by
  both storages, idempotence of a load, round trips of stream replies and through the command line tools. For
  the digests: equality with the standards for every way of cutting the input into calls, independent of
  uninitialised memory. For the graphs: shortest paths, as long as the search pops fewer vertices than a block
  of its queue holds, and a read of freed memory otherwise; discovery times that nest exactly along the parents;
  and what the programs print of them. For the game: the rules, the board operations cell by cell, the end of a
  game, files. Properties of kind error prove defects of the code; they are listed with the findings of the
  manifest.

  \<^bold>\<open>Bounds and fuel.\<close> Words have the width of the code (\<open>u32\<close>,
  \<open>u64\<close>, ports of 16 bits) and wrap. An \<open>int\<close> of the graph programs and of the game
  that can leave its range is checked, and \<open>SignedOverflow\<close> is its fault: the numbers of their
  command lines and ten times the number of vertices, the distances of \<open>BFS\<close>, the clock of
  \<open>DFS\<close>, the generation and the delay of the game. Any other \<open>int\<close> is an
  \<open>int\<close> of the logic; the counters of the stream programs, of 64 bits, are natural numbers, and a
  number behind their \<open>-b\<close> is taken as it is written. The queue of \<open>BFS\<close> keeps
  \<open>b\<close> elements to a block and frees a block with its last element: \<open>b\<close> is an argument
  of the search, and \<open>DEQUE_BLOCK\<close>, 128, in the program. The recursions of \<open>DFS_Visit\<close>
  and of \<open>printPath\<close> run on fuel, and depth \<open>V\<close> is shown to be enough for
  \<open>V\<close> vertices; the graph programs take this fuel. The loop of the game ends by itself; that
  \<open>play\<close> waits for a key behind it for ever is the result \<open>None\<close>. The endless loops of
  the stream and message queue programs are runs of a number of turns, and \<open>replace_all\<close>, which
  need not end, is a partial function. Every other loop is a terminating function. The programs read
  little-endian memory, the configuration that the \<^verbatim>\<open>__BYTE_ORDER\<close> switches select.

  \<^bold>\<open>Parameters.\<close> The actor framework's scheduling is the nondeterminism of the step relation, with the order
  of messages between two actors kept. System calls, the resolver, the clock, random numbers, files, the
  YAML parser, the log library, the Lua interpreter, the message queue, the fixed point library and the Redis
  client are data or function arguments; the answers of \<open>send\<close> are those of calls that return, so that the
  \<open>SIGPIPE\<close> of a \<open>send\<close> to a peer that has hung up, which ends the process, is outside the model. What is
  assumed of the Redis server is in the locale \<open>redis_server\<close> and its extensions, with a server in memory as
  the interpretation.

  \<^bold>\<open>Not modelled.\<close> \<^verbatim>\<open>P/player/player.h\<close> does not compile and
  \<^verbatim>\<open>P/pnet/server_state.h\<close> is a duplicate that nothing includes. The deleters of
  \<^verbatim>\<open>P/storage/redis_types.h\<close> and \<open>free_board\<close> release memory that the model
  does not have; the \<open>delete\<close> of replies in \<open>redis_storage.h\<close> is left out with them. Each
  connection has a socket of its own: descriptors that the system gives out again are not modelled, and words
  are loaded from any address as on x86. Logging is left out throughout. The tests of
  \<^verbatim>\<open>pmud/test/actor\<close> that open sockets or measure time, and the test vectors of the
  digest library, are not run; the digests are proved against their standards instead.
\<close>

section \<open>The actors together\<close>

text \<open>
  C7: In every reachable state of the running server, whatever the users type, the sockets answer
  and the scheduler chooses, each message that waits in an actor's mailbox is one for which that
  actor's behaviour has a handler: no message is ever unexpected.
\<close>

theorem system_protocol:
  assumes "reachable ops cfg s w" "w_actors w a = Some st" "Msg m \<in> set (w_mail w a)"
  shows "handled_by (kind_of st) m"
  using reachable_ok [OF assms(1)] assms(2,3)
  unfolding world_ok_def actors_ok_def mails_ok_def by (metis option.inject)

theorem system_protocol_witness:
  "\<exists>w st. reachable mock_ops example_config None w \<and> w_actors w 4 = Some st \<and>
     kind_of st = KConnection \<and> handled_by (kind_of st) PerformWelcome"
proof -
  obtain w sk where w: "reachable mock_ops example_config None w"
    "w_actors w 4 = Some (Connection (fresh_connection 5 4 7) sk)" "Msg PerformWelcome \<in> set (w_mail w 4)"
    using example_accepted by blast
  from system_protocol [OF w] w show ?thesis by auto
qed

text \<open>
  C31: No actor of a reachable state has failed: as the descriptors that \<open>accept\<close> gives out are
  positive, no \<open>CommStatic\<close> is ever built on an invalid connection, and no other handler throws.
\<close>

theorem system_no_fault:
  assumes "reachable ops cfg s w"
  shows "w_failed w = []"
  using reachable_ok [OF assms] by (simp add: world_ok_def)

theorem system_no_fault_witness:
  "\<exists>w sk. reachable mock_ops example_config None w \<and>
     w_actors w 4 = Some (Connection (fresh_connection 5 4 7) sk) \<and> w_failed w = []"
proof -
  obtain w sk where w: "reachable mock_ops example_config None w"
    "w_actors w 4 = Some (Connection (fresh_connection 5 4 7) sk)"
    using example_accepted by blast
  with system_no_fault [OF w(1)] show ?thesis by blast
qed

text \<open>
  C8: The registry names exactly the open connections: a live connection actor is registered under
  its own name as long as its socket is open, and no longer once it has said goodbye.
\<close>

theorem registry_names_open_connections:
  assumes "reachable ops cfg s w" "w_actors w a = Some (Connection cn sk)"
  shows "(smap_get (w_registry w) (registery_id a) = Some a) = (\<not> sk_closed sk)"
  using reachable_registry [OF assms(1)] assms(2) by (simp add: registry_exact_def)

theorem registry_names_open_connections_witness:
  "\<exists>w sk. reachable mock_ops example_config None w \<and>
     w_actors w 4 = Some (Connection (fresh_connection 5 4 7) sk) \<and>
     (smap_get (w_registry w) ''Connection(4)'' = Some 4) = (\<not> sk_closed sk)"
proof -
  obtain w sk where w: "reachable mock_ops example_config None w"
    "w_actors w 4 = Some (Connection (fresh_connection 5 4 7) sk)"
    using example_accepted by blast
  have "registery_id 4 = ''Connection(4)''" by code_simp
  with registry_names_open_connections [OF w] w show ?thesis by auto
qed

text \<open>
  The shutdown of the main thread misses no open connection: after it, every live connection
  actor whose socket is open has the goodbye in its mailbox.
\<close>

theorem shutdown_reaches_every_connection:
  assumes "reachable ops cfg s w" "w_actors w a = Some (Connection cn sk)" "\<not> sk_closed sk"
  shows "Msg GoodbyeConnection \<in>
    set (w_mail (run_effects (mud_of cfg) e w (quit_connection_actors (w_registry w))) a)"
proof -
  have "smap_get (w_registry w) (registery_id a) = Some a"
    using reachable_registry [OF assms(1)] assms(2,3) by (simp add: registry_exact_def)
  from run_sends_mail [OF quit_sends assms(2)] quit_reaches [OF this] show ?thesis
    by (simp add: run_effects_def)
qed

theorem shutdown_reaches_every_connection_witness:
  "\<exists>w sk. reachable mock_ops example_config None w \<and>
     w_actors w 4 = Some (Connection (fresh_connection 5 4 7) sk) \<and>
     Msg GoodbyeConnection \<in> set (w_mail (run_effects (mud_of example_config) example_env w
        (quit_connection_actors (w_registry w))) 4)"
proof -
  obtain w sk where w: "reachable mock_ops example_config None w"
    "w_actors w 4 = Some (Connection (fresh_connection 5 4 7) sk)" "\<not> sk_closed sk"
    using example_accepted by blast
  with shutdown_reaches_every_connection [OF w, of example_env] show ?thesis by blast
qed

section \<open>Events and configuration data in the server\<close>

text \<open>
  C15: What a user does reaches the stream of events: for every event message the recorder sends exactly
  one store message to the storage actor, whose storage turns it into one server command, and the
  function that the command calls appends to the stream \<open>events\<close> a record with the event's name, the user
  and, for a new user, the credential, each up to its first NUL.
\<close>

theorem user_events_reach_stream:
  assumes "is_event m"
  shows "\<exists>store.
    event_recorder_handle sa m = [Send sa store] \<and>
    storage_actor_handle (redis_ops api i) (Some d) store =
      Inr (Some (snd (redisCommandArgv api d (event_argv store))), NoReply) \<and>
    (\<exists>cmd. fcall (event_argv store) = Some cmd \<and> xadd_record cmd = Some (''events'', event_record m))"
  by (rule event_to_record [OF assms])

theorem user_events_reach_stream_witness:
  "\<exists>store. event_recorder_handle 1 (EventUserCreate ''ann'' ''1:ab:cd'') = [Send 1 store] \<and>
    (\<exists>cmd. fcall (event_argv store) = Some cmd \<and>
      xadd_record cmd = Some (''events'',
        [(''event'', ''EventUserCreate''), (''passphrase'', ''1:ab:cd''), (''username'', ''ann'')]))"
  using user_events_reach_stream [of "EventUserCreate ''ann'' ''1:ab:cd''" 1 memory_redis "\<lambda>m. (True, m)" Map.empty]
  by (auto simp: c_str_literal)

text \<open>
  C34: A document whose paths are each used for one kind of value is stored the same by both storages: loaded
  into a Redis server and into the storage in memory with the same contents, it leaves the same contents.
\<close>

theorem yaml_load_storage_independent:
  assumes server: "redis_server api db" "redis_db_ok (db d)"
    and mock: "mock_inv s" "mock_view s = redis_view (db d)"
    and typed: "view_typed kd (redis_view (db d))"
    and doc: "yaml_ops conv path node idem = Inr tr" "list_all (op_typed kd) tr"
      "list_all (\<lambda>op. list_all nul_free (op_texts op)) tr"
  shows "\<exists>d' s'. yaml_to_storage (redis_ops api i) conv d path node idem = Inr d' \<and>
    yaml_to_storage mock_ops conv s path node idem = Inr s' \<and> redis_view (db d') = mock_view s'"
proof -
  have "redis_view (db (foldl (run_op (redis_ops api i)) d tr)) = foldl spec_op (redis_view (db d)) tr"
    using typed_storage.typed_run [OF redis_server.redis_typed [OF server(1)]] server(2) typed doc(2,3) by blast
  moreover have "mock_view (foldl (run_op mock_ops) s tr) = foldl spec_op (mock_view s) tr"
    using mock.typed.typed_run [OF mock(1)] typed doc(2) mock(2) by (simp add: list_all_iff)
  ultimately show ?thesis by (simp add: load_runs_ops(1) doc(1) mock(2))
qed

definition typed_document :: yaml where
  "typed_document = YMap
     [(YScalar ''host'', YScalar ''localhost''), (YScalar ''names'', YSeq [YScalar ''b'', YScalar ''a''])]"

definition document_kinds :: "string \<Rightarrow> store_kind" where
  "document_kinds k = (if k = ''config:names'' then KSet else KMap)"

theorem yaml_load_storage_independent_witness:
  "\<exists>d' s'. yaml_to_storage (redis_ops memory_redis (\<lambda>m. (True, m))) scalar_text Map.empty ''config'' typed_document True = Inr d' \<and>
    yaml_to_storage mock_ops scalar_text mock_empty ''config'' typed_document True = Inr s' \<and> redis_view d' = mock_view s'"
proof (rule yaml_load_storage_independent [OF memory_redis_server, where kd = document_kinds])
  show "yaml_ops scalar_text ''config'' typed_document True =
    Inr [OpMap ''config'' ''host'' ''localhost'', OpDel ''config:names'', OpSet ''config:names'' ''b'', OpSet ''config:names'' ''a'']"
    by (simp add: typed_document_def scalar_text_def is_scalar_def new_path_def path_name_def)
qed (simp_all add: redis_db_ok_def redis_view_def view_typed_def document_kinds_def nul_free_def)

end
